(* ===== verification/Kernel_Prelude.thy ===== *)
theory Kernel_Prelude
  imports
    Main
    "HOL-Library.Word"
    "HOL-Library.Signed_Division"
    "HOL-Library.Multiset"
    "HOL-Library.State_Monad"
begin

text \<open>
  Shared vocabulary of the development.

  \<^item> C integers: conversions to \<open>int\<close>, \<open>short\<close> and \<open>unsigned long\<close>, and the error numbers
    the drivers return.
  \<^item> Byte memory: \<open>peek\<close> and \<open>poke\<close> read and write a run of bytes of a buffer and say
    \<open>None\<close> when the run leaves the buffer.
  \<^item> Kernel calls: the Linux kernel is not part of the repository, so what a call returns is
    a parameter. An environment answers every call from the history of calls made so far; a
    driver function runs in the state monad over a world that records the trace of calls
    with their answers. A theorem for every environment is a theorem for every behaviour of
    the kernel.
  \<^item> The ledger: what a trace leaves registered, given a table that says which call acquires
    and which call gives back which resource (the documented pairing of the kernel's
    interfaces).
  \<^item> The interface of a loadable module as a locale: what a successful \<open>module_init\<close> holds
    and what \<open>module_exit\<close> gives back, with the consequence for repeated load and unload; its extension by the handlers that are called in between.
  \<^item> The interface of a refinement as a locale: a driver and its specification as step functions over the same events.
\<close>

named_theorems krun \<open>rules that execute a driver function\<close>
named_theorems tables \<open>the acquire and release tables of the ledgers\<close>

section \<open>Two threads\<close>

text \<open>The modules that start kernel threads start two of them.\<close>

datatype tid = T1 | T2

lemma all_tid: "(\<forall>i. P i) \<longleftrightarrow> P T1 \<and> P T2"
  by (metis tid.exhaust)

section \<open>C integers and error numbers\<close>

type_synonym byte = "8 word"
type_synonym ulong = "64 word"
type_synonym u32 = "32 word"

text \<open>Conversion of a mathematical integer to C's 32-bit \<open>int\<close> and 16-bit \<open>short\<close>.\<close>

definition s32 :: "int \<Rightarrow> int" where
  "s32 x = signed_take_bit 31 x"

definition s16 :: "int \<Rightarrow> int" where
  "s16 x = signed_take_bit 15 x"

abbreviation (input) EPERM :: int where "EPERM \<equiv> 1"
abbreviation (input) ENOENT :: int where "ENOENT \<equiv> 2"
abbreviation (input) EIO :: int where "EIO \<equiv> 5"
abbreviation (input) EAGAIN :: int where "EAGAIN \<equiv> 11"
abbreviation (input) ENOMEM :: int where "ENOMEM \<equiv> 12"
abbreviation (input) EFAULT :: int where "EFAULT \<equiv> 14"
abbreviation (input) EBUSY :: int where "EBUSY \<equiv> 16"
abbreviation (input) ENODEV :: int where "ENODEV \<equiv> 19"
abbreviation (input) EINVAL :: int where "EINVAL \<equiv> 22"
abbreviation (input) ENOTTY :: int where "ENOTTY \<equiv> 25"
abbreviation (input) EPIPE :: int where "EPIPE \<equiv> 32"
abbreviation (input) ECONNRESET :: int where "ECONNRESET \<equiv> 104"
abbreviation (input) ESHUTDOWN :: int where "ESHUTDOWN \<equiv> 108"
abbreviation (input) ETIMEDOUT :: int where "ETIMEDOUT \<equiv> 110"
abbreviation (input) ERESTARTSYS :: int where "ERESTARTSYS \<equiv> 512"

lemma s32_id [simp]: "- (2 ^ 31) \<le> x \<Longrightarrow> x < 2 ^ 31 \<Longrightarrow> s32 x = x"
  by (simp add: s32_def signed_take_bit_int_eq_self)

lemma s16_id [simp]: "- (2 ^ 15) \<le> x \<Longrightarrow> x < 2 ^ 15 \<Longrightarrow> s16 x = x"
  by (simp add: s16_def signed_take_bit_int_eq_self)

lemma s32_range: "- (2 ^ 31) \<le> s32 x \<and> s32 x < 2 ^ 31"
  using signed_take_bit_int_greater_eq_minus_exp [of 31 x] signed_take_bit_int_less_exp [of 31 x]
  by (simp add: s32_def)

lemma s16_range: "- (2 ^ 15) \<le> s16 x \<and> s16 x < 2 ^ 15"
  using signed_take_bit_int_greater_eq_minus_exp [of 15 x] signed_take_bit_int_less_exp [of 15 x]
  by (simp add: s16_def)

section \<open>Byte memory\<close>

definition peek :: "'a list \<Rightarrow> nat \<Rightarrow> nat \<Rightarrow> 'a list option" where
  "peek m off n = (if off + n \<le> length m then Some (take n (drop off m)) else None)"

definition poke :: "'a list \<Rightarrow> nat \<Rightarrow> 'a list \<Rightarrow> 'a list option" where
  "poke m off bs =
     (if off + length bs \<le> length m
      then Some (take off m @ bs @ drop (off + length bs) m) else None)"

lemma poke_length: "poke m off bs = Some m' \<Longrightarrow> length m' = length m"
  by (auto simp: poke_def split: if_splits)

lemma poke_Some_iff: "(\<exists>m'. poke m off bs = Some m') \<longleftrightarrow> off + length bs \<le> length m"
  by (simp add: poke_def)

lemma peek_poke_same:
  assumes "poke m off bs = Some m'"
  shows "peek m' off (length bs) = Some bs"
  using assms by (auto simp: peek_def poke_def split: if_splits)

lemma poke_nth:
  assumes "poke m off bs = Some m'" and "i < length m"
  shows "m' ! i = (if off \<le> i \<and> i < off + length bs then bs ! (i - off) else m ! i)"
  using assms by (auto simp: poke_def nth_append min_def split: if_splits)

lemma peek_poke_disjoint:
  assumes p: "poke m off bs = Some m'"
    and d: "o2 + n \<le> off \<or> off + length bs \<le> o2"
  shows "peek m' o2 n = peek m o2 n"
proof (cases "o2 + n \<le> length m")
  case True
  have "take n (drop o2 m') = take n (drop o2 m)"
    using True poke_length [OF p] d by (intro nth_equalityI) (auto simp: poke_nth [OF p])
  then show ?thesis using poke_length [OF p] by (simp add: peek_def)
next
  case False
  then show ?thesis using poke_length [OF p] by (simp add: peek_def)
qed

lemma peek_length: "peek m off n = Some bs \<Longrightarrow> length bs = n"
  by (auto simp: peek_def split: if_splits)

text \<open>\<^verbatim>\<open>printf("%s")\<close> of a buffer: \<open>None\<close> when there is no terminating zero in it.\<close>

definition c_string :: "byte list \<Rightarrow> byte list option" where
  "c_string buff = (if 0 \<in> set buff then Some (takeWhile (\<lambda>b. b \<noteq> 0) buff) else None)"

text \<open>
  The bytes a user copy moves when it leaves \<open>r\<close> bytes uncopied; a copy into the kernel fills those with zeros.
\<close>

definition copied :: "'a list \<Rightarrow> int \<Rightarrow> 'a list" where
  "copied bs r = take (length bs - nat r) bs"

definition copied_in :: "byte list \<Rightarrow> int \<Rightarrow> byte list" where
  "copied_in bs r = copied bs r @ replicate (length bs - length (copied bs r)) 0"

section \<open>Kernel calls\<close>

text \<open>
  A pointer returned by the kernel: \<open>NULL\<close>, an error code disguised as a pointer
  (\<open>ERR_PTR\<close>), or a real address.
\<close>

datatype kptr = Null | ErrPtr int | Ptr nat

definition IS_ERR :: "kptr \<Rightarrow> bool" where
  "IS_ERR p = (case p of ErrPtr _ \<Rightarrow> True | _ \<Rightarrow> False)"

definition PTR_ERR :: "kptr \<Rightarrow> int" where
  "PTR_ERR p = (case p of ErrPtr e \<Rightarrow> e | _ \<Rightarrow> 0)"

definition is_addr :: "kptr \<Rightarrow> bool" where
  "is_addr p = (case p of Ptr _ \<Rightarrow> True | _ \<Rightarrow> False)"

lemma is_addr_iff [simp]: "is_addr p \<longleftrightarrow> p \<noteq> Null \<and> \<not> IS_ERR p"
  by (cases p) (simp_all add: is_addr_def IS_ERR_def)

lemma IS_ERR_simps [simp]: "\<not> IS_ERR Null" "IS_ERR (ErrPtr e)" "\<not> IS_ERR (Ptr a)"
  by (simp_all add: IS_ERR_def)

text \<open>
  One event of a trace: a call that returned an integer, a call that returned a pointer, a
  call without a result, or a fault (an access through \<open>NULL\<close> or outside an object).
\<close>

datatype 'c kevent = RetI 'c int | RetP 'c kptr | Void 'c | Oops string

type_synonym 'c ktrace = "'c kevent list"

record 'c kenv =
  ret_int :: "'c ktrace \<Rightarrow> 'c \<Rightarrow> int"
  ret_ptr :: "'c ktrace \<Rightarrow> 'c \<Rightarrow> kptr"

record 'c kworld =
  trace :: "'c ktrace"

definition kint :: "'c kenv \<Rightarrow> 'c \<Rightarrow> (('c, 'x) kworld_scheme, int) state" where
  "kint E c = State (\<lambda>w. let r = ret_int E (trace w) c in (r, w\<lparr>trace := trace w @ [RetI c r]\<rparr>))"

definition kptr_call :: "'c kenv \<Rightarrow> 'c \<Rightarrow> (('c, 'x) kworld_scheme, kptr) state" where
  "kptr_call E c = State (\<lambda>w. let r = ret_ptr E (trace w) c in (r, w\<lparr>trace := trace w @ [RetP c r]\<rparr>))"

definition kvoid :: "'c \<Rightarrow> (('c, 'x) kworld_scheme, unit) state" where
  "kvoid c = State (\<lambda>w. ((), w\<lparr>trace := trace w @ [Void c]\<rparr>))"

definition koops :: "string \<Rightarrow> (('c, 'x) kworld_scheme, unit) state" where
  "koops msg = State (\<lambda>w. ((), w\<lparr>trace := trace w @ [Oops msg]\<rparr>))"

definition modify :: "('s \<Rightarrow> 's) \<Rightarrow> ('s, unit) state" where
  "modify f = State (\<lambda>s. ((), f s))"

definition gets :: "('s \<Rightarrow> 'a) \<Rightarrow> ('s, 'a) state" where
  "gets f = State (\<lambda>s. (f s, s))"

abbreviation ret :: "'a \<Rightarrow> ('s, 'a) state" where
  "ret \<equiv> State_Monad.return"

definition final_world :: "('s, 'a) state \<Rightarrow> 's \<Rightarrow> 's" where
  "final_world m s = snd (run_state m s)"

definition result :: "('s, 'a) state \<Rightarrow> 's \<Rightarrow> 'a" where
  "result m s = fst (run_state m s)"

lemma run_kint [krun]:
  "run_state (kint E c) w =
     (ret_int E (trace w) c, w\<lparr>trace := trace w @ [RetI c (ret_int E (trace w) c)]\<rparr>)"
  by (simp add: kint_def Let_def)

lemma run_kptr_call [krun]:
  "run_state (kptr_call E c) w =
     (ret_ptr E (trace w) c, w\<lparr>trace := trace w @ [RetP c (ret_ptr E (trace w) c)]\<rparr>)"
  by (simp add: kptr_call_def Let_def)

lemma run_kvoid [krun]: "run_state (kvoid c) w = ((), w\<lparr>trace := trace w @ [Void c]\<rparr>)"
  by (simp add: kvoid_def)

lemma run_koops [krun]: "run_state (koops m) w = ((), w\<lparr>trace := trace w @ [Oops m]\<rparr>)"
  by (simp add: koops_def)

lemma run_modify [krun]: "run_state (modify f) s = ((), f s)"
  by (simp add: modify_def)

lemma run_gets [krun]: "run_state (gets f) s = (f s, s)"
  by (simp add: gets_def)

text \<open>An environment none of whose pointer answers is an error pointer.\<close>

definition no_err_ptr :: "'c kenv \<Rightarrow> bool" where
  "no_err_ptr E \<longleftrightarrow> (\<forall>tr c. \<not> IS_ERR (ret_ptr E tr c))"

definition never_faults :: "'c ktrace \<Rightarrow> bool" where
  "never_faults tr \<longleftrightarrow> (\<forall>m. Oops m \<notin> set tr)"

lemma never_faults_simps [simp]:
  "never_faults []"
  "never_faults (xs @ ys) \<longleftrightarrow> never_faults xs \<and> never_faults ys"
  "never_faults (RetI c i # xs) \<longleftrightarrow> never_faults xs"
  "never_faults (RetP c p # xs) \<longleftrightarrow> never_faults xs"
  "never_faults (Void c # xs) \<longleftrightarrow> never_faults xs"
  "\<not> never_faults (Oops m # xs)"
  by (auto simp: never_faults_def)

section \<open>The ledger of acquired resources\<close>

text \<open>
  A ledger holds the resources that are acquired and not yet given back, and the resources
  that were given back without being held (a double free, an unregister of something never
  registered).
\<close>

record 'r ledger =
  owned :: "'r multiset"
  misused :: "'r multiset"

definition ledger_step ::
  "('c kevent \<Rightarrow> 'r option) \<Rightarrow> ('c kevent \<Rightarrow> 'r option) \<Rightarrow> 'c kevent \<Rightarrow> 'r ledger \<Rightarrow> 'r ledger" where
  "ledger_step acq rel ev l =
     (case rel ev of
        Some r \<Rightarrow> if r \<in># owned l then l\<lparr>owned := owned l - {#r#}\<rparr>
                  else l\<lparr>misused := add_mset r (misused l)\<rparr>
      | None \<Rightarrow> (case acq ev of Some r \<Rightarrow> l\<lparr>owned := add_mset r (owned l)\<rparr> | None \<Rightarrow> l))"

definition ledger_of ::
  "('c kevent \<Rightarrow> 'r option) \<Rightarrow> ('c kevent \<Rightarrow> 'r option) \<Rightarrow> 'c ktrace \<Rightarrow> 'r ledger" where
  "ledger_of acq rel tr = fold (ledger_step acq rel) tr \<lparr>owned = {#}, misused = {#}\<rparr>"

lemma ledger_of_append:
  "ledger_of acq rel (xs @ ys) = fold (ledger_step acq rel) ys (ledger_of acq rel xs)"
  by (simp add: ledger_of_def)

lemma ledger_of_Nil [simp]: "ledger_of acq rel [] = \<lparr>owned = {#}, misused = {#}\<rparr>"
  by (simp add: ledger_of_def)

lemma ledger_cases:
  assumes "owned (l :: 'r ledger) = M"
  shows "l = \<lparr>owned = M, misused = misused l\<rparr>"
  using assms by (cases l) simp

lemma ledger_step_release [simp]:
  "rel ev = Some r \<Longrightarrow> r \<in># owned l \<Longrightarrow> ledger_step acq rel ev l = l\<lparr>owned := owned l - {#r#}\<rparr>"
  by (simp add: ledger_step_def)

lemma ledger_step_misuse [simp]:
  "rel ev = Some r \<Longrightarrow> r \<notin># owned l \<Longrightarrow>
     ledger_step acq rel ev l = l\<lparr>misused := add_mset r (misused l)\<rparr>"
  by (simp add: ledger_step_def)

lemma ledger_step_acquire [simp]:
  "rel ev = None \<Longrightarrow> acq ev = Some r \<Longrightarrow>
     ledger_step acq rel ev l = l\<lparr>owned := add_mset r (owned l)\<rparr>"
  by (simp add: ledger_step_def)

lemma ledger_step_other [simp]:
  "rel ev = None \<Longrightarrow> acq ev = None \<Longrightarrow> ledger_step acq rel ev l = l"
  by (simp add: ledger_step_def)

lemma ledger_step_owned:
  "owned (ledger_step acq rel ev l) =
     (case rel ev of Some r \<Rightarrow> owned l - {#r#}
      | None \<Rightarrow> (case acq ev of Some r \<Rightarrow> add_mset r (owned l) | None \<Rightarrow> owned l))"
  by (simp add: ledger_step_def diff_single_trivial split: option.split)

text \<open>What was once misused stays recorded, and only acquired resources are ever owned.\<close>

lemma ledger_step_misused: "misused l \<subseteq># misused (ledger_step acq rel ev l)"
  by (auto simp: ledger_step_def split: option.splits)

lemma ledger_misused_mono: "misused (ledger_of acq rel xs) \<subseteq># misused (ledger_of acq rel (xs @ ys))"
proof (induction ys rule: rev_induct)
  case (snoc y ys)
  then show ?case
    using ledger_step_misused [of "ledger_of acq rel (xs @ ys)" acq rel y]
    by (simp add: ledger_of_append [of _ _ "xs @ ys", simplified] subset_mset.order_trans)
qed simp

lemma ledger_never_owned:
  assumes "\<And>ev. acq ev \<noteq> Some r"
  shows "r \<notin># owned (ledger_of acq rel tr)"
proof (induction tr rule: rev_induct)
  case (snoc ev tr)
  then show ?case
    using assms [of ev] by (auto simp: ledger_of_append ledger_step_def split: option.splits dest: in_diffD)
qed simp

section \<open>The interface of a loadable module\<close>

text \<open>
  \<open>held w\<close> is what the module must hold between a successful load and the unload (it may
  depend on the pointers the load stored in the module's variables).
\<close>

locale kernel_module =
  fixes init :: "'c kenv \<Rightarrow> (('c, 'x) kworld_scheme, int) state"
    and exit :: "'c kenv \<Rightarrow> (('c, 'x) kworld_scheme, unit) state"
    and acq :: "'c kevent \<Rightarrow> 'r option"
    and rel :: "'c kevent \<Rightarrow> 'r option"
    and held :: "('c, 'x) kworld_scheme \<Rightarrow> 'r multiset"
    and good :: "'c kenv \<Rightarrow> bool"
  assumes init_acquires:
      "good E \<Longrightarrow> run_state (init E) w = (0, w') \<Longrightarrow>
         ledger_of acq rel (trace w') =
           (ledger_of acq rel (trace w))
             \<lparr>owned := owned (ledger_of acq rel (trace w)) + held w'\<rparr>"
    and exit_releases:
      "owned (ledger_of acq rel (trace w)) = M + held w \<Longrightarrow>
         ledger_of acq rel (trace (final_world (exit E) w)) =
           (ledger_of acq rel (trace w))\<lparr>owned := M\<rparr>"
begin

definition load_unload :: "'c kenv \<Rightarrow> ('c, 'x) kworld_scheme \<Rightarrow> ('c, 'x) kworld_scheme" where
  "load_unload E w =
     (case run_state (init E) w of (r, w') \<Rightarrow> if r = 0 then final_world (exit E) w' else w')"

fun cycles :: "'c kenv list \<Rightarrow> ('c, 'x) kworld_scheme \<Rightarrow> ('c, 'x) kworld_scheme" where
  "cycles [] w = w"
| "cycles (E # Es) w = cycles Es (load_unload E w)"

lemma load_unload_balanced:
  assumes "good E" and "run_state (init E) w = (0, w')"
  shows "ledger_of acq rel (trace (final_world (exit E) w')) = ledger_of acq rel (trace w)"
proof -
  let ?l = "ledger_of acq rel (trace w)"
  have i: "ledger_of acq rel (trace w') = ?l\<lparr>owned := owned ?l + held w'\<rparr>"
    using assms by (rule init_acquires)
  then have "owned (ledger_of acq rel (trace w')) = owned ?l + held w'"
    by simp
  then have "ledger_of acq rel (trace (final_world (exit E) w')) =
      (ledger_of acq rel (trace w'))\<lparr>owned := owned ?l\<rparr>"
    by (rule exit_releases)
  then show ?thesis using i by simp
qed

text \<open>Any number of loads and unloads leaves the ledger as it was, if every load succeeds.\<close>

lemma cycles_balanced:
  assumes "\<forall>E\<in>set Es. good E \<and> (\<forall>w. result (init E) w = 0)"
  shows "ledger_of acq rel (trace (cycles Es w)) = ledger_of acq rel (trace w)"
  using assms
proof (induction Es arbitrary: w)
  case Nil
  then show ?case by simp
next
  case (Cons E Es)
  obtain r w' where r: "run_state (init E) w = (r, w')" by fastforce
  with Cons.prems have "r = 0" by (auto simp: result_def dest: spec [of _ w])
  then have "load_unload E w = final_world (exit E) w'"
    by (simp add: load_unload_def r)
  moreover have "ledger_of acq rel (trace (final_world (exit E) w')) = ledger_of acq rel (trace w)"
    using Cons.prems r \<open>r = 0\<close> by (intro load_unload_balanced) auto
  ultimately show ?case using Cons by simp
qed

end

section \<open>Modules in use\<close>

text \<open>
  The handlers a module puts into its table of file operations, and the calls the kernel makes through the table. A
  \<open>served_module\<close> extends \<open>kernel_module\<close>: between load and unload its handlers run, in any order and as
  often as the kernel likes (\<open>in_use\<close>), and none of them touches what the load has registered. \<open>handlers\<close> is the
  set of the calls that can happen, with their arguments and the answers they get.
\<close>

record 'w file_ops =
  fop_open :: "('w, int) state"
  fop_release :: "('w, int) state"
  fop_read :: "nat \<Rightarrow> ('w, int) state"
  fop_write :: "nat \<Rightarrow> ('w, int) state"

datatype file_call = Call_open | Call_release | Call_read nat | Call_write nat

definition file_do :: "('w, 'z) file_ops_scheme \<Rightarrow> file_call \<Rightarrow> ('w, int) state" where
  "file_do fops c =
     (case c of
        Call_open \<Rightarrow> fop_open fops
      | Call_release \<Rightarrow> fop_release fops
      | Call_read n \<Rightarrow> fop_read fops n
      | Call_write n \<Rightarrow> fop_write fops n)"

definition in_use :: "('w, int) state list \<Rightarrow> 'w \<Rightarrow> 'w" where
  "in_use ms w = fold final_world ms w"

definition keeps :: "('c kevent \<Rightarrow> 'r option) \<Rightarrow> ('c kevent \<Rightarrow> 'r option) \<Rightarrow> (('c, 'x) kworld_scheme \<Rightarrow> 'r multiset) \<Rightarrow>
    (('c, 'x) kworld_scheme, int) state \<Rightarrow> bool" where
  "keeps acq rel held m \<longleftrightarrow>
     (\<forall>w. ledger_of acq rel (trace (final_world m w)) = ledger_of acq rel (trace w) \<and> held (final_world m w) = held w)"

lemma keeps_file_do:
  assumes "keeps acq rel held (fop_open fops)" and "keeps acq rel held (fop_release fops)"
    and "\<And>n. keeps acq rel held (fop_read fops n)" and "\<And>n. keeps acq rel held (fop_write fops n)"
  shows "m \<in> range (file_do fops) \<Longrightarrow> keeps acq rel held m"
  using assms by (auto simp: file_do_def split: file_call.splits)

lemma keeps_in_use:
  assumes "\<And>m. m \<in> set ms \<Longrightarrow> keeps acq rel held m"
  shows "ledger_of acq rel (trace (in_use ms w)) = ledger_of acq rel (trace w) \<and> held (in_use ms w) = held w"
  using assms by (induction ms arbitrary: w) (simp_all add: in_use_def keeps_def)

lemma run_result: "result m w = r \<Longrightarrow> run_state m w = (r, final_world m w)"
  by (simp add: result_def final_world_def prod_eq_iff)

text \<open>
  What holds for every kernel, also one whose failures the module overlooks: if a load holds at most \<open>held\<close> and the unload asks for
  all of it, nothing is left behind.
\<close>

lemma session_leaves_nothing:
  assumes "owned (ledger_of acq rel (trace w')) \<subseteq># owned (ledger_of acq rel (trace w)) + held w'"
    and "\<And>v. owned (ledger_of acq rel (trace (final_world exit v))) = owned (ledger_of acq rel (trace v)) - held v"
    and "\<And>m. m \<in> set ms \<Longrightarrow> keeps acq rel held m"
  shows "owned (ledger_of acq rel (trace (final_world exit (in_use ms w')))) \<subseteq># owned (ledger_of acq rel (trace w))"
  using assms(1) keeps_in_use [of ms acq rel held w'] assms(2) [of "in_use ms w'"] assms(3) by (simp add: subset_eq_diff_conv)

locale served_module = kernel_module init exit acq rel held good
  for init :: "'c kenv \<Rightarrow> (('c, 'x) kworld_scheme, int) state"
    and exit :: "'c kenv \<Rightarrow> (('c, 'x) kworld_scheme, unit) state"
    and acq :: "'c kevent \<Rightarrow> 'r option"
    and rel :: "'c kevent \<Rightarrow> 'r option"
    and held :: "('c, 'x) kworld_scheme \<Rightarrow> 'r multiset"
    and good :: "'c kenv \<Rightarrow> bool" +
  fixes handlers :: "(('c, 'x) kworld_scheme, int) state set"
  assumes handlers_keep: "m \<in> handlers \<Longrightarrow> keeps acq rel held m"
begin

lemma in_use_keeps:
  assumes "set ms \<subseteq> handlers"
  shows "ledger_of acq rel (trace (in_use ms w)) = ledger_of acq rel (trace w) \<and> held (in_use ms w) = held w"
  using assms handlers_keep by (intro keeps_in_use) blast

lemma session_balanced:
  assumes "good E" and "run_state (init E) w = (0, w')" and "set ms \<subseteq> handlers"
  shows "ledger_of acq rel (trace (final_world (exit E') (in_use ms w'))) = ledger_of acq rel (trace w)"
proof -
  note u = in_use_keeps [OF assms(3), of w']
  have i: "ledger_of acq rel (trace (in_use ms w')) =
      (ledger_of acq rel (trace w))\<lparr>owned := owned (ledger_of acq rel (trace w)) + held (in_use ms w')\<rparr>"
    using init_acquires [OF assms(1,2)] u by simp
  then have "owned (ledger_of acq rel (trace (in_use ms w'))) = owned (ledger_of acq rel (trace w)) + held (in_use ms w')"
    by simp
  then show ?thesis using exit_releases [of "in_use ms w'"] i by simp
qed

end

section \<open>The interface of a refinement\<close>

text \<open>
  A component that answers events and the specification of its answers, both as step functions; \<open>replay\<close> runs a list of
  events and collects the answers. \<open>enabled\<close> says which events the specification covers in a state. The locale carries the
  agreement of single steps over to whole runs.
\<close>

fun replay :: "('e \<Rightarrow> 's \<Rightarrow> 'o \<times> 's) \<Rightarrow> 'e list \<Rightarrow> 's \<Rightarrow> 'o list \<times> 's" where
  "replay step [] s = ([], s)"
| "replay step (e # es) s =
     (case step e s of (out, s') \<Rightarrow> (case replay step es s' of (outs, s'') \<Rightarrow> (out # outs, s'')))"

fun allowed :: "('e \<Rightarrow> 's \<Rightarrow> bool) \<Rightarrow> ('e \<Rightarrow> 's \<Rightarrow> 'o \<times> 's) \<Rightarrow> 'e list \<Rightarrow> 's \<Rightarrow> bool" where
  "allowed enabled step [] s \<longleftrightarrow> True"
| "allowed enabled step (e # es) s \<longleftrightarrow> enabled e s \<and> allowed enabled step es (snd (step e s))"

lemma replay_invariant:
  assumes "\<And>e s. P s \<Longrightarrow> enabled e s \<Longrightarrow> P (snd (step e s))" and "P s" and "allowed enabled step es s"
  shows "P (snd (replay step es s))"
  using assms(2,3) by (induction es arbitrary: s) (simp_all add: case_prod_beta assms(1))

locale simulation =
  fixes cstep :: "'e \<Rightarrow> 'c \<Rightarrow> 'o \<times> 'c"
    and astep :: "'e \<Rightarrow> 'a \<Rightarrow> 'o \<times> 'a"
    and enabled :: "'e \<Rightarrow> 'a \<Rightarrow> bool"
    and R :: "'c \<Rightarrow> 'a \<Rightarrow> bool"
  assumes same_answer: "R c a \<Longrightarrow> enabled e a \<Longrightarrow> fst (cstep e c) = fst (astep e a)"
    and stays_related: "R c a \<Longrightarrow> enabled e a \<Longrightarrow> R (snd (cstep e c)) (snd (astep e a))"
begin

lemma replay_refines:
  assumes "R c a" and "allowed enabled astep es a"
  shows "fst (replay cstep es c) = fst (replay astep es a) \<and> R (snd (replay cstep es c)) (snd (replay astep es a))"
  using assms
proof (induction es arbitrary: c a)
  case (Cons e es)
  then show ?case
    using same_answer [of c a e] stays_related [of c a e] by (simp add: case_prod_beta)
qed simp

end

end
