(* ===== verification/Block_Driver.thy ===== *)
theory Block_Driver
  imports Kernel_Prelude
begin

text \<open>
  The memory-backed block device \<^verbatim>\<open>BlockDriver/blk1.c\<close>: the device structure, the data
  transfer with its range check in 64-bit arithmetic, the request handler, the open and
  release handlers with the simulated media change, the geometry ioctl, and module load and
  unload. Kernel services (allocation, timers, the block layer) are answered by the
  environment; \<open>check_disk_change\<close>, which calls back into the driver, is a function
  parameter.
\<close>

unbundle bit_operations_syntax

section \<open>State\<close>

definition KERNEL_SECTOR_SIZE :: int where "KERNEL_SECTOR_SIZE = 512"
definition BLK1_MINORS :: int where "BLK1_MINORS = 16"

text \<open>
  \<^verbatim>\<open>struct blk1_dev\<close>. The buffer \<open>data\<close> is a pointer and the bytes behind it; of the timer
  the model keeps the expiry time and whether it is pending.
\<close>

record blk1_dev =
  dev_size :: int
  dev_data :: kptr
  dev_mem :: "byte list"
  dev_users :: int
  dev_media_change :: int
  dev_queue :: kptr
  dev_gd :: kptr
  timer_expires :: ulong
  timer_pending :: bool

datatype bcall =
    Register_blkdev int string | Unregister_blkdev int string
  | Kmalloc string | Kfree kptr | Vmalloc int | Vfree kptr
  | Spin_lock_init | Spin_lock | Spin_unlock
  | Timer_setup | Add_timer ulong | Del_timer_sync
  | Blk_mq_init_sq_queue int | Blk_queue_logical_block_size kptr int | Blk_cleanup_queue kptr
  | Alloc_disk int | Set_capacity kptr int | Add_disk kptr | Del_gendisk kptr | Put_disk kptr
  | Blk_mq_start_request | Blk_rq_cur_sectors | Blk_mq_end_request int
  | Copy_to_user | Printk string

record bworld = "bcall kworld" +
  blk1_major :: int
  hardsect_size :: int
  nsectors :: int
  Devices :: kptr
  dev :: blk1_dev

abbreviation upd_dev :: "(blk1_dev \<Rightarrow> blk1_dev) \<Rightarrow> (bworld, unit) state" where
  "upd_dev f \<equiv> modify (\<lambda>w. w\<lparr>dev := f (dev w)\<rparr>)"

section \<open>Data transfer\<close>

text \<open>
  \<open>blk1_transfer\<close>. Byte offsets and counts are \<^verbatim>\<open>unsigned long\<close> and wrap; the device size
  is an \<^verbatim>\<open>int\<close> that the comparison converts to \<^verbatim>\<open>unsigned long\<close>. The result is the device
  and the caller's buffer after the call, and \<open>None\<close> when \<^verbatim>\<open>memcpy\<close> would leave the device
  memory or the buffer.
\<close>

definition blk1_transfer ::
  "blk1_dev \<Rightarrow> ulong \<Rightarrow> ulong \<Rightarrow> byte list \<Rightarrow> bool \<Rightarrow> (blk1_dev \<times> byte list) option" where
  "blk1_transfer d sector nsect buffer write =
     (let offset = sector * word_of_int KERNEL_SECTOR_SIZE;
          nbytes = nsect * word_of_int KERNEL_SECTOR_SIZE
      in if offset + nbytes > word_of_int (dev_size d)
         then Some (d, buffer)
         else if write
         then (case peek buffer 0 (unat nbytes) of
                 None \<Rightarrow> None
               | Some bs \<Rightarrow> (case poke (dev_mem d) (unat offset) bs of
                   None \<Rightarrow> None
                 | Some m \<Rightarrow> Some (d\<lparr>dev_mem := m\<rparr>, buffer)))
         else (case peek (dev_mem d) (unat offset) (unat nbytes) of
                 None \<Rightarrow> None
               | Some bs \<Rightarrow> (case poke buffer 0 bs of
                   None \<Rightarrow> None
                 | Some b \<Rightarrow> Some (d, b))))"

section \<open>Requests\<close>

definition BLK_STS_OK :: int where "BLK_STS_OK = 0"
definition BLK_STS_IOERR :: int where "BLK_STS_IOERR = 10"

text \<open>What the handler reads of a \<^verbatim>\<open>struct request\<close>: its kind, start, direction, segments.\<close>

record brequest =
  rq_passthrough :: bool
  rq_pos :: ulong
  rq_write :: bool
  rq_segs :: "byte list list"

fun blk1_segments ::
  "bcall kenv \<Rightarrow> bool \<Rightarrow> ulong \<Rightarrow> byte list list \<Rightarrow> (bworld, byte list list option) state" where
  "blk1_segments E write pos_sector [] = ret (Some [])"
| "blk1_segments E write pos_sector (b # bs) = do {
     n \<leftarrow> kint E Blk_rq_cur_sectors;
     kvoid (Printk ''Req dev'');
     d \<leftarrow> gets dev;
     (case blk1_transfer d pos_sector (word_of_int n) b write of
        None \<Rightarrow> do { koops ''memcpy''; ret None }
      | Some (d', b') \<Rightarrow> do {
          upd_dev (\<lambda>_. d');
          r \<leftarrow> blk1_segments E write (pos_sector + word_of_int n) bs;
          ret (map_option ((#) b') r) }) }"

text \<open>\<open>blk1_request\<close>: the status and the segments' buffers after the request.\<close>

definition blk1_request ::
  "bcall kenv \<Rightarrow> brequest \<Rightarrow> (bworld, int \<times> byte list list) state" where
  "blk1_request E req = do {
     kvoid Blk_mq_start_request;
     if rq_passthrough req then do {
       kvoid (Printk ''Skip non-fs request'');
       kvoid (Blk_mq_end_request BLK_STS_IOERR);
       ret (BLK_STS_IOERR, rq_segs req) }
     else do {
       r \<leftarrow> blk1_segments E (rq_write req) (rq_pos req) (rq_segs req);
       (case r of
          None \<Rightarrow> ret (BLK_STS_IOERR, rq_segs req)
        | Some bs \<Rightarrow> do {
            kvoid (Blk_mq_end_request BLK_STS_OK);
            ret (BLK_STS_OK, bs) }) } }"

section \<open>Open, release and the simulated media change\<close>

definition blk1_media_changed :: "blk1_dev \<Rightarrow> int" where
  "blk1_media_changed d = dev_media_change d"

definition blk1_revalidate :: "blk1_dev \<Rightarrow> blk1_dev" where
  "blk1_revalidate d =
     (if dev_media_change d \<noteq> 0
      then d\<lparr>dev_media_change := 0,
             dev_mem := replicate (nat (dev_size d)) 0 @ drop (nat (dev_size d)) (dev_mem d)\<rparr>
      else d)"

type_synonym disk_check = "(blk1_dev \<Rightarrow> int) \<Rightarrow> (blk1_dev \<Rightarrow> blk1_dev) \<Rightarrow> blk1_dev \<Rightarrow> blk1_dev"

definition blk1_open :: "disk_check \<Rightarrow> (bworld, int) state" where
  "blk1_open check_disk_change = do {
     kvoid Del_timer_sync;
     upd_dev (\<lambda>d. d\<lparr>timer_pending := False\<rparr>);
     kvoid Spin_lock;
     d \<leftarrow> gets dev;
     (if dev_users d = 0
      then upd_dev (check_disk_change blk1_media_changed blk1_revalidate)
      else ret ());
     upd_dev (\<lambda>d. d\<lparr>dev_users := s16 (dev_users d + 1)\<rparr>);
     kvoid Spin_unlock;
     ret 0 }"

definition INVALIDATE_DELAY :: "ulong \<Rightarrow> ulong" where
  "INVALIDATE_DELAY HZ = 30 * HZ"

definition blk1_release :: "ulong \<Rightarrow> ulong \<Rightarrow> (bworld, unit) state" where
  "blk1_release jiffies HZ = do {
     kvoid Spin_lock;
     upd_dev (\<lambda>d. d\<lparr>dev_users := s16 (dev_users d - 1)\<rparr>);
     d \<leftarrow> gets dev;
     (if dev_users d = 0
      then do {
        upd_dev (\<lambda>d. d\<lparr>timer_expires := jiffies + INVALIDATE_DELAY HZ\<rparr>);
        kvoid (Add_timer (jiffies + INVALIDATE_DELAY HZ));
        upd_dev (\<lambda>d. d\<lparr>timer_pending := True\<rparr>) }
      else ret ());
     kvoid Spin_unlock }"

text \<open>The timer callback; the kernel takes the timer off its list before it calls it.\<close>

definition blk1_invalidate :: "(bworld, unit) state" where
  "blk1_invalidate = do {
     upd_dev (\<lambda>d. d\<lparr>timer_pending := False\<rparr>);
     kvoid Spin_lock;
     d \<leftarrow> gets dev;
     (if dev_users d \<noteq> 0 \<or> dev_data d = Null
      then kvoid (Printk ''blk1: timer sanity check failed'')
      else upd_dev (\<lambda>d. d\<lparr>dev_media_change := 1\<rparr>));
     kvoid Spin_unlock }"

section \<open>Geometry\<close>

datatype bioctl = HDIO_GETGEO | Other_cmd int

record hd_geometry =
  geo_heads :: byte
  geo_sectors :: byte
  geo_cylinders :: "16 word"
  geo_start :: ulong

text \<open>\<open>blk1_ioctl\<close>: the return value and, when the copy succeeds, the geometry the user sees.\<close>

definition blk1_ioctl :: "bcall kenv \<Rightarrow> bioctl \<Rightarrow> (bworld, int \<times> hd_geometry option) state" where
  "blk1_ioctl E cmd = do {
     w \<leftarrow> State_Monad.get;
     (case cmd of
        HDIO_GETGEO \<Rightarrow> do {
          let sz = s32 (dev_size (dev w) * (hardsect_size w sdiv KERNEL_SECTOR_SIZE));
          let geo = \<lparr>geo_heads = 4, geo_sectors = 16,
                     geo_cylinders = word_of_int (drop_bit 6 (sz AND NOT 63)), geo_start = 4\<rparr>;
          r \<leftarrow> kint E Copy_to_user;
          (if r \<noteq> 0 then ret (- EFAULT, None) else ret (0, Some geo)) }
      | Other_cmd _ \<Rightarrow> ret (- ENOTTY, None)) }"

section \<open>Setting up the device, module load and unload\<close>

definition blank_dev :: blk1_dev where
  "blank_dev = \<lparr>dev_size = 0, dev_data = Null, dev_mem = [], dev_users = 0, dev_media_change = 0,
     dev_queue = Null, dev_gd = Null, timer_expires = 0, timer_pending = False\<rparr>"

text \<open>\<open>fresh\<close> is what the memory returned by \<^verbatim>\<open>vmalloc\<close> contains.\<close>

definition out_vfree :: "(bworld, unit) state" where
  "out_vfree = do {
     d \<leftarrow> gets dev;
     (if dev_data d \<noteq> Null then kvoid (Vfree (dev_data d)) else ret ()) }"

definition setup_device :: "bcall kenv \<Rightarrow> byte list \<Rightarrow> (bworld, unit) state" where
  "setup_device E fresh = do {
     w \<leftarrow> State_Monad.get;
     upd_dev (\<lambda>_. blank_dev\<lparr>dev_size := s32 (nsectors w * hardsect_size w)\<rparr>);
     p \<leftarrow> kptr_call E (Vmalloc (s32 (nsectors w * hardsect_size w)));
     upd_dev (\<lambda>d. d\<lparr>dev_data := p, dev_mem := (if p = Null then [] else fresh)\<rparr>);
     (if p = Null then kvoid (Printk ''vmalloc failure.'')
      else do {
        kvoid Spin_lock_init;
        kvoid Timer_setup;
        q \<leftarrow> kptr_call E (Blk_mq_init_sq_queue 128);
        upd_dev (\<lambda>d. d\<lparr>dev_queue := q\<rparr>);
        (if q = Null then out_vfree
         else do {
           kvoid (Blk_queue_logical_block_size q (hardsect_size w));
           (if IS_ERR q then koops ''dev->queue->queuedata''
            else do {
              g \<leftarrow> kptr_call E (Alloc_disk BLK1_MINORS);
              upd_dev (\<lambda>d. d\<lparr>dev_gd := g\<rparr>);
              (if g = Null then do { kvoid (Printk ''alloc_disk failure''); out_vfree }
               else if IS_ERR g then koops ''dev->gd->major''
               else do {
                 kvoid (Set_capacity g
                   (s32 (nsectors w * (hardsect_size w sdiv KERNEL_SECTOR_SIZE))));
                 kvoid (Add_disk g) }) }) }) }) }"

definition blk1_init :: "byte list \<Rightarrow> bcall kenv \<Rightarrow> (bworld, int) state" where
  "blk1_init fresh E = do {
     m \<leftarrow> gets blk1_major;
     r \<leftarrow> kint E (Register_blkdev m ''blk1'');
     modify (\<lambda>w. w\<lparr>blk1_major := r\<rparr>);
     (if r \<le> 0 then do { kvoid (Printk ''blk1: unable to get major number''); ret (- EBUSY) }
      else do {
        p \<leftarrow> kptr_call E (Kmalloc ''struct blk1_dev'');
        modify (\<lambda>w. w\<lparr>Devices := p\<rparr>);
        (if p = Null then do { kvoid (Unregister_blkdev r ''blk1''); ret (- ENOMEM) }
         else do { setup_device E fresh; ret 0 }) }) }"

definition blk1_exit :: "bcall kenv \<Rightarrow> (bworld, unit) state" where
  "blk1_exit E = do {
     w \<leftarrow> State_Monad.get;
     kvoid Del_timer_sync;
     upd_dev (\<lambda>d. d\<lparr>timer_pending := False\<rparr>);
     (if dev_gd (dev w) \<noteq> Null
      then do { kvoid (Del_gendisk (dev_gd (dev w))); kvoid (Put_disk (dev_gd (dev w))) }
      else ret ());
     (if dev_queue (dev w) \<noteq> Null then kvoid (Blk_cleanup_queue (dev_queue (dev w))) else ret ());
     (if dev_data (dev w) \<noteq> Null then kvoid (Vfree (dev_data (dev w))) else ret ());
     kvoid (Unregister_blkdev (blk1_major w) ''blk1'');
     kvoid (Kfree (Devices w)) }"

section \<open>Lemmas on the transfer\<close>

definition blk_wf :: "blk1_dev \<Rightarrow> bool" where
  "blk_wf d \<longleftrightarrow> 0 \<le> dev_size d \<and> dev_size d < 2 ^ 31 \<and> length (dev_mem d) = nat (dev_size d)"

definition blk_cap :: "blk1_dev \<Rightarrow> nat" where
  "blk_cap d = nat (dev_size d) div 512"

lemma unat_sectors:
  assumes "(s::nat) * 512 < 2 ^ 64"
  shows "unat (of_nat s * (512::ulong)) = s * 512"
proof -
  have "of_nat s * (512::ulong) = of_nat (s * 512)" by simp
  then show ?thesis using assms by (simp only: unat_of_nat) (simp add: take_bit_nat_eq_self)
qed

lemma unat_size:
  assumes "0 \<le> z" and "z < 2 ^ 31"
  shows "unat (word_of_int z :: ulong) = nat z"
  using assms by (simp add: unat_eq_nat_uint uint_word_of_int take_bit_int_eq_self)

lemma range_check:
  assumes "0 \<le> z" and "z < 2 ^ 31" and "(s + n) * 512 < (2::nat) ^ 64"
  shows "of_nat s * 512 + of_nat n * 512 > (word_of_int z :: ulong) \<longleftrightarrow> nat z < (s + n) * 512"
proof -
  have "of_nat s * 512 + of_nat n * (512::ulong) = of_nat (s + n) * 512"
    by (simp add: algebra_simps)
  then show ?thesis
    using unat_sectors [OF assms(3)] unat_size [OF assms(1,2)] by (simp add: word_less_nat_alt)
qed

lemma transfer_below_end:
  assumes wf: "blk_wf d" and r: "s + n \<le> blk_cap d" and b: "n * 512 \<le> length b"
  shows "blk1_transfer d (of_nat s) (of_nat n) b True =
      Some (d\<lparr>dev_mem := take (s * 512) (dev_mem d) @ take (n * 512) b
                        @ drop ((s + n) * 512) (dev_mem d)\<rparr>, b)"
    and "blk1_transfer d (of_nat s) (of_nat n) b False =
      Some (d, take (n * 512) (drop (s * 512) (dev_mem d)) @ drop (n * 512) b)"
proof -
  have le: "(s + n) * 512 \<le> nat (dev_size d)"
    using r unfolding blk_cap_def by (simp add: less_eq_div_iff_mult_less_eq)
  have lt: "nat (dev_size d) < 2 ^ 31" using wf by (simp add: blk_wf_def nat_less_iff)
  have small: "(s + n) * 512 < 2 ^ 64" "s * 512 < 2 ^ 64" "n * 512 < 2 ^ 64"
    using le lt by auto
  note u = unat_sectors [OF small(2)] unat_sectors [OF small(3)]
  have chk: "\<not> of_nat s * 512 + of_nat n * 512 > (word_of_int (dev_size d) :: ulong)"
    using wf le small(1) by (subst range_check) (auto simp: blk_wf_def)
  have mem: "s * 512 + n * 512 \<le> length (dev_mem d)"
    using le wf by (simp add: blk_wf_def algebra_simps)
  show "blk1_transfer d (of_nat s) (of_nat n) b True =
      Some (d\<lparr>dev_mem := take (s * 512) (dev_mem d) @ take (n * 512) b
                        @ drop ((s + n) * 512) (dev_mem d)\<rparr>, b)"
    using chk mem b by (simp add: blk1_transfer_def KERNEL_SECTOR_SIZE_def u peek_def poke_def
        algebra_simps)
  show "blk1_transfer d (of_nat s) (of_nat n) b False =
      Some (d, take (n * 512) (drop (s * 512) (dev_mem d)) @ drop (n * 512) b)"
    using chk mem b by (simp add: blk1_transfer_def KERNEL_SECTOR_SIZE_def u peek_def poke_def)
qed

lemma transfer_beyond_end:
  assumes "blk_wf d" and "(s + n) * 512 < (2::nat) ^ 64" and "nat (dev_size d) < (s + n) * 512"
  shows "blk1_transfer d (of_nat s) (of_nat n) b wr = Some (d, b)"
  using range_check [of "dev_size d" s n] assms
  by (simp add: blk1_transfer_def KERNEL_SECTOR_SIZE_def blk_wf_def)

section \<open>A store of sectors\<close>

text \<open>
  The contract between the transfer routine and the request handler: sectors written are
  read back, other sectors keep their contents. The request handler writes consecutive
  segments; what it needs about a sequence of writes is proved from the contract.
\<close>

locale sector_store =
  fixes wf :: "'d \<Rightarrow> bool"
    and cap :: "'d \<Rightarrow> nat"
    and put :: "'d \<Rightarrow> nat \<Rightarrow> nat \<Rightarrow> byte list \<Rightarrow> 'd"
    and fetch :: "'d \<Rightarrow> nat \<Rightarrow> nat \<Rightarrow> byte list"
  assumes put_wf: "wf d \<Longrightarrow> s + n \<le> cap d \<Longrightarrow> length bs = n * 512 \<Longrightarrow> wf (put d s n bs)"
    and put_cap: "wf d \<Longrightarrow> s + n \<le> cap d \<Longrightarrow> length bs = n * 512 \<Longrightarrow> cap (put d s n bs) = cap d"
    and fetch_put_same:
      "wf d \<Longrightarrow> s + n \<le> cap d \<Longrightarrow> length bs = n * 512 \<Longrightarrow> fetch (put d s n bs) s n = bs"
    and fetch_put_other:
      "wf d \<Longrightarrow> s + n \<le> cap d \<Longrightarrow> length bs = n * 512 \<Longrightarrow> s2 + n2 \<le> cap d \<Longrightarrow>
         s2 + n2 \<le> s \<or> s + n \<le> s2 \<Longrightarrow> fetch (put d s n bs) s2 n2 = fetch d s2 n2"
begin

fun put_all :: "'d \<Rightarrow> nat \<Rightarrow> nat \<Rightarrow> byte list list \<Rightarrow> 'd" where
  "put_all d s n [] = d"
| "put_all d s n (b # bs) = put_all (put d s n b) (s + n) n bs"

fun fetch_all :: "'d \<Rightarrow> nat \<Rightarrow> nat \<Rightarrow> nat \<Rightarrow> byte list list" where
  "fetch_all d s n 0 = []"
| "fetch_all d s n (Suc k) = fetch d s n # fetch_all d (s + n) n k"

lemma put_all_inv:
  assumes "wf d" and "s + n * length bss \<le> cap d" and "\<forall>b\<in>set bss. length b = n * 512"
  shows "wf (put_all d s n bss) \<and> cap (put_all d s n bss) = cap d"
  using assms by (induction bss arbitrary: d s) (auto simp: put_wf put_cap)

lemma fetch_put_all_other:
  assumes "wf d" and "s + n * length bss \<le> cap d" and "\<forall>b\<in>set bss. length b = n * 512"
    and "s2 + n2 \<le> cap d" and "s2 + n2 \<le> s \<or> s + n * length bss \<le> s2"
  shows "fetch (put_all d s n bss) s2 n2 = fetch d s2 n2"
  using assms by (induction bss arbitrary: d s) (auto simp: put_wf put_cap fetch_put_other)

lemma fetch_all_put_all:
  assumes "wf d" and "s + n * length bss \<le> cap d" and "\<forall>b\<in>set bss. length b = n * 512"
  shows "fetch_all (put_all d s n bss) s n (length bss) = bss"
  using assms
proof (induction bss arbitrary: d s)
  case Nil
  then show ?case by simp
next
  case (Cons b bs)
  let ?d = "put d s n b"
  have w: "wf ?d" "cap ?d = cap d" and r: "s + n + n * length bs \<le> cap d"
    using Cons.prems by (auto simp: put_wf put_cap algebra_simps)
  have "fetch (put_all ?d (s + n) n bs) s n = fetch ?d s n"
    using w r Cons.prems by (intro fetch_put_all_other) auto
  also have "\<dots> = b" using Cons.prems by (simp add: fetch_put_same)
  finally show ?case using Cons.IH [of ?d "s + n"] w r Cons.prems by simp
qed

end

definition blk_put :: "blk1_dev \<Rightarrow> nat \<Rightarrow> nat \<Rightarrow> byte list \<Rightarrow> blk1_dev" where
  "blk_put d s n bs = fst (the (blk1_transfer d (of_nat s) (of_nat n) bs True))"

definition blk_fetch :: "blk1_dev \<Rightarrow> nat \<Rightarrow> nat \<Rightarrow> byte list" where
  "blk_fetch d s n = snd (the (blk1_transfer d (of_nat s) (of_nat n) (replicate (n * 512) 0) False))"

lemma blk_put_eq:
  assumes "blk_wf d" and "s + n \<le> blk_cap d" and "length bs = n * 512"
  shows "blk_put d s n bs =
     d\<lparr>dev_mem := take (s * 512) (dev_mem d) @ bs @ drop ((s + n) * 512) (dev_mem d)\<rparr>"
    and "poke (dev_mem d) (s * 512) bs =
     Some (take (s * 512) (dev_mem d) @ bs @ drop ((s + n) * 512) (dev_mem d))"
proof -
  have "(s + n) * 512 \<le> length (dev_mem d)"
    using assms(1,2) unfolding blk_cap_def blk_wf_def by (simp add: less_eq_div_iff_mult_less_eq)
  then show "poke (dev_mem d) (s * 512) bs =
     Some (take (s * 512) (dev_mem d) @ bs @ drop ((s + n) * 512) (dev_mem d))"
    using assms(3) by (simp add: poke_def algebra_simps)
qed (use assms in \<open>simp add: blk_put_def transfer_below_end\<close>)

lemma blk_fetch_eq:
  assumes "blk_wf d" and "s + n \<le> blk_cap d"
  shows "blk_fetch d s n = take (n * 512) (drop (s * 512) (dev_mem d))"
    and "peek (dev_mem d) (s * 512) (n * 512) = Some (blk_fetch d s n)"
proof -
  have "(s + n) * 512 \<le> length (dev_mem d)"
    using assms(1,2) unfolding blk_cap_def blk_wf_def by (simp add: less_eq_div_iff_mult_less_eq)
  then show "peek (dev_mem d) (s * 512) (n * 512) = Some (blk_fetch d s n)"
    using assms by (simp add: peek_def algebra_simps blk_fetch_def transfer_below_end)
qed (use assms in \<open>simp add: blk_fetch_def transfer_below_end\<close>)

lemma blk_put_wf:
  assumes "blk_wf d" and "s + n \<le> blk_cap d" and "length bs = n * 512"
  shows "blk_wf (blk_put d s n bs)" and "blk_cap (blk_put d s n bs) = blk_cap d"
  using assms(1) poke_length [OF blk_put_eq(2) [OF assms]]
  by (simp_all add: blk_put_eq(1) [OF assms] blk_wf_def blk_cap_def)

lemma blk_fetch_put:
  assumes "blk_wf d" and "s + n \<le> blk_cap d" and "length bs = n * 512" and "s2 + n2 \<le> blk_cap d"
  shows "Some (blk_fetch (blk_put d s n bs) s2 n2) =
     peek (the (poke (dev_mem d) (s * 512) bs)) (s2 * 512) (n2 * 512)"
  using blk_fetch_eq(2) [of "blk_put d s n bs" s2 n2] blk_put_wf [OF assms(1,2,3)] assms
  by (simp add: blk_put_eq)

interpretation blk: sector_store blk_wf blk_cap blk_put blk_fetch
proof (unfold_locales, goal_cases)
  case (1 d s n bs)
  then show ?case by (rule blk_put_wf)
next
  case (2 d s n bs)
  then show ?case by (rule blk_put_wf)
next
  case (3 d s n bs)
  then have "Some (blk_fetch (blk_put d s n bs) s n) = Some bs"
    using blk_put_eq(2) [OF 3] peek_poke_same [OF blk_put_eq(2) [OF 3]]
    by (simp add: blk_fetch_put)
  then show ?case by simp
next
  case (4 d s n bs s2 n2)
  have "peek (the (poke (dev_mem d) (s * 512) bs)) (s2 * 512) (n2 * 512) =
      peek (dev_mem d) (s2 * 512) (n2 * 512)"
    using peek_poke_disjoint [OF blk_put_eq(2) [OF 4(1,2,3)], of "s2 * 512" "n2 * 512"] 4
    by (auto simp: blk_put_eq(2))
  then show ?case
    using blk_fetch_put [OF 4(1,2,3,4)] blk_fetch_eq(2) [OF 4(1,4)] by simp
qed

section \<open>Requests over the store\<close>

definition blk_rq :: "nat \<Rightarrow> bool \<Rightarrow> byte list list \<Rightarrow> brequest" where
  "blk_rq s wr segs = \<lparr>rq_passthrough = False, rq_pos = of_nat s, rq_write = wr, rq_segs = segs\<rparr>"

definition seg_sectors :: "bcall kenv \<Rightarrow> nat \<Rightarrow> bool" where
  "seg_sectors E n \<longleftrightarrow> (\<forall>tr. ret_int E tr Blk_rq_cur_sectors = int n)"

lemma segments_write:
  assumes "seg_sectors E n" and "blk_wf (dev w)" and "s + n * length bss \<le> blk_cap (dev w)"
    and "\<forall>b\<in>set bss. length b = n * 512"
  shows "fst (run_state (blk1_segments E True (of_nat s) bss) w) = Some bss \<and>
    dev (snd (run_state (blk1_segments E True (of_nat s) bss) w)) = blk.put_all (dev w) s n bss"
  using assms
proof (induction bss arbitrary: w s)
  case Nil
  then show ?case by simp
next
  case (Cons b bs)
  have ans: "ret_int E tr Blk_rq_cur_sectors = int n" for tr
    using Cons.prems by (simp add: seg_sectors_def)
  have r: "s + n \<le> blk_cap (dev w)" and len: "length b = n * 512"
    using Cons.prems by auto
  have t: "blk1_transfer (dev w) (of_nat s) (of_nat n) b True = Some (blk_put (dev w) s n b, b)"
    using transfer_below_end(1) [of "dev w" s n b] blk_put_eq(1) [of "dev w" s n b] r len Cons.prems
    by simp
  have sn: "of_nat s + of_nat n = (of_nat (s + n) :: ulong)" by simp
  let ?w = "w\<lparr>trace := trace w @ [RetI Blk_rq_cur_sectors (int n), Void (Printk ''Req dev'')],
              dev := blk_put (dev w) s n b\<rparr>"
  have "blk_wf (dev ?w)" "s + n + n * length bs \<le> blk_cap (dev ?w)"
    using Cons.prems r len by (auto simp: blk_put_wf algebra_simps)
  then have IH: "fst (run_state (blk1_segments E True (of_nat (s + n)) bs) ?w) = Some bs \<and>
      dev (snd (run_state (blk1_segments E True (of_nat (s + n)) bs) ?w))
        = blk.put_all (dev ?w) (s + n) n bs"
    using Cons.prems by (intro Cons.IH) auto
  then show ?case
    by (simp add: krun ans t sn case_prod_beta del: of_nat_add)
qed

lemma segments_read:
  assumes "seg_sectors E n" and "blk_wf (dev w)" and "s + n * length bss \<le> blk_cap (dev w)"
    and "\<forall>b\<in>set bss. length b = n * 512"
  shows "fst (run_state (blk1_segments E False (of_nat s) bss) w) =
      Some (blk.fetch_all (dev w) s n (length bss)) \<and>
    dev (snd (run_state (blk1_segments E False (of_nat s) bss) w)) = dev w"
  using assms
proof (induction bss arbitrary: w s)
  case Nil
  then show ?case by simp
next
  case (Cons b bs)
  have ans: "ret_int E tr Blk_rq_cur_sectors = int n" for tr
    using Cons.prems by (simp add: seg_sectors_def)
  have t: "blk1_transfer (dev w) (of_nat s) (of_nat n) b False = Some (dev w, blk_fetch (dev w) s n)"
    using transfer_below_end(2) [of "dev w" s n b] blk_fetch_eq(1) [of "dev w" s n] Cons.prems
    by simp
  have sn: "of_nat s + of_nat n = (of_nat (s + n) :: ulong)" by simp
  let ?w = "w\<lparr>trace := trace w @ [RetI Blk_rq_cur_sectors (int n), Void (Printk ''Req dev'')]\<rparr>"
  have "fst (run_state (blk1_segments E False (of_nat (s + n)) bs) ?w) =
        Some (blk.fetch_all (dev ?w) (s + n) n (length bs)) \<and>
      dev (snd (run_state (blk1_segments E False (of_nat (s + n)) bs) ?w)) = dev ?w"
    using Cons.prems by (intro Cons.IH) (auto simp: algebra_simps)
  then show ?case
    by (simp add: krun ans t sn case_prod_beta del: of_nat_add)
qed

lemma request_write:
  assumes "seg_sectors E n" and "blk_wf (dev w)" and "s + n * length bss \<le> blk_cap (dev w)"
    and "\<forall>b\<in>set bss. length b = n * 512"
  shows "result (blk1_request E (blk_rq s True bss)) w = (BLK_STS_OK, bss)"
    and "dev (final_world (blk1_request E (blk_rq s True bss)) w) = blk.put_all (dev w) s n bss"
  using segments_write [of E n "w\<lparr>trace := trace w @ [Void Blk_mq_start_request]\<rparr>" s bss] assms(1-4)
  by (simp_all add: blk1_request_def blk_rq_def result_def final_world_def krun case_prod_beta)

lemma request_read:
  assumes "seg_sectors E n" and "blk_wf (dev w)" and "s + n * length bss \<le> blk_cap (dev w)"
    and "\<forall>b\<in>set bss. length b = n * 512"
  shows "result (blk1_request E (blk_rq s False bss)) w = (BLK_STS_OK, blk.fetch_all (dev w) s n (length bss))"
    and "dev (final_world (blk1_request E (blk_rq s False bss)) w) = dev w"
  using segments_read [of E n "w\<lparr>trace := trace w @ [Void Blk_mq_start_request]\<rparr>" s bss] assms(1-4)
  by (simp_all add: blk1_request_def blk_rq_def result_def final_world_def krun case_prod_beta)

section \<open>Properties of the data path\<close>

text \<open>
  C4. A write request whose segments are equally long, inside the device, followed by a read
  request for the same sectors, returns the written segments, and both requests end with
  \<^verbatim>\<open>BLK_STS_OK\<close>.
\<close>

theorem blk1_request_roundtrip:
  assumes "seg_sectors E n" and "blk_wf (dev w)" and "s + n * length bss \<le> blk_cap (dev w)"
    and "\<forall>b\<in>set bss. length b = n * 512"
    and "length rbs = length bss" and "\<forall>b\<in>set rbs. length b = n * 512"
  shows "result (blk1_request E (blk_rq s False rbs))
         (final_world (blk1_request E (blk_rq s True bss)) w)
       = (BLK_STS_OK, bss)"
proof -
  let ?d = "blk.put_all (dev w) s n bss"
  have "blk_wf ?d \<and> blk_cap ?d = blk_cap (dev w)" using assms by (intro blk.put_all_inv) auto
  then show ?thesis
    using request_read(1) [of E n _ s rbs] request_write(2) [of E n w s bss]
      blk.fetch_all_put_all [of "dev w" s n bss] assms by simp
qed

definition test_env :: "bcall kenv" where
  "test_env = \<lparr>ret_int = (\<lambda>tr c. case c of Blk_rq_cur_sectors \<Rightarrow> 1 | Register_blkdev _ _ \<Rightarrow> 252 | _ \<Rightarrow> 0),
               ret_ptr = (\<lambda>tr c. Ptr (length tr + 1))\<rparr>"

definition test_world :: bworld where
  "test_world = \<lparr>trace = [], blk1_major = 0, hardsect_size = 512, nsectors = 4, Devices = Null,
     dev = blank_dev\<lparr>dev_size := 2048, dev_data := Ptr 7, dev_mem := replicate 2048 0\<rparr>\<rparr>"

lemma test_env_ok: "seg_sectors test_env 1"
  by (simp add: seg_sectors_def test_env_def)

lemma test_world_ok: "blk_wf (dev test_world)" "blk_cap (dev test_world) = 4"
  by (simp_all add: blk_wf_def blk_cap_def test_world_def blank_dev_def)

theorem blk1_request_roundtrip_witness:
  "result (blk1_request test_env (blk_rq 1 False [replicate 512 0, replicate 512 0]))
    (final_world (blk1_request test_env (blk_rq 1 True [replicate 512 17, replicate 512 42])) test_world)
   = (BLK_STS_OK, [replicate 512 17, replicate 512 42])"
  by (rule blk1_request_roundtrip [of test_env 1 test_world 1])
    (simp_all add: test_env_ok test_world_ok del: One_nat_def)

text \<open>
  A transfer whose byte range does not wrap at 64 bits, with a buffer that is long enough,
  never leaves the device memory or the buffer; the device stays well formed and the buffer
  keeps its length, whether the range is inside the device or beyond its end.
\<close>

theorem blk1_transfer_safe:
  assumes "blk_wf d" and "(s + n) * 512 < (2::nat) ^ 64" and "n * 512 \<le> length b"
  shows "\<exists>d' b'. blk1_transfer d (of_nat s) (of_nat n) b wr = Some (d', b')
    \<and> blk_wf d' \<and> dev_size d' = dev_size d \<and> length b' = length b"
proof (cases "s + n \<le> blk_cap d")
  case True
  have "(s + n) * 512 \<le> length (dev_mem d)"
    using True assms(1) unfolding blk_cap_def blk_wf_def by (simp add: less_eq_div_iff_mult_less_eq)
  then show ?thesis
    using transfer_below_end [OF assms(1) True assms(3)] assms by (cases wr) (auto simp: blk_wf_def)
next
  case False
  then have "nat (dev_size d) < (s + n) * 512"
    unfolding blk_cap_def by (simp add: div_less_iff_less_mult)
  then show ?thesis using transfer_beyond_end [OF assms(1,2)] assms(1) by auto
qed

theorem blk1_transfer_safe_witness:
  "\<exists>d' b'. blk1_transfer (dev test_world) (of_nat 9) (of_nat 2) (replicate 1024 5) True = Some (d', b')
    \<and> blk_wf d' \<and> dev_size d' = dev_size (dev test_world) \<and> length b' = length (replicate 1024 (5::byte))"
  by (rule blk1_transfer_safe) (simp_all add: test_world_ok)

text \<open>
  The range check itself wraps: a one-sector transfer at the last sector number whose
  byte offset still fits 64 bits passes the check on every device and makes \<^verbatim>\<open>memcpy\<close>
  address memory outside the device.
\<close>

theorem blk1_transfer_wraps:
  assumes "blk_wf d" and "512 \<le> length b"
  shows "blk1_transfer d (2 ^ 55 - 1) 1 b wr = None"
proof -
  have z: "(18446744073709551616 :: ulong) = 0" by (simp add: word_uint_eq_iff)
  have "length (dev_mem d) < 2 ^ 31" using assms(1) by (simp add: blk_wf_def nat_less_iff)
  then show ?thesis
    using assms(2) by (simp add: z blk1_transfer_def KERNEL_SECTOR_SIZE_def peek_def poke_def)
qed

theorem blk1_transfer_wraps_witness:
  "blk1_transfer (dev test_world) (2 ^ 55 - 1) 1 (replicate 512 0) True = None"
  by (rule blk1_transfer_wraps) (simp_all add: test_world_ok)

text \<open>
  A write request that starts beyond the end of the device stores nothing, yet the request is
  ended with \<^verbatim>\<open>BLK_STS_OK\<close>: the failed transfer is not reported.
\<close>

theorem blk1_request_beyond_end_ok:
  assumes "seg_sectors E n" and "blk_wf (dev w)"
    and "blk_cap (dev w) < s + n" and "(s + n) * 512 < 2 ^ 64"
  shows "fst (result (blk1_request E (blk_rq s True [b])) w) = BLK_STS_OK \<and>
    dev (final_world (blk1_request E (blk_rq s True [b])) w) = dev w"
proof -
  have "nat (dev_size (dev w)) < (s + n) * 512"
    using assms(3) unfolding blk_cap_def by (simp add: div_less_iff_less_mult)
  then have t: "blk1_transfer (dev w) (of_nat s) (of_nat n) b True = Some (dev w, b)"
    using transfer_beyond_end [OF assms(2,4)] by blast
  have ans: "ret_int E tr Blk_rq_cur_sectors = int n" for tr
    using assms(1) by (simp add: seg_sectors_def)
  show ?thesis
    by (simp add: blk1_request_def blk_rq_def result_def final_world_def krun ans t case_prod_beta)
qed

theorem blk1_request_beyond_end_ok_witness:
  "fst (result (blk1_request test_env (blk_rq 4 True [replicate 512 9])) test_world) = BLK_STS_OK \<and>
   dev (final_world (blk1_request test_env (blk_rq 4 True [replicate 512 9])) test_world)
     = dev test_world"
  by (rule blk1_request_beyond_end_ok [of test_env 1])
    (simp_all add: test_env_ok test_world_ok del: One_nat_def)

text \<open>
  The segment loop asks for the size of the request's current segment and never advances
  the request. With a first segment of one sector and a second one of two, the last sector
  of the second segment is not written although the request succeeds.
\<close>

theorem blk1_request_uneven_segments:
  assumes "seg_sectors E 1" and "blk_wf (dev w)" and "s + 3 \<le> blk_cap (dev w)"
    and "length b1 = 512" and "length b2 = 1024"
  shows "fst (result (blk1_request E (blk_rq s True [b1, b2])) w) = BLK_STS_OK \<and>
    blk_fetch (dev (final_world (blk1_request E (blk_rq s True [b1, b2])) w)) (s + 2) 1 = blk_fetch (dev w) (s + 2) 1"
proof -
  let ?d1 = "blk_put (dev w) s 1 b1" and ?c2 = "take 512 b2"
  have w1: "blk_wf ?d1" "blk_cap ?d1 = blk_cap (dev w)" using assms by (auto simp: blk_put_wf)
  have t1: "blk1_transfer (dev w) (of_nat s) (of_nat 1) b1 True = Some (?d1, b1)"
    using transfer_below_end(1) [of "dev w" s 1 b1] blk_put_eq(1) [of "dev w" s 1 b1] assms by simp
  have t2: "blk1_transfer ?d1 (of_nat (s + 1)) (of_nat 1) b2 True = Some (blk_put ?d1 (s + 1) 1 ?c2, b2)"
    using transfer_below_end(1) [of ?d1 "s + 1" 1 b2] blk_put_eq(1) [of ?d1 "s + 1" 1 ?c2] w1 assms
    by simp
  have ans: "ret_int E tr Blk_rq_cur_sectors = 1" for tr
    using assms(1) by (simp add: seg_sectors_def)
  have "blk_fetch (blk_put ?d1 (s + 1) 1 ?c2) (s + 2) 1 = blk_fetch ?d1 (s + 2) 1"
    using w1 assms by (intro blk.fetch_put_other) auto
  also have "\<dots> = blk_fetch (dev w) (s + 2) 1"
    using assms by (intro blk.fetch_put_other) auto
  finally show ?thesis
    using t1 t2 by (simp add: blk1_request_def blk_rq_def result_def final_world_def krun ans
        case_prod_beta add.commute)
qed

theorem blk1_request_uneven_segments_witness:
  "blk_fetch (dev (final_world (blk1_request test_env (blk_rq 0 True [replicate 512 1, replicate 1024 2])) test_world)) (0 + 2) 1
   = blk_fetch (dev test_world) (0 + 2) 1"
  using blk1_request_uneven_segments
    [of test_env test_world 0 "replicate 512 1" "replicate 1024 2"]
  by (simp add: test_env_ok test_world_ok del: One_nat_def)

end
