(* ===== verification/Block_Module.thy ===== *)
theory Block_Module
  imports Block_Driver
begin

text \<open>
  The life of the block device around its data path: opening, releasing and the timer that
  simulates a media change, as a relation over the handlers of \<open>Block_Driver\<close>; what loading
  and unloading the module acquires and gives back; the geometry reported to user space.
\<close>

unbundle bit_operations_syntax

section \<open>Sessions\<close>

text \<open>
  The documented behaviour of \<^verbatim>\<open>check_disk_change\<close>: ask the driver whether the medium
  changed and, if so, have it revalidate.
\<close>

definition disk_check_ok :: "disk_check \<Rightarrow> bool" where
  "disk_check_ok c \<longleftrightarrow> (\<forall>mc rv d. c mc rv d = (if mc d \<noteq> 0 then rv d else d))"

text \<open>
  \<open>blk_session c w0 p q w\<close>: the kernel took the device from \<open>w0\<close> to \<open>w\<close> with \<open>p\<close> opens and
  \<open>q\<close> releases. It releases what it opened, fires a timer that is pending, and sends requests
  at any time.
\<close>

inductive blk_session :: "disk_check \<Rightarrow> bworld \<Rightarrow> nat \<Rightarrow> nat \<Rightarrow> bworld \<Rightarrow> bool"
  for c :: disk_check and w0 :: bworld where
  sess_start: "blk_session c w0 0 0 w0"
| sess_open: "blk_session c w0 p q w \<Longrightarrow> blk_session c w0 (Suc p) q (final_world (blk1_open c) w)"
| sess_release: "blk_session c w0 p q w \<Longrightarrow> q < p \<Longrightarrow>
    blk_session c w0 p (Suc q) (final_world (blk1_release jiffies HZ) w)"
| sess_timer: "blk_session c w0 p q w \<Longrightarrow> timer_pending (dev w) \<Longrightarrow>
    blk_session c w0 p q (final_world blk1_invalidate w)"
| sess_request: "blk_session c w0 p q w \<Longrightarrow>
    blk_session c w0 p q (final_world (blk1_request E req) w)"

section \<open>What the handlers do to the device structure\<close>

lemma same_mem [simp]: "\<exists>m. d = d\<lparr>dev_mem := m\<rparr> \<and> length m = length (dev_mem d)"
  by (rule exI [of _ "dev_mem d"]) simp

lemma transfer_frame:
  assumes "blk1_transfer d s n b wr = Some (d', b')"
  shows "\<exists>m. d' = d\<lparr>dev_mem := m\<rparr> \<and> length m = length (dev_mem d)"
  using assms by (auto simp: blk1_transfer_def Let_def split: if_splits option.splits
      dest: poke_length)

lemma segments_frame:
  "\<exists>m. dev (snd (run_state (blk1_segments E wr p bs) w)) = (dev w)\<lparr>dev_mem := m\<rparr>
     \<and> length m = length (dev_mem (dev w))"
proof (induction bs arbitrary: p w)
  case Nil
  show ?case by simp
next
  case (Cons b bs)
  let ?n = "word_of_int (ret_int E (trace w) Blk_rq_cur_sectors)"
  show ?case
  proof (cases "blk1_transfer (dev w) p ?n b wr")
    case None
    then show ?thesis by (simp add: krun case_prod_beta)
  next
    case (Some x)
    obtain d' b' where x: "x = (d', b')" by fastforce
    then obtain m where "d' = (dev w)\<lparr>dev_mem := m\<rparr>" "length m = length (dev_mem (dev w))"
      using Some transfer_frame by blast
    then show ?thesis
      using Cons.IH [of "p + ?n" "w\<lparr>trace := trace w @ [RetI Blk_rq_cur_sectors
          (ret_int E (trace w) Blk_rq_cur_sectors), Void (Printk ''Req dev'')], dev := d'\<rparr>"] Some x
      by (auto simp: krun case_prod_beta)
  qed
qed

lemma request_frame:
  "\<exists>m. dev (final_world (blk1_request E req) w) = (dev w)\<lparr>dev_mem := m\<rparr>
     \<and> length m = length (dev_mem (dev w))"
proof (cases "rq_passthrough req")
  case True
  then show ?thesis by (simp add: blk1_request_def final_world_def krun)
next
  case False
  then show ?thesis
    using segments_frame [of E "rq_write req" "rq_pos req" "rq_segs req"
        "w\<lparr>trace := trace w @ [Void Blk_mq_start_request]\<rparr>"]
    by (auto simp: blk1_request_def final_world_def krun case_prod_beta split: option.splits)
qed

lemma open_dev:
  assumes "disk_check_ok c"
  shows "dev (final_world (blk1_open c) w) =
    (let d = (dev w)\<lparr>timer_pending := False\<rparr>;
         d1 = (if dev_users d = 0 then blk1_revalidate d else d)
     in d1\<lparr>dev_users := s16 (dev_users d1 + 1)\<rparr>)"
  using assms by (simp add: blk1_open_def final_world_def krun disk_check_ok_def Let_def
      blk1_media_changed_def blk1_revalidate_def)

lemma release_dev:
  "dev (final_world (blk1_release j hz) w) =
    (let d = (dev w)\<lparr>dev_users := s16 (dev_users (dev w) - 1)\<rparr>
     in if dev_users d = 0
        then d\<lparr>timer_expires := j + INVALIDATE_DELAY hz, timer_pending := True\<rparr> else d)"
  by (simp add: blk1_release_def final_world_def krun Let_def)

lemma invalidate_dev:
  "dev (final_world blk1_invalidate w) =
    (let d = (dev w)\<lparr>timer_pending := False\<rparr>
     in if dev_users d \<noteq> 0 \<or> dev_data d = Null then d else d\<lparr>dev_media_change := 1\<rparr>)"
  by (simp add: blk1_invalidate_def final_world_def krun Let_def)

lemma revalidate_simps [simp]:
  "dev_users (blk1_revalidate d) = dev_users d"
  "dev_media_change (blk1_revalidate d) = 0"
  "timer_pending (blk1_revalidate d) = timer_pending d"
  "dev_data (blk1_revalidate d) = dev_data d"
  "dev_size (blk1_revalidate d) = dev_size d"
  by (simp_all add: blk1_revalidate_def)

lemma revalidate_length:
  "blk_wf d \<Longrightarrow> length (dev_mem (blk1_revalidate d)) = length (dev_mem d)"
  by (simp add: blk1_revalidate_def blk_wf_def)

section \<open>The session invariant\<close>

definition sess_inv :: "nat \<Rightarrow> nat \<Rightarrow> bworld \<Rightarrow> bool" where
  "sess_inv p q w \<longleftrightarrow> q \<le> p \<and> dev_users (dev w) = int p - int q
     \<and> (timer_pending (dev w) \<longrightarrow> p = q)
     \<and> (dev_media_change (dev w) \<noteq> 0 \<longrightarrow> p = q)
     \<and> dev_data (dev w) \<noteq> Null \<and> blk_wf (dev w)"

lemma sess_inv_open:
  assumes "disk_check_ok c" and "sess_inv p q w" and "p < 32767"
  shows "sess_inv (Suc p) q (final_world (blk1_open c) w)"
proof -
  have u: "s16 (int p - int q + 1) = int p - int q + 1"
    using assms by (intro s16_id) (auto simp: sess_inv_def)
  show ?thesis
    using assms u revalidate_length [of "(dev w)\<lparr>timer_pending := False\<rparr>"]
    by (auto simp: sess_inv_def open_dev Let_def blk_wf_def)
qed

lemma sess_inv_release:
  assumes "sess_inv p q w" and "q < p" and "p \<le> 32767"
  shows "sess_inv p (Suc q) (final_world (blk1_release j hz) w)"
proof -
  have u: "s16 (int p - int q - 1) = int p - int q - 1"
    using assms by (intro s16_id) auto
  show ?thesis
    using assms u by (auto simp: sess_inv_def release_dev Let_def blk_wf_def)
qed

lemma sess_inv_timer:
  assumes "sess_inv p q w" and "timer_pending (dev w)"
  shows "sess_inv p q (final_world blk1_invalidate w)"
  using assms by (auto simp: sess_inv_def invalidate_dev Let_def blk_wf_def)

lemma sess_inv_request:
  assumes "sess_inv p q w"
  shows "sess_inv p q (final_world (blk1_request E req) w)"
proof -
  obtain m where m: "dev (final_world (blk1_request E req) w) = (dev w)\<lparr>dev_mem := m\<rparr>"
    "length m = length (dev_mem (dev w))"
    using request_frame [of E req w] by blast
  then show ?thesis using assms by (auto simp: sess_inv_def blk_wf_def)
qed

lemma session_inv:
  assumes "blk_session c w0 p q w" and "disk_check_ok c" and "p \<le> 32767" and "sess_inv 0 0 w0"
  shows "sess_inv p q w"
  using assms
  by (induction rule: blk_session.induct)
    (auto intro: sess_inv_open sess_inv_release sess_inv_timer sess_inv_request)

section \<open>Properties of sessions\<close>

definition blk_ready :: "bworld \<Rightarrow> bool" where
  "blk_ready w \<longleftrightarrow> blk_wf (dev w) \<and> dev_data (dev w) \<noteq> Null \<and> dev_users (dev w) = 0"

lemma blk_ready_inv: "blk_ready w \<Longrightarrow> sess_inv 0 0 w"
  by (simp add: blk_ready_def sess_inv_def)

definition std_check :: disk_check where
  "std_check mc rv d = (if mc d \<noteq> 0 then rv d else d)"

lemma std_check_ok: "disk_check_ok std_check"
  by (simp add: disk_check_ok_def std_check_def)

lemma test_world_ready: "blk_ready test_world"
  by (simp add: blk_ready_def test_world_ok) (simp add: test_world_def blank_dev_def)

text \<open>
  In every state the kernel can bring the device to with at most 32767 opens, the user
  count is the number of opens not yet released, and while a user is left the
  media-change flag is clear and the invalidation timer is not pending: no data is wiped
  under an open device.
\<close>

theorem blk1_open_media_valid:
  assumes "blk_session c w0 p q w" and "disk_check_ok c" and "blk_ready w0" and "p \<le> 32767"
  shows "dev_users (dev w) = int p - int q \<and>
    (q < p \<longrightarrow> dev_media_change (dev w) = 0 \<and> \<not> timer_pending (dev w))"
  using session_inv [OF assms(1,2,4) blk_ready_inv [OF assms(3)]] by (auto simp: sess_inv_def)

theorem blk1_open_media_valid_witness:
  "dev_users (dev (final_world (blk1_open std_check) test_world)) = 1 \<and>
   dev_media_change (dev (final_world (blk1_open std_check) test_world)) = 0"
  using blk1_open_media_valid
    [OF blk_session.sess_open [OF blk_session.sess_start [of std_check test_world]] std_check_ok
      test_world_ready] by simp

text \<open>
  The sanity check in the timer callback never fails: whenever the timer fires in such a
  session, no user is left and the device has its memory, so the callback flags the media
  change and prints nothing.
\<close>

theorem blk1_timer_sane:
  assumes "blk_session c w0 p q w" and "disk_check_ok c" and "blk_ready w0" and "p \<le> 32767"
    and "timer_pending (dev w)"
  shows "dev_media_change (dev (final_world blk1_invalidate w)) = 1 \<and>
    trace (final_world blk1_invalidate w) = trace w @ [Void Spin_lock, Void Spin_unlock]"
  using session_inv [OF assms(1,2,4) blk_ready_inv [OF assms(3)]] assms(5)
  by (simp add: sess_inv_def blk1_invalidate_def final_world_def krun)

definition closed_world :: bworld where
  "closed_world = final_world (blk1_release 100 250) (final_world (blk1_open std_check) test_world)"

lemma closed_session: "blk_session std_check test_world 1 1 closed_world"
  unfolding closed_world_def One_nat_def
  by (intro blk_session.sess_release blk_session.sess_open blk_session.sess_start) simp

lemma closed_pending: "timer_pending (dev closed_world)"
  using open_dev [OF std_check_ok, of test_world]
  by (simp add: closed_world_def release_dev Let_def test_world_def blank_dev_def)

theorem blk1_timer_sane_witness:
  "dev_media_change (dev (final_world blk1_invalidate closed_world)) = 1 \<and>
   trace (final_world blk1_invalidate closed_world) =
     trace closed_world @ [Void Spin_lock, Void Spin_unlock]"
  by (rule blk1_timer_sane [OF closed_session std_check_ok test_world_ready])
    (simp_all add: closed_pending)

text \<open>
  When the last user leaves, the data survives an immediate reopen, and is erased when the
  timer fires first: the next open then finds only zero bytes.
\<close>

theorem blk1_media_change_erases:
  assumes "disk_check_ok c" and "blk_wf (dev w)" and "dev_data (dev w) \<noteq> Null"
    and "dev_users (dev w) = 1" and "dev_media_change (dev w) = 0"
  shows "dev_mem (dev (final_world (blk1_open c) (final_world (blk1_release j hz) w)))
      = dev_mem (dev w) \<and>
    dev_mem (dev (final_world (blk1_open c)
        (final_world blk1_invalidate (final_world (blk1_release j hz) w))))
      = replicate (length (dev_mem (dev w))) 0"
  using assms
  by (simp add: open_dev release_dev invalidate_dev Let_def blk1_revalidate_def blk_wf_def)

theorem blk1_media_change_erases_witness:
  "dev_mem (dev (final_world (blk1_open std_check) (final_world blk1_invalidate
     (final_world (blk1_release 0 250) (final_world (blk1_open std_check) test_world)))))
   = replicate 2048 0"
proof -
  let ?w = "final_world (blk1_open std_check) test_world"
  have "blk_wf (dev ?w)" "dev_data (dev ?w) \<noteq> Null" "dev_users (dev ?w) = 1"
    "dev_media_change (dev ?w) = 0" "length (dev_mem (dev ?w)) = 2048"
    by (simp_all add: open_dev std_check_ok blk1_revalidate_def test_world_def blank_dev_def blk_wf_def)
  then show ?thesis
    using blk1_media_change_erases [OF std_check_ok, of ?w 0 250] by simp
qed

section \<open>What loading acquires and unloading gives back\<close>

datatype bres =
  Blkdev int | DevStruct kptr | VMem kptr | Queue kptr | Disk kptr | DiskLive kptr

text \<open>
  The documented pairing of the block layer's calls. \<^verbatim>\<open>register_blkdev\<close> returns the new
  major number when asked for one (argument 0), and 0 when a given number was registered.
\<close>

definition b_acq :: "bcall kevent \<Rightarrow> bres option" where
  "b_acq ev = (case ev of
     RetI (Register_blkdev m _) r \<Rightarrow>
       (if m = 0 then (if 0 < r then Some (Blkdev r) else None)
        else (if r = 0 then Some (Blkdev m) else None))
   | RetP (Kmalloc _) p \<Rightarrow> (if is_addr p then Some (DevStruct p) else None)
   | RetP (Vmalloc _) p \<Rightarrow> (if is_addr p then Some (VMem p) else None)
   | RetP (Blk_mq_init_sq_queue _) p \<Rightarrow> (if is_addr p then Some (Queue p) else None)
   | RetP (Alloc_disk _) p \<Rightarrow> (if is_addr p then Some (Disk p) else None)
   | Void (Add_disk p) \<Rightarrow> Some (DiskLive p)
   | _ \<Rightarrow> None)"

definition b_rel :: "bcall kevent \<Rightarrow> bres option" where
  "b_rel ev = (case ev of
     Void (Unregister_blkdev m _) \<Rightarrow> Some (Blkdev m)
   | Void (Kfree p) \<Rightarrow> Some (DevStruct p)
   | Void (Vfree p) \<Rightarrow> Some (VMem p)
   | Void (Blk_cleanup_queue p) \<Rightarrow> Some (Queue p)
   | Void (Put_disk p) \<Rightarrow> Some (Disk p)
   | Void (Del_gendisk p) \<Rightarrow> Some (DiskLive p)
   | _ \<Rightarrow> None)"

declare b_acq_def [tables] b_rel_def [tables]

abbreviation b_ledger :: "bcall ktrace \<Rightarrow> bres ledger" where
  "b_ledger \<equiv> ledger_of b_acq b_rel"

text \<open>What the module holds between load and unload, read off its own variables.\<close>

definition dev_held :: "blk1_dev \<Rightarrow> bres multiset" where
  "dev_held d = (if dev_data d = Null then {#} else {#VMem (dev_data d)#})
     + (if dev_queue d = Null then {#} else {#Queue (dev_queue d)#})
     + (if dev_gd d = Null then {#} else {#Disk (dev_gd d), DiskLive (dev_gd d)#})"

definition blk_held :: "bworld \<Rightarrow> bres multiset" where
  "blk_held w = {#Blkdev (blk1_major w), DevStruct (Devices w)#} + dev_held (dev w)"

text \<open>
  The kernel behaves as documented, and neither the queue nor the disk allocation fails.
\<close>

definition blk_good :: "bcall kenv \<Rightarrow> bool" where
  "blk_good E \<longleftrightarrow> no_err_ptr E
     \<and> (\<forall>tr m n. m \<noteq> 0 \<longrightarrow> ret_int E tr (Register_blkdev m n) \<le> 0)
     \<and> (\<forall>tr k. ret_ptr E tr (Blk_mq_init_sq_queue k) \<noteq> Null)
     \<and> (\<forall>tr k. ret_ptr E tr (Alloc_disk k) \<noteq> Null)"

lemma setup_acquires:
  assumes "blk_good E"
  shows "b_ledger (trace (final_world (setup_device E fresh) w)) =
      (b_ledger (trace w))\<lparr>owned := owned (b_ledger (trace w)) +
        dev_held (dev (final_world (setup_device E fresh) w))\<rparr>"
    and "blk1_major (final_world (setup_device E fresh) w) = blk1_major w"
    and "Devices (final_world (setup_device E fresh) w) = Devices w"
proof -
  have ne: "\<not> IS_ERR (ret_ptr E tr c)" "ret_ptr E tr (Blk_mq_init_sq_queue k) \<noteq> Null"
    "ret_ptr E tr (Alloc_disk k) \<noteq> Null" for tr c k
    using assms by (auto simp: blk_good_def no_err_ptr_def)
  obtain M B where l: "b_ledger (trace w) = \<lparr>owned = M, misused = B\<rparr>"
    by (cases "b_ledger (trace w)") auto
  let ?v = "ret_ptr E (trace w) (Vmalloc (s32 (nsectors w * hardsect_size w)))"
  show "b_ledger (trace (final_world (setup_device E fresh) w)) =
      (b_ledger (trace w))\<lparr>owned := owned (b_ledger (trace w)) +
        dev_held (dev (final_world (setup_device E fresh) w))\<rparr>"
    by (cases "?v = Null")
      (simp_all add: setup_device_def final_world_def krun ne l ledger_of_append tables dev_held_def
        blank_dev_def)
  show "blk1_major (final_world (setup_device E fresh) w) = blk1_major w"
    and "Devices (final_world (setup_device E fresh) w) = Devices w"
    by (cases "?v = Null"; simp add: setup_device_def final_world_def krun ne)+
qed

lemma blk_init_acquires:
  assumes good: "blk_good E" and run: "run_state (blk1_init fresh E) w = (0, w')"
  shows "b_ledger (trace w') = (b_ledger (trace w))\<lparr>owned := owned (b_ledger (trace w)) + blk_held w'\<rparr>"
proof -
  let ?m = "blk1_major w"
  let ?r = "ret_int E (trace w) (Register_blkdev ?m ''blk1'')"
  let ?t1 = "trace w @ [RetI (Register_blkdev ?m ''blk1'') ?r]"
  let ?p = "ret_ptr E ?t1 (Kmalloc ''struct blk1_dev'')"
  let ?w2 = "w\<lparr>blk1_major := ?r, trace := ?t1 @ [RetP (Kmalloc ''struct blk1_dev'') ?p], Devices := ?p\<rparr>"
  have r: "0 < ?r" and p: "?p \<noteq> Null" and w': "w' = final_world (setup_device E fresh) ?w2"
    using run by (auto simp: blk1_init_def krun final_world_def case_prod_beta split: if_splits)
  have "?m = 0" using r good unfolding blk_good_def by (metis not_le)
  moreover have "\<not> IS_ERR ?p" using good by (simp add: blk_good_def no_err_ptr_def)
  moreover obtain M B where "b_ledger (trace w) = \<lparr>owned = M, misused = B\<rparr>"
    by (cases "b_ledger (trace w)") auto
  ultimately show ?thesis
    using r p setup_acquires [OF good, of fresh ?w2]
    by (simp add: w' blk_held_def ledger_of_append tables)
qed

lemma blk_exit_releases:
  assumes "owned (b_ledger (trace w)) = M + blk_held w"
  shows "b_ledger (trace (final_world (blk1_exit E) w)) = (b_ledger (trace w))\<lparr>owned := M\<rparr>"
proof -
  obtain B where "b_ledger (trace w) = \<lparr>owned = M + blk_held w, misused = B\<rparr>"
    using ledger_cases [OF assms] by blast
  then show ?thesis
    by (simp add: blk1_exit_def final_world_def krun ledger_of_append tables blk_held_def dev_held_def)
qed

interpretation blkm: kernel_module "blk1_init fresh" blk1_exit b_acq b_rel blk_held blk_good
  by unfold_locales (rule blk_init_acquires, assumption+, rule blk_exit_releases, assumption)

text \<open>
  If the kernel's allocations of the queue and the disk succeed, loading and unloading the
  module gives back exactly what was acquired: nothing stays registered or allocated and
  nothing is given back twice.
\<close>

theorem blk1_load_unload_balanced:
  assumes "blk_good E" and "result (blk1_init fresh E) w = 0"
  shows "b_ledger (trace (final_world (blk1_exit E) (final_world (blk1_init fresh E) w)))
    = b_ledger (trace w)"
  using assms blkm.load_unload_balanced [of E fresh w "final_world (blk1_init fresh E) w"]
  by (cases "run_state (blk1_init fresh E) w") (simp add: final_world_def result_def)

lemma test_env_good: "blk_good (test_env\<lparr>ret_int := \<lambda>tr c. case c of Register_blkdev m _ \<Rightarrow>
    if m = 0 then 252 else 0 | _ \<Rightarrow> 0\<rparr>)"
  by (simp add: blk_good_def no_err_ptr_def test_env_def)

theorem blk1_load_unload_balanced_witness:
  "\<exists>E. b_ledger (trace (final_world (blk1_exit E)
       (final_world (blk1_init (replicate 2048 0) E) test_world))) = b_ledger (trace test_world)"
proof -
  let ?E = "test_env\<lparr>ret_int := \<lambda>tr c. case c of Register_blkdev m _ \<Rightarrow>
    if m = 0 then 252 else 0 | _ \<Rightarrow> 0\<rparr>"
  have "result (blk1_init (replicate 2048 0) ?E) test_world = 0"
    by (simp add: blk1_init_def setup_device_def result_def krun test_env_def test_world_def)
  then show ?thesis using blk1_load_unload_balanced [OF test_env_good] by blast
qed

text \<open>
  When the request queue cannot be allocated, the setup frees the device memory but keeps
  its address, the load still reports success, and the unload frees the memory again.
\<close>

theorem blk1_queue_failure_double_free:
  assumes "no_err_ptr E" and "blk1_major w = 0"
    and "\<forall>tr. 0 < ret_int E tr (Register_blkdev 0 ''blk1'')"
    and "\<forall>tr s. ret_ptr E tr (Kmalloc s) \<noteq> Null" and "\<forall>tr z. ret_ptr E tr (Vmalloc z) = Ptr a"
    and "\<forall>tr k. ret_ptr E tr (Blk_mq_init_sq_queue k) = Null"
    and "VMem (Ptr a) \<notin># owned (b_ledger (trace w))"
  shows "result (blk1_init fresh E) w = 0 \<and>
    VMem (Ptr a) \<in># misused (b_ledger (trace
      (final_world (blk1_exit E) (final_world (blk1_init fresh E) w))))"
proof -
  have ans: "\<not> ret_int E tr (Register_blkdev 0 ''blk1'') \<le> 0"
    "0 < ret_int E tr (Register_blkdev 0 ''blk1'')" "\<not> IS_ERR (ret_ptr E tr c)" for tr c
    using assms by (auto simp: no_err_ptr_def not_le)
  obtain M B where l: "b_ledger (trace w) = \<lparr>owned = M, misused = B\<rparr>"
    by (cases "b_ledger (trace w)") auto
  then have "VMem (Ptr a) \<notin># M" using assms(7) by simp
  then show ?thesis
    using assms(2,4,5,6)
    by (simp add: blk1_init_def setup_device_def out_vfree_def blk1_exit_def result_def
        final_world_def krun ans l ledger_of_append tables blank_dev_def)
qed

definition no_queue_env :: "bcall kenv" where
  "no_queue_env = \<lparr>ret_int = (\<lambda>tr c. 252),
     ret_ptr = (\<lambda>tr c. case c of Blk_mq_init_sq_queue _ \<Rightarrow> Null | _ \<Rightarrow> Ptr 99)\<rparr>"

theorem blk1_queue_failure_double_free_witness:
  "VMem (Ptr 99) \<in># misused (b_ledger (trace
      (final_world (blk1_exit no_queue_env) (final_world (blk1_init [] no_queue_env) test_world))))"
proof -
  have "no_err_ptr no_queue_env"
    by (auto simp: no_err_ptr_def no_queue_env_def split: bcall.splits)
  then show ?thesis
    using blk1_queue_failure_double_free [of no_queue_env test_world 99 "[]"]
    by (simp add: no_queue_env_def test_world_def)
qed

text \<open>
  A major number given as a module parameter is never accepted: \<^verbatim>\<open>register_blkdev\<close>
  answers 0 for a successful registration of a given number, the load takes that for a
  failure, returns \<^verbatim>\<open>-EBUSY\<close> and leaves the number registered.
\<close>

theorem blk1_fixed_major_rejected:
  assumes "blk1_major w \<noteq> 0"
    and "ret_int E (trace w) (Register_blkdev (blk1_major w) ''blk1'') = 0"
  shows "result (blk1_init fresh E) w = - EBUSY \<and>
    owned (b_ledger (trace (final_world (blk1_init fresh E) w)))
      = add_mset (Blkdev (blk1_major w)) (owned (b_ledger (trace w)))"
  using assms by (simp add: blk1_init_def result_def final_world_def krun ledger_of_append tables)

theorem blk1_fixed_major_rejected_witness:
  "result (blk1_init [] \<lparr>ret_int = \<lambda>_ _. 0, ret_ptr = \<lambda>_ _. Ptr 1\<rparr>) (test_world\<lparr>blk1_major := 240\<rparr>)
     = - EBUSY"
  using blk1_fixed_major_rejected
    [of "test_world\<lparr>blk1_major := 240\<rparr>" "\<lparr>ret_int = \<lambda>_ _. 0, ret_ptr = \<lambda>_ _. Ptr 1\<rparr>" "[]"]
  by simp

section \<open>Geometry\<close>

lemma geo_round_down: "drop_bit 6 (z AND NOT 63) = z div 64" for z :: int
proof -
  have "drop_bit 6 (z AND NOT 63) = drop_bit 6 z AND drop_bit 6 (NOT (63::int))"
    by (rule drop_bit_and)
  also have "drop_bit 6 (NOT (63::int)) = - 1" by (simp add: drop_bit_eq_div)
  finally show ?thesis by (simp add: drop_bit_eq_div)
qed

text \<open>
  \<^verbatim>\<open>HDIO_GETGEO\<close> computes the geometry from the device size in bytes as if it were a
  number of sectors: for a device of \<open>n\<close> 512-byte sectors, cylinders times heads times
  sectors is 512 times \<open>n\<close>, while \<^verbatim>\<open>set_capacity\<close> was told \<open>n\<close>. A failed copy gives
  \<^verbatim>\<open>-EFAULT\<close>, an unknown command \<^verbatim>\<open>-ENOTTY\<close>.
\<close>

theorem blk1_geometry_overstates:
  assumes "hardsect_size w = 512" and "dev_size (dev w) = nsectors w * 512"
    and "0 \<le> nsectors w" and "nsectors w < 8192"
  shows "result (blk1_ioctl E (Other_cmd k)) w = (- ENOTTY, None)
    \<and> (ret_int E (trace w) Copy_to_user \<noteq> 0 \<longrightarrow> result (blk1_ioctl E HDIO_GETGEO) w = (- EFAULT, None))
    \<and> (ret_int E (trace w) Copy_to_user = 0 \<longrightarrow>
        (\<exists>geo. result (blk1_ioctl E HDIO_GETGEO) w = (0, Some geo)
          \<and> uint (geo_cylinders geo) * uint (geo_heads geo) * uint (geo_sectors geo)
              = 512 * nsectors w))"
proof -
  let ?z = "nsectors w * 512"
  have z: "s32 ?z = ?z" "?z div 64 = nsectors w * 8" using assms by simp_all
  have g: "(?z AND - 64) div 64 = nsectors w * 8"
    using geo_round_down [of ?z] z(2) by (simp add: drop_bit_eq_div)
  have small: "uint (word_of_int x :: 16 word) = x" if "0 \<le> x" "x < 65536" for x
    using that by (simp add: uint_word_of_int take_bit_int_eq_self)
  have "uint (word_of_int (nsectors w * 8) :: 16 word) = nsectors w * 8"
    using assms by (intro small) auto
  then show ?thesis
    using assms z by (simp add: blk1_ioctl_def result_def krun Let_def KERNEL_SECTOR_SIZE_def
        g drop_bit_eq_div)
qed

theorem blk1_geometry_overstates_witness:
  "result (blk1_ioctl test_env (Other_cmd 5)) test_world = (- ENOTTY, None)
   \<and> (\<exists>geo. result (blk1_ioctl test_env HDIO_GETGEO) test_world = (0, Some geo)
       \<and> uint (geo_cylinders geo) * uint (geo_heads geo) * uint (geo_sectors geo) = 512 * 4)"
  using blk1_geometry_overstates [of test_world test_env 5]
  by (simp add: test_world_def test_env_def blank_dev_def)

end
