(* ===== verification/Block_Disk.thy ===== *)
theory Block_Disk
  imports Block_Module
begin

text \<open>
  The block driver as a removable disk. The specification is a list of sectors, the number of users, and the two flags
  of the simulated media change; the driver's open, release, timer, read and write handlers refine it for every sequence
  of events, with requests of any number of segments, inside the device or beyond its end.
\<close>

section \<open>The specification\<close>

record disk =
  sectors :: "byte list list"
  opens :: nat
  armed :: bool
  changed :: bool

definition blank_sector :: "byte list" where
  "blank_sector = replicate 512 0"

text \<open>A run of bytes cut into \<open>n\<close> sectors.\<close>

definition cut :: "nat \<Rightarrow> byte list \<Rightarrow> byte list list" where
  "cut n bs = map (\<lambda>i. take 512 (drop (i * 512) bs)) [0..<n]"

text \<open>
  A request is served segment by segment, \<open>n\<close> sectors each; a segment that does not fit on the disk is skipped, and its
  buffer stays as it was.
\<close>

fun disk_write :: "byte list list \<Rightarrow> nat \<Rightarrow> nat \<Rightarrow> byte list list \<Rightarrow> byte list list" where
  "disk_write secs s n [] = secs"
| "disk_write secs s n (b # bs) =
     disk_write (if s + n \<le> length secs then take s secs @ cut n b @ drop (s + n) secs else secs) (s + n) n bs"

fun disk_read :: "byte list list \<Rightarrow> nat \<Rightarrow> nat \<Rightarrow> byte list list \<Rightarrow> byte list list" where
  "disk_read secs s n [] = []"
| "disk_read secs s n (b # bs) =
     (if s + n \<le> length secs then concat (take n (drop s secs)) else b) # disk_read secs (s + n) n bs"

datatype disk_event =
    Disk_open
  | Disk_release ulong ulong
  | Disk_timer
  | Disk_write nat nat "byte list list"
  | Disk_read nat nat "byte list list"
  | Disk_passthrough "byte list list"

definition disk_step :: "disk_event \<Rightarrow> disk \<Rightarrow> (int \<times> byte list list) \<times> disk" where
  "disk_step e d =
     (case e of
        Disk_open \<Rightarrow>
          ((0, []), d\<lparr>sectors := (if opens d = 0 \<and> changed d then map (\<lambda>_. blank_sector) (sectors d) else sectors d),
             opens := Suc (opens d), armed := False, changed := (opens d \<noteq> 0 \<and> changed d)\<rparr>)
      | Disk_release _ _ \<Rightarrow> ((0, []), d\<lparr>opens := opens d - 1, armed := (armed d \<or> opens d = 1)\<rparr>)
      | Disk_timer \<Rightarrow> ((0, []), if armed d then d\<lparr>armed := False, changed := (changed d \<or> opens d = 0)\<rparr> else d)
      | Disk_write s n segs \<Rightarrow> ((BLK_STS_OK, segs), d\<lparr>sectors := disk_write (sectors d) s n segs\<rparr>)
      | Disk_read s n bufs \<Rightarrow> ((BLK_STS_OK, disk_read (sectors d) s n bufs), d)
      | Disk_passthrough segs \<Rightarrow> ((BLK_STS_IOERR, segs), d))"

text \<open>
  What the kernel does: it releases what it opened, and sends segments that are as long as they say, at byte
  addresses of 64 bits. The driver counts its users in 16 bits.
\<close>

definition fits :: "nat \<Rightarrow> nat \<Rightarrow> byte list list \<Rightarrow> bool" where
  "fits s n segs \<longleftrightarrow> (s + n * length segs) * 512 < 2 ^ 64 \<and> (\<forall>b \<in> set segs. length b = n * 512)"

definition disk_enabled :: "disk_event \<Rightarrow> disk \<Rightarrow> bool" where
  "disk_enabled e d =
     (case e of
        Disk_open \<Rightarrow> opens d < 32767
      | Disk_release _ _ \<Rightarrow> 0 < opens d
      | Disk_write s n segs \<Rightarrow> fits s n segs
      | Disk_read s n bufs \<Rightarrow> fits s n bufs
      | _ \<Rightarrow> True)"

section \<open>The driver\<close>

text \<open>\<open>envs n\<close> is the kernel while it serves a request with segments of \<open>n\<close> sectors.\<close>

definition blk_step :: "disk_check \<Rightarrow> (nat \<Rightarrow> bcall kenv) \<Rightarrow> disk_event \<Rightarrow> bworld \<Rightarrow> (int \<times> byte list list) \<times> bworld" where
  "blk_step c envs e w =
     (case e of
        Disk_open \<Rightarrow> ((result (blk1_open c) w, []), final_world (blk1_open c) w)
      | Disk_release jiffies HZ \<Rightarrow> ((0, []), final_world (blk1_release jiffies HZ) w)
      | Disk_timer \<Rightarrow> ((0, []), if timer_pending (dev w) then final_world blk1_invalidate w else w)
      | Disk_write s n segs \<Rightarrow> run_state (blk1_request (envs n) (blk_rq s True segs)) w
      | Disk_read s n bufs \<Rightarrow> run_state (blk1_request (envs n) (blk_rq s False bufs)) w
      | Disk_passthrough segs \<Rightarrow> run_state (blk1_request (envs 0) ((blk_rq 0 False segs)\<lparr>rq_passthrough := True\<rparr>)) w)"

definition disk_rel :: "bworld \<Rightarrow> disk \<Rightarrow> bool" where
  "disk_rel w d \<longleftrightarrow> blk_wf (dev w) \<and> dev_data (dev w) \<noteq> Null \<and> never_faults (trace w) \<and>
     sectors d = cut (blk_cap (dev w)) (dev_mem (dev w)) \<and>
     dev_users (dev w) = int (opens d) \<and> opens d \<le> 32767 \<and> timer_pending (dev w) = armed d \<and>
     (dev_media_change (dev w) \<noteq> 0) = changed d"

section \<open>Cutting memory into sectors\<close>

lemma length_cut [simp]: "length (cut n bs) = n"
  by (simp add: cut_def)

lemma cut_nth [simp]: "i < n \<Longrightarrow> cut n bs ! i = take 512 (drop (i * 512) bs)"
  by (simp add: cut_def)

lemma cut_splice:
  assumes "length b = n * 512" and "s + n \<le> cap" and "cap * 512 \<le> length m"
  shows "cut cap (take (s * 512) m @ b @ drop ((s + n) * 512) m) = take s (cut cap m) @ cut n b @ drop (s + n) (cut cap m)"
proof (rule nth_equalityI)
  fix i assume "i < length (cut cap (take (s * 512) m @ b @ drop ((s + n) * 512) m))"
  then have i: "i < cap" by simp
  have s: "s * 512 \<le> length m" "(s + n) * 512 \<le> length m" using assms(2,3) by auto
  consider "i < s" | "s \<le> i" "i < s + n" | "s + n \<le> i" by linarith
  then show "cut cap (take (s * 512) m @ b @ drop ((s + n) * 512) m) ! i =
      (take s (cut cap m) @ cut n b @ drop (s + n) (cut cap m)) ! i"
  proof cases
    case 1
    then have "512 \<le> s * 512 - i * 512" by linarith
    then have "take 512 (drop (i * 512) (take (s * 512) m)) = take 512 (drop (i * 512) m)"
      by (simp only: drop_take take_take min_absorb1)
    then show ?thesis using 1 i s assms(2) by (simp add: nth_append min_def)
  next
    case 2
    then have "i * 512 - s * 512 = (i - s) * 512" "(i - s) * 512 + 512 \<le> n * 512" "s * 512 \<le> i * 512"
      by (auto simp: diff_mult_distrib)
    then show ?thesis using 2 i s assms by (simp add: nth_append min_def)
  next
    case 3
    then have "i * 512 - s * 512 - n * 512 + (s + n) * 512 = i * 512" "s * 512 \<le> i * 512" "n * 512 \<le> i * 512 - s * 512"
      "\<not> i - s < n" by (auto simp: algebra_simps)
    then show ?thesis using 3 i s assms by (simp add: nth_append min_def add.commute)
  qed
qed (use assms in simp)

lemma concat_cut:
  assumes "(s + n) * 512 \<le> length m" and "s + n \<le> cap"
  shows "concat (take n (drop s (cut cap m))) = take (n * 512) (drop (s * 512) m)"
  using assms
proof (induction n)
  case (Suc n)
  have "take (Suc n) (drop s (cut cap m)) = take n (drop s (cut cap m)) @ [cut cap m ! (s + n)]"
    using Suc.prems by (simp add: take_Suc_conv_app_nth)
  moreover have "take (Suc n * 512) (drop (s * 512) m) =
      take (n * 512) (drop (s * 512) m) @ take 512 (drop ((s + n) * 512) m)"
    using take_add [of "n * 512" 512 "drop (s * 512) m"] by (simp add: algebra_simps)
  ultimately show ?case using Suc by simp
qed simp

lemma cut_one: "length b = 512 \<Longrightarrow> cut (Suc 0) b = [b]"
  by (simp add: cut_def)

lemma cut_replicate: "cap * 512 \<le> z \<Longrightarrow> cut cap (replicate z x) = replicate cap (replicate 512 x)"
  by (rule nth_equalityI) (auto simp: min_def)

lemma cap_mem: "blk_wf d \<Longrightarrow> blk_cap d * 512 \<le> length (dev_mem d)"
  by (simp add: blk_wf_def blk_cap_def)

section \<open>One segment\<close>

text \<open>A transfer of one segment, inside the device or not.\<close>

lemma transfer_write:
  assumes "blk_wf d" and "(s + n) * 512 < 2 ^ 64" and "length b = n * 512"
  shows "\<exists>d'. blk1_transfer d (of_nat s) (of_nat n) b True = Some (d', b) \<and> blk_wf d' \<and> (\<exists>m. d' = d\<lparr>dev_mem := m\<rparr>) \<and>
    cut (blk_cap d) (dev_mem d') =
      (if s + n \<le> blk_cap d then take s (cut (blk_cap d) (dev_mem d)) @ cut n b @ drop (s + n) (cut (blk_cap d) (dev_mem d))
       else cut (blk_cap d) (dev_mem d))"
proof (cases "s + n \<le> blk_cap d")
  case True
  have "blk1_transfer d (of_nat s) (of_nat n) b True = Some (blk_put d s n b, b)"
    using transfer_below_end(1) [OF assms(1) True] blk_put_eq(1) [OF assms(1) True assms(3)] assms(3) by simp
  moreover have "blk_wf (blk_put d s n b)" using blk_put_wf(1) [OF assms(1) True assms(3)] .
  ultimately show ?thesis
    using True blk_put_eq(1) [OF assms(1) True assms(3)] cut_splice [OF assms(3) True cap_mem [OF assms(1)]] by auto
next
  case False
  then have "nat (dev_size d) < (s + n) * 512" unfolding blk_cap_def by (simp add: div_less_iff_less_mult)
  then show ?thesis
    using False transfer_beyond_end [OF assms(1,2)] assms(1) by (auto intro: exI [of _ "dev_mem d"])
qed

lemma transfer_read:
  assumes "blk_wf d" and "(s + n) * 512 < 2 ^ 64" and "length b = n * 512"
  shows "blk1_transfer d (of_nat s) (of_nat n) b False =
    Some (d, if s + n \<le> blk_cap d then concat (take n (drop s (cut (blk_cap d) (dev_mem d)))) else b)"
proof (cases "s + n \<le> blk_cap d")
  case True
  have "(s + n) * 512 \<le> blk_cap d * 512" using True by (rule mult_le_mono1)
  then have "(s + n) * 512 \<le> length (dev_mem d)" using cap_mem [OF assms(1)] by linarith
  then show ?thesis
    using True transfer_below_end(2) [OF assms(1) True] concat_cut [OF _ True] assms(3) by simp
next
  case False
  then have "nat (dev_size d) < (s + n) * 512" unfolding blk_cap_def by (simp add: div_less_iff_less_mult)
  then show ?thesis using False transfer_beyond_end [OF assms(1,2)] by simp
qed

section \<open>Requests\<close>

lemma segments_disk_write:
  assumes "seg_sectors E n" and "blk_wf (dev w)" and "fits s n bss" and "never_faults (trace w)"
  shows "\<exists>w'. run_state (blk1_segments E True (of_nat s) bss) w = (Some bss, w') \<and> blk_wf (dev w') \<and> never_faults (trace w') \<and>
    (\<exists>m. dev w' = (dev w)\<lparr>dev_mem := m\<rparr>) \<and>
    cut (blk_cap (dev w)) (dev_mem (dev w')) = disk_write (cut (blk_cap (dev w)) (dev_mem (dev w))) s n bss"
  using assms
proof (induction bss arbitrary: w s)
  case Nil
  then show ?case by (auto intro: exI [of _ "dev_mem (dev w)"])
next
  case (Cons b bs)
  have ans: "ret_int E tr Blk_rq_cur_sectors = int n" for tr using Cons.prems by (simp add: seg_sectors_def)
  have f: "(s + n) * 512 < 2 ^ 64" "length b = n * 512" "fits (s + n) n bs"
    using Cons.prems(3) by (auto simp: fits_def algebra_simps)
  from transfer_write [OF Cons.prems(2) f(1,2)] obtain d' m
    where t: "blk1_transfer (dev w) (of_nat s) (of_nat n) b True = Some (d', b)" "blk_wf d'" "d' = (dev w)\<lparr>dev_mem := m\<rparr>"
      "cut (blk_cap (dev w)) (dev_mem d') = (if s + n \<le> blk_cap (dev w)
         then take s (cut (blk_cap (dev w)) (dev_mem (dev w))) @ cut n b @ drop (s + n) (cut (blk_cap (dev w)) (dev_mem (dev w)))
         else cut (blk_cap (dev w)) (dev_mem (dev w)))"
    by blast
  let ?w = "w\<lparr>trace := trace w @ [RetI Blk_rq_cur_sectors (int n), Void (Printk ''Req dev'')], dev := d'\<rparr>"
  have sn: "of_nat s + of_nat n = (of_nat (s + n) :: ulong)" by simp
  have cap: "blk_cap d' = blk_cap (dev w)" by (simp add: t(3) blk_cap_def)
  have "seg_sectors E n" "blk_wf (dev ?w)" "fits (s + n) n bs" "never_faults (trace ?w)"
    using Cons.prems t(2) f(3) by simp_all
  from Cons.IH [OF this] obtain w' where "run_state (blk1_segments E True (of_nat (s + n)) bs) ?w = (Some bs, w')"
    "blk_wf (dev w')" "never_faults (trace w')" "\<exists>m. dev w' = d'\<lparr>dev_mem := m\<rparr>"
    "cut (blk_cap (dev w)) (dev_mem (dev w')) = disk_write (cut (blk_cap (dev w)) (dev_mem d')) (s + n) n bs"
    by (auto simp: cap)
  then show ?case
    using t(4) by (auto simp: krun ans t(1,3) sn simp del: of_nat_add)
qed

lemma segments_disk_read:
  assumes "seg_sectors E n" and "blk_wf (dev w)" and "fits s n bss" and "never_faults (trace w)"
  shows "\<exists>w'. run_state (blk1_segments E False (of_nat s) bss) w =
      (Some (disk_read (cut (blk_cap (dev w)) (dev_mem (dev w))) s n bss), w') \<and> dev w' = dev w \<and> never_faults (trace w')"
  using assms
proof (induction bss arbitrary: w s)
  case (Cons b bs)
  have ans: "ret_int E tr Blk_rq_cur_sectors = int n" for tr using Cons.prems by (simp add: seg_sectors_def)
  have f: "(s + n) * 512 < 2 ^ 64" "length b = n * 512" "fits (s + n) n bs"
    using Cons.prems(3) by (auto simp: fits_def algebra_simps)
  note t = transfer_read [OF Cons.prems(2) f(1,2)]
  let ?w = "w\<lparr>trace := trace w @ [RetI Blk_rq_cur_sectors (int n), Void (Printk ''Req dev'')]\<rparr>"
  have sn: "of_nat s + of_nat n = (of_nat (s + n) :: ulong)" by simp
  have "seg_sectors E n" "blk_wf (dev ?w)" "fits (s + n) n bs" "never_faults (trace ?w)"
    using Cons.prems f(3) by simp_all
  from Cons.IH [OF this] show ?case
    by (auto simp: krun ans t sn simp del: of_nat_add)
qed simp

lemma request_disk_write:
  assumes "seg_sectors E n" and "blk_wf (dev w)" and "fits s n bss" and "never_faults (trace w)"
  shows "\<exists>w'. run_state (blk1_request E (blk_rq s True bss)) w = ((BLK_STS_OK, bss), w') \<and> blk_wf (dev w') \<and>
    never_faults (trace w') \<and> (\<exists>m. dev w' = (dev w)\<lparr>dev_mem := m\<rparr>) \<and>
    cut (blk_cap (dev w)) (dev_mem (dev w')) = disk_write (cut (blk_cap (dev w)) (dev_mem (dev w))) s n bss"
  using segments_disk_write [OF assms(1), of "w\<lparr>trace := trace w @ [Void Blk_mq_start_request]\<rparr>" s bss] assms(2-4)
  by (auto simp: blk1_request_def blk_rq_def krun)

lemma request_disk_read:
  assumes "seg_sectors E n" and "blk_wf (dev w)" and "fits s n bss" and "never_faults (trace w)"
  shows "\<exists>w'. run_state (blk1_request E (blk_rq s False bss)) w =
      ((BLK_STS_OK, disk_read (cut (blk_cap (dev w)) (dev_mem (dev w))) s n bss), w') \<and> dev w' = dev w \<and> never_faults (trace w')"
  using segments_disk_read [OF assms(1), of "w\<lparr>trace := trace w @ [Void Blk_mq_start_request]\<rparr>" s bss] assms(2-4)
  by (auto simp: blk1_request_def blk_rq_def krun)

section \<open>The refinement\<close>

lemma open_rel:
  assumes "disk_check_ok c" and "disk_rel w d" and "opens d < 32767"
  shows "disk_rel (final_world (blk1_open c) w) (snd (disk_step Disk_open d))" and "result (blk1_open c) w = 0"
proof -
  have u: "s16 (int (opens d) + 1) = int (opens d) + 1" using assms(3) by (intro s16_id) auto
  have t: "trace (final_world (blk1_open c) w) = trace w @ [Void Del_timer_sync, Void Spin_lock, Void Spin_unlock]"
    by (simp add: blk1_open_def final_world_def krun)
  have wf: "blk_wf (dev w)" using assms(2) by (simp add: disk_rel_def)
  have l: "length (dev_mem (dev w)) = nat (dev_size (dev w))" using wf by (simp add: blk_wf_def)
  have z: "cut (blk_cap (dev w)) (replicate (nat (dev_size (dev w))) 0) = map (\<lambda>_. blank_sector) (cut (blk_cap (dev w)) (dev_mem (dev w)))"
    using cut_replicate [OF cap_mem [OF wf], of 0] by (simp add: l map_replicate_const blank_sector_def)
  show "disk_rel (final_world (blk1_open c) w) (snd (disk_step Disk_open d))"
    using assms u t l z by (auto simp: disk_rel_def disk_step_def open_dev Let_def blk1_revalidate_def blk_wf_def blk_cap_def)
  show "result (blk1_open c) w = 0" by (simp add: blk1_open_def result_def krun)
qed

lemma release_rel:
  assumes "disk_rel w d" and "0 < opens d"
  shows "disk_rel (final_world (blk1_release j hz) w) (snd (disk_step (Disk_release j hz) d))"
proof -
  have u: "s16 (int (opens d) - 1) = int (opens d) - 1" using assms by (intro s16_id) (auto simp: disk_rel_def)
  have "never_faults (trace (final_world (blk1_release j hz) w))"
    using assms(1) by (simp add: disk_rel_def blk1_release_def final_world_def krun)
  then show ?thesis
    using assms u by (auto simp: disk_rel_def disk_step_def release_dev Let_def blk_wf_def blk_cap_def)
qed

lemma timer_rel:
  assumes "disk_rel w d"
  shows "disk_rel (if timer_pending (dev w) then final_world blk1_invalidate w else w) (snd (disk_step Disk_timer d))"
proof -
  have "never_faults (trace (final_world blk1_invalidate w))"
    using assms by (simp add: disk_rel_def blk1_invalidate_def final_world_def krun)
  then show ?thesis
    using assms by (auto simp: disk_rel_def disk_step_def invalidate_dev Let_def blk_wf_def blk_cap_def)
qed

lemma blk_step_rel:
  assumes c: "disk_check_ok c" and envs: "\<forall>n. seg_sectors (envs n) n" and r: "disk_rel w d" and e: "disk_enabled e d"
  shows "fst (blk_step c envs e w) = fst (disk_step e d) \<and> disk_rel (snd (blk_step c envs e w)) (snd (disk_step e d))"
proof -
  have wf: "blk_wf (dev w)" "never_faults (trace w)" "sectors d = cut (blk_cap (dev w)) (dev_mem (dev w))"
    using r by (simp_all add: disk_rel_def)
  have rest: "disk_rel w' (d\<lparr>sectors := cut (blk_cap (dev w)) (dev_mem (dev w'))\<rparr>)"
    if "blk_wf (dev w')" "never_faults (trace w')" "\<exists>m. dev w' = (dev w)\<lparr>dev_mem := m\<rparr>" for w'
    using that r by (auto simp: disk_rel_def blk_cap_def)
  show ?thesis
  proof (cases e)
    case Disk_open
    then show ?thesis using open_rel [OF c r] e by (simp add: blk_step_def disk_step_def disk_enabled_def)
  next
    case (Disk_release j hz)
    then show ?thesis using release_rel [OF r, of j hz] e by (simp add: blk_step_def disk_step_def disk_enabled_def)
  next
    case Disk_timer
    then show ?thesis using timer_rel [OF r] by (simp add: blk_step_def disk_step_def)
  next
    case (Disk_write s n segs)
    then have "fits s n segs" using e by (simp add: disk_enabled_def)
    from request_disk_write [OF envs [rule_format] wf(1) this wf(2)] obtain w'
      where "run_state (blk1_request (envs n) (blk_rq s True segs)) w = ((BLK_STS_OK, segs), w')" "blk_wf (dev w')"
        "never_faults (trace w')" "\<exists>m. dev w' = (dev w)\<lparr>dev_mem := m\<rparr>"
        "cut (blk_cap (dev w)) (dev_mem (dev w')) = disk_write (sectors d) s n segs"
      by (auto simp: wf(3))
    then show ?thesis using rest [of w'] by (simp add: Disk_write blk_step_def disk_step_def)
  next
    case (Disk_read s n bufs)
    then have "fits s n bufs" using e by (simp add: disk_enabled_def)
    from request_disk_read [OF envs [rule_format] wf(1) this wf(2)] obtain w'
      where "run_state (blk1_request (envs n) (blk_rq s False bufs)) w = ((BLK_STS_OK, disk_read (sectors d) s n bufs), w')"
        "dev w' = dev w" "never_faults (trace w')"
      by (auto simp: wf(3))
    then show ?thesis using r by (simp add: Disk_read blk_step_def disk_step_def disk_rel_def)
  next
    case (Disk_passthrough segs)
    then show ?thesis
      using r by (simp add: blk_step_def disk_step_def disk_rel_def blk1_request_def blk_rq_def krun)
  qed
qed

interpretation blk_disk: simulation "blk_step c envs" disk_step disk_enabled
    "\<lambda>w d. disk_check_ok c \<and> (\<forall>n. seg_sectors (envs n) n) \<and> disk_rel w d" for c envs
  by unfold_locales (use blk_step_rel in blast)+

text \<open>
  C2. The block driver is a removable disk for the kernel that keeps to \<open>disk_enabled\<close>: opens (fewer than 32767 at a time) and releases of
  open devices, the idle timer, and read and write requests whose segments all have the same length and whose byte range, inside the
  device or beyond its end, does not wrap around 64 bits. For every sequence of these events every answer, data included, is
  the answer of the specification, and no handler touches memory outside the device or the buffers it was given. (Requests with
  segments of different lengths and with ranges that wrap are not served correctly: \<open>blk1_request_uneven_segments\<close>,
  \<open>blk1_transfer_wraps\<close>.)
\<close>

theorem blk1_refines_disk:
  assumes "disk_check_ok c" and "\<forall>n. seg_sectors (envs n) n" and "disk_rel w d" and "allowed disk_enabled disk_step es d"
  shows "fst (replay (blk_step c envs) es w) = fst (replay disk_step es d) \<and>
    disk_rel (snd (replay (blk_step c envs) es w)) (snd (replay disk_step es d)) \<and>
    never_faults (trace (snd (replay (blk_step c envs) es w)))"
  using blk_disk.replay_refines [of c envs w d es] assms by (simp add: disk_rel_def)

definition fixed_env :: "nat \<Rightarrow> bcall kenv" where
  "fixed_env n = test_env\<lparr>ret_int := \<lambda>tr c. case c of Blk_rq_cur_sectors \<Rightarrow> int n | _ \<Rightarrow> 0\<rparr>"

definition test_disk :: disk where
  "test_disk = \<lparr>sectors = replicate 4 blank_sector, opens = 0, armed = False, changed = False\<rparr>"

lemma test_disk_rel: "disk_rel test_world test_disk"
  using cut_replicate [of 4 2048 0] test_world_ready test_world_ok
  by (simp add: disk_rel_def blk_ready_def test_disk_def) (simp add: test_world_def blank_dev_def blank_sector_def)

theorem blk1_refines_disk_witness:
  "map fst (fst (replay (blk_step std_check fixed_env)
     [Disk_open, Disk_write 3 1 [replicate 512 7, replicate 512 9], Disk_release 0 250, Disk_timer, Disk_open,
      Disk_read 3 1 [replicate 512 1, replicate 512 2]] test_world)) = [0, 0, 0, 0, 0, 0] \<and>
   snd (last (fst (replay (blk_step std_check fixed_env)
     [Disk_open, Disk_write 3 1 [replicate 512 7, replicate 512 9], Disk_release 0 250, Disk_timer, Disk_open,
      Disk_read 3 1 [replicate 512 1, replicate 512 2]] test_world))) = [blank_sector, replicate 512 2]"
proof -
  let ?es = "[Disk_open, Disk_write 3 1 [replicate 512 7, replicate 512 9], Disk_release 0 250, Disk_timer, Disk_open,
      Disk_read 3 1 [replicate 512 1, replicate 512 (2 :: byte)]]"
  have e: "\<forall>n. seg_sectors (fixed_env n) n" by (simp add: seg_sectors_def fixed_env_def)
  have a: "allowed disk_enabled disk_step ?es test_disk"
    by (simp add: disk_enabled_def disk_step_def test_disk_def fits_def)
  have "map fst (fst (replay disk_step ?es test_disk)) = [0, 0, 0, 0, 0, 0] \<and>
      snd (last (fst (replay disk_step ?es test_disk))) = [blank_sector, replicate 512 2]"
    by (simp add: disk_step_def test_disk_def BLK_STS_OK_def cut_one del: replicate.simps)
  then show ?thesis using blk1_refines_disk [OF std_check_ok e test_disk_rel a] by simp
qed

section \<open>From the load on\<close>

text \<open>\<open>fresh\<close> is what \<^verbatim>\<open>vmalloc\<close> returns: as long as it was asked for, not cleared.\<close>

definition disk_of :: "int \<Rightarrow> byte list \<Rightarrow> disk" where
  "disk_of sz fresh = \<lparr>sectors = cut (nat sz div 512) fresh, opens = 0, armed = False, changed = False\<rparr>"

lemma setup_ready:
  assumes "blk_good E" and "dev_data (dev (final_world (setup_device E fresh) w)) \<noteq> Null"
  shows "dev_size (dev (final_world (setup_device E fresh) w)) = s32 (nsectors w * hardsect_size w)"
    and "dev_mem (dev (final_world (setup_device E fresh) w)) = fresh"
    and "dev_users (dev (final_world (setup_device E fresh) w)) = 0"
    and "dev_media_change (dev (final_world (setup_device E fresh) w)) = 0"
    and "\<not> timer_pending (dev (final_world (setup_device E fresh) w))"
    and "never_faults (trace (final_world (setup_device E fresh) w)) = never_faults (trace w)"
proof -
  have ne: "\<not> IS_ERR (ret_ptr E tr k)" "ret_ptr E tr (Blk_mq_init_sq_queue n) \<noteq> Null" "ret_ptr E tr (Alloc_disk n) \<noteq> Null"
    for tr k n using assms(1) by (simp_all add: blk_good_def no_err_ptr_def)
  note run = setup_device_def final_world_def krun ne
  have v: "ret_ptr E (trace w) (Vmalloc (s32 (nsectors w * hardsect_size w))) \<noteq> Null"
    using assms(2) by (rule contrapos_nn) (simp add: run)
  show "dev_size (dev (final_world (setup_device E fresh) w)) = s32 (nsectors w * hardsect_size w)" using v by (simp add: run)
  show "dev_mem (dev (final_world (setup_device E fresh) w)) = fresh" using v by (simp add: run)
  show "dev_users (dev (final_world (setup_device E fresh) w)) = 0" using v by (simp add: run blank_dev_def)
  show "dev_media_change (dev (final_world (setup_device E fresh) w)) = 0" using v by (simp add: run blank_dev_def)
  show "\<not> timer_pending (dev (final_world (setup_device E fresh) w))" using v by (simp add: run blank_dev_def)
  show "never_faults (trace (final_world (setup_device E fresh) w)) = never_faults (trace w)" using v by (simp add: run)
qed

lemma init_setup:
  assumes "run_state (blk1_init fresh E) w = (0, w')"
  shows "\<exists>w1. w' = final_world (setup_device E fresh) w1 \<and> nsectors w1 = nsectors w \<and> hardsect_size w1 = hardsect_size w \<and>
    never_faults (trace w1) = never_faults (trace w)"
  using assms by (auto simp: blk1_init_def final_world_def krun case_prod_beta split: if_splits)

lemma loaded_disk:
  assumes "blk_good E" and "run_state (blk1_init fresh E) w = (0, w')" and "dev_data (dev w') \<noteq> Null" and "never_faults (trace w)"
    and "0 \<le> s32 (nsectors w * hardsect_size w)" and "length fresh = nat (s32 (nsectors w * hardsect_size w))"
  shows "disk_rel w' (disk_of (s32 (nsectors w * hardsect_size w)) fresh)"
proof -
  obtain w1 where w': "w' = final_world (setup_device E fresh) w1" "nsectors w1 = nsectors w" "hardsect_size w1 = hardsect_size w"
    "never_faults (trace w1) = never_faults (trace w)"
    using init_setup [OF assms(2)] by blast
  have "s32 (nsectors w * hardsect_size w) < 2 ^ 31" using s32_range by blast
  then show ?thesis
    using setup_ready [OF assms(1), of fresh w1] w' assms(3-6) by (simp add: disk_rel_def disk_of_def blk_wf_def blk_cap_def)
qed

text \<open>
  C11. A device that was set up is a disk for good. The load returns 0 even when the setup failed; so for a load that got its memory
  (\<open>dev_data\<close> is not \<open>NULL\<close>) from a kernel whose other calls succeed (\<open>blk_good\<close>), with parameters whose
  product is a valid size: every sequence of events that \<open>disk_enabled\<close> allows (requests with segments of one length and without wrap-around)
  keeps the device structure well formed (the memory as long as its size, a user count that is
  the number of opens), is answered as the disk with the fresh memory would, and never faults.
\<close>

theorem blk1_loaded_is_disk:
  assumes "blk_good E" and "run_state (blk1_init fresh E) w = (0, w')" and "dev_data (dev w') \<noteq> Null" and "never_faults (trace w)"
    and "0 \<le> s32 (nsectors w * hardsect_size w)" and "length fresh = nat (s32 (nsectors w * hardsect_size w))"
    and "disk_check_ok c" and "\<forall>n. seg_sectors (envs n) n"
    and "allowed disk_enabled disk_step es (disk_of (s32 (nsectors w * hardsect_size w)) fresh)"
  shows "let w'' = snd (replay (blk_step c envs) es w'); d = disk_of (s32 (nsectors w * hardsect_size w)) fresh in
    fst (replay (blk_step c envs) es w') = fst (replay disk_step es d) \<and> blk_wf (dev w'') \<and> never_faults (trace w'') \<and>
    dev_users (dev w'') = int (opens (snd (replay disk_step es d)))"
proof -
  let ?d = "disk_of (s32 (nsectors w * hardsect_size w)) fresh"
  have "disk_rel w' ?d" using assms(1-6) by (rule loaded_disk)
  with blk_disk.replay_refines [of c envs w' ?d es] assms(7-9) show ?thesis
    by (auto simp: disk_rel_def Let_def)
qed

definition plain_world :: bworld where
  "plain_world = test_world\<lparr>dev := blank_dev\<rparr>"

definition load_env :: "bcall kenv" where
  "load_env = test_env\<lparr>ret_int := \<lambda>tr c. case c of Register_blkdev m _ \<Rightarrow> if m = 0 then 252 else 0 | _ \<Rightarrow> 0\<rparr>"

theorem blk1_loaded_is_disk_witness:
  "let w = final_world (blk1_init (replicate 2048 5) load_env) plain_world in
   fst (replay (blk_step std_check fixed_env) [Disk_open, Disk_read 1 1 [blank_sector]] w) =
     [(0, []), (0, [replicate 512 5])]"
proof -
  let ?w = "final_world (blk1_init (replicate 2048 5) load_env) plain_world"
  have e: "\<forall>n. seg_sectors (fixed_env n) n" by (simp add: seg_sectors_def fixed_env_def)
  have g: "blk_good load_env" unfolding load_env_def by (rule test_env_good)
  have r: "run_state (blk1_init (replicate 2048 5) load_env) plain_world = (0, ?w)" "dev_data (dev ?w) \<noteq> Null"
    by (simp_all add: final_world_def blk1_init_def setup_device_def krun plain_world_def test_world_def load_env_def test_env_def)
  have z: "s32 (nsectors plain_world * hardsect_size plain_world) = 2048" "never_faults (trace plain_world)"
    by (simp_all add: plain_world_def test_world_def s32_id)
  have d: "disk_of 2048 (replicate 2048 5) = \<lparr>sectors = replicate 4 (replicate 512 5), opens = 0, armed = False, changed = False\<rparr>"
    using cut_replicate [of 4 2048 5] by (simp add: disk_of_def)
  have a: "allowed disk_enabled disk_step [Disk_open, Disk_read 1 1 [blank_sector]] (disk_of 2048 (replicate 2048 5))"
    by (simp add: disk_enabled_def disk_step_def d fits_def blank_sector_def)
  have "fst (replay disk_step [Disk_open, Disk_read 1 1 [blank_sector]] (disk_of 2048 (replicate 2048 5))) =
      [(0, []), (0, [replicate 512 5])]"
    by (simp add: disk_step_def d BLK_STS_OK_def)
  then show ?thesis
    using blk1_loaded_is_disk [OF g r z(2) _ _ std_check_ok e, of "[Disk_open, Disk_read 1 1 [blank_sector]]"] a
    by (simp add: z Let_def)
qed

end
