(* ===== verification/Sync_Machine.thy ===== *)
theory Sync_Machine
  imports Kernel_Prelude
begin

text \<open>
  Two kernel threads over shared memory. The synchronisation exercises
  (\<^verbatim>\<open>Spinlock/spin1.c\<close>, \<^verbatim>\<open>Spinlock/spin2.c\<close>, \<^verbatim>\<open>SeqLock/seqlock1.c\<close>, \<^verbatim>\<open>Atomic/atomic1.c\<close>,
  \<^verbatim>\<open>Mutex/mtx1.c\<close>, \<^verbatim>\<open>Semaphore/sem1.c\<close>) each run two threads that share one counter. A
  thread function is a list of the statements of its loop; \<open>exec\<close> gives the meaning of one
  statement, and \<open>reach\<close> interleaves the two threads statement by statement. The increment
  of an ordinary variable is a load followed by a store, so an unprotected increment can
  lose an update.

  The lock primitives belong to the kernel. They are a parameter \<open>L\<close> (a record of
  functions on an unknown lock state), used under the hypothesis \<open>lock_ok\<close>, the
  documented behaviour of a lock with one writer or many readers.

  \<open>disciplined\<close> is the interface between the thread functions and the argument that they
  are correct: the locale takes two programs that pass a static check of their lock usage
  and proves mutual exclusion, exact counting and absence of deadlock once for all of them.
\<close>

section \<open>Programs\<close>

datatype instr =
    Should_stop
  | If_unlocked string
  | If_locked string
  | Lock_w
  | Unlock_w
  | Lock_r
  | Unlock_r
  | Down
  | Up
  | Load
  | Store_inc
  | Print string
  | Atomic_inc
  | Test_and_change_bit nat
  | Print_atomic string
  | Seq_begin
  | Seq_retry nat
  | Print_local string
  | Msleep
  | Again

record 'l prims =
  take_w :: "'l \<Rightarrow> 'l option"
  drop_w :: "'l \<Rightarrow> 'l"
  take_r :: "'l \<Rightarrow> 'l option"
  drop_r :: "'l \<Rightarrow> 'l"
  is_locked :: "'l \<Rightarrow> bool"
  seqno :: "'l \<Rightarrow> 32 word"

text \<open>
  The state of the system: the lock, the shared variables (\<open>gvar\<close> is the
  \<^verbatim>\<open>unsigned long test_global_variable\<close>, \<open>avar\<close> its atomic counterpart, \<open>bits\<close> the word
  \<^verbatim>\<open>etc_bit_check\<close>), and for each thread its position, its local variables, whether it was
  asked to stop, and how many increments it has carried out. \<open>log\<close> holds the values printed.
\<close>

record 'l sys =
  lk :: "'l"
  gvar :: ulong
  avar :: u32
  bits :: u32
  pc :: "tid \<Rightarrow> nat"
  reg :: "tid \<Rightarrow> ulong"
  seq :: "tid \<Rightarrow> u32"
  prev_bit :: "tid \<Rightarrow> bool"
  stop :: "tid \<Rightarrow> bool"
  incs :: "tid \<Rightarrow> nat"
  log :: "(tid \<times> string \<times> nat list) list"

definition start :: "'l \<Rightarrow> 'l sys" where
  "start l = \<lparr>lk = l, gvar = 0, avar = 0, bits = 0, pc = (\<lambda>_. 0), reg = (\<lambda>_. 0), seq = (\<lambda>_. 0),
     prev_bit = (\<lambda>_. False), stop = (\<lambda>_. False), incs = (\<lambda>_. 0), log = []\<rparr>"

definition goto :: "tid \<Rightarrow> nat \<Rightarrow> 'l sys \<Rightarrow> 'l sys" where
  "goto t i s = s\<lparr>pc := (pc s)(t := i)\<rparr>"

definition fall :: "tid \<Rightarrow> 'l sys \<Rightarrow> 'l sys" where
  "fall t s = goto t (Suc (pc s t)) s"

definition say :: "tid \<Rightarrow> string \<Rightarrow> nat list \<Rightarrow> 'l sys \<Rightarrow> 'l sys" where
  "say t msg v s = s\<lparr>log := log s @ [(t, msg, v)]\<rparr>"

text \<open>
  One statement. \<open>None\<close>: the thread cannot go on now (it spins or sleeps on a lock).
  \<open>sig\<close> says that a signal ends an interruptible wait; the programs ignore that result.
  \<open>n\<close> is the length of the program, the position after the loop.
\<close>

fun exec :: "'l prims \<Rightarrow> nat \<Rightarrow> bool \<Rightarrow> instr \<Rightarrow> tid \<Rightarrow> 'l sys \<Rightarrow> 'l sys option" where
  "exec L n sig Should_stop t s = Some (if stop s t then goto t n s else fall t s)"
| "exec L n sig (If_unlocked m) t s = Some (fall t (if is_locked L (lk s) then s else say t m [] s))"
| "exec L n sig (If_locked m) t s = Some (fall t (if is_locked L (lk s) then say t m [] s else s))"
| "exec L n sig Lock_w t s = map_option (\<lambda>l. fall t (s\<lparr>lk := l\<rparr>)) (take_w L (lk s))"
| "exec L n sig Unlock_w t s = Some (fall t (s\<lparr>lk := drop_w L (lk s)\<rparr>))"
| "exec L n sig Lock_r t s = map_option (\<lambda>l. fall t (s\<lparr>lk := l\<rparr>)) (take_r L (lk s))"
| "exec L n sig Unlock_r t s = Some (fall t (s\<lparr>lk := drop_r L (lk s)\<rparr>))"
| "exec L n sig Down t s =
     (if sig then Some (fall t s)
      else map_option (\<lambda>l. fall t (s\<lparr>lk := l\<rparr>)) (take_w L (lk s)))"
| "exec L n sig Up t s = Some (fall t (s\<lparr>lk := drop_w L (lk s)\<rparr>))"
| "exec L n sig Load t s = Some (fall t (s\<lparr>reg := (reg s)(t := gvar s)\<rparr>))"
| "exec L n sig Store_inc t s =
     Some (fall t (s\<lparr>gvar := reg s t + 1, incs := (incs s)(t := Suc (incs s t))\<rparr>))"
| "exec L n sig (Print m) t s = Some (fall t (say t m [unat (gvar s)] s))"
| "exec L n sig Atomic_inc t s =
     Some (fall t (s\<lparr>avar := avar s + 1, incs := (incs s)(t := Suc (incs s t))\<rparr>))"
| "exec L n sig (Test_and_change_bit b) t s =
     Some (fall t (s\<lparr>prev_bit := (prev_bit s)(t := bit (bits s) b), bits := flip_bit b (bits s)\<rparr>))"
| "exec L n sig (Print_atomic m) t s =
     Some (fall t (say t m [unat (avar s), of_bool (prev_bit s t)] s))"
| "exec L n sig Seq_begin t s =
     (if bit (seqno L (lk s)) 0 then None
      else Some (fall t (s\<lparr>seq := (seq s)(t := seqno L (lk s))\<rparr>)))"
| "exec L n sig (Seq_retry i) t s =
     Some (if seqno L (lk s) \<noteq> seq s t then goto t i s else fall t s)"
| "exec L n sig (Print_local m) t s = Some (fall t (say t m [unat (reg s t)] s))"
| "exec L n sig Msleep t s = Some (fall t s)"
| "exec L n sig Again t s = Some (goto t 0 s)"

type_synonym program = "tid \<Rightarrow> instr list"

definition thread_step :: "'l prims \<Rightarrow> program \<Rightarrow> bool \<Rightarrow> tid \<Rightarrow> 'l sys \<Rightarrow> 'l sys option" where
  "thread_step L P sig t s =
     (if pc s t < length (P t) then exec L (length (P t)) sig (P t ! pc s t) t s else None)"

text \<open>
  The reachable states: threads take turns in any order, and \<^verbatim>\<open>kthread_stop\<close> may ask a thread
  to stop at any time. \<open>sg\<close> says whether signals may interrupt a wait.
\<close>

inductive reach :: "'l prims \<Rightarrow> program \<Rightarrow> bool \<Rightarrow> 'l \<Rightarrow> 'l sys \<Rightarrow> bool"
  for L :: "'l prims" and P :: program and sg :: bool and l0 :: 'l where
  reach_start: "reach L P sg l0 (start l0)"
| reach_step: "reach L P sg l0 s \<Longrightarrow> (sig \<longrightarrow> sg) \<Longrightarrow> thread_step L P sig t s = Some s' \<Longrightarrow>
    reach L P sg l0 s'"
| reach_stop: "reach L P sg l0 s \<Longrightarrow> reach L P sg l0 (s\<lparr>stop := (stop s)(t := True)\<rparr>)"

text \<open>A schedule, for concrete runs.\<close>

fun run_sched :: "'l prims \<Rightarrow> program \<Rightarrow> (tid \<times> bool) list \<Rightarrow> 'l sys \<Rightarrow> 'l sys option" where
  "run_sched L P [] s = Some s"
| "run_sched L P ((t, sig) # ts) s =
     (case thread_step L P sig t s of None \<Rightarrow> None | Some s' \<Rightarrow> run_sched L P ts s')"

lemma run_sched_reach:
  "run_sched L P ts s = Some s' \<Longrightarrow> reach L P sg l0 s \<Longrightarrow> (\<forall>x\<in>set ts. snd x \<longrightarrow> sg) \<Longrightarrow>
     reach L P sg l0 s'"
proof (induction ts arbitrary: s)
  case (Cons x ts)
  then show ?case
    by (cases x) (auto split: option.splits intro: reach.reach_step)
qed simp

lemma goto_simps [simp]:
  "pc (goto t i s) = (pc s)(t := i)" "lk (goto t i s) = lk s" "gvar (goto t i s) = gvar s"
  "reg (goto t i s) = reg s" "incs (goto t i s) = incs s" "avar (goto t i s) = avar s"
  "bits (goto t i s) = bits s" "seq (goto t i s) = seq s" "log (goto t i s) = log s"
  "prev_bit (goto t i s) = prev_bit s" "stop (goto t i s) = stop s"
  by (simp_all add: goto_def)

lemma fall_simps [simp]:
  "pc (fall t s) = (pc s)(t := Suc (pc s t))" "lk (fall t s) = lk s" "gvar (fall t s) = gvar s"
  "reg (fall t s) = reg s" "incs (fall t s) = incs s" "avar (fall t s) = avar s"
  "bits (fall t s) = bits s" "seq (fall t s) = seq s" "log (fall t s) = log s"
  "prev_bit (fall t s) = prev_bit s" "stop (fall t s) = stop s"
  by (simp_all add: fall_def)

lemma say_simps [simp]:
  "pc (say t m v s) = pc s" "lk (say t m v s) = lk s" "gvar (say t m v s) = gvar s"
  "reg (say t m v s) = reg s" "incs (say t m v s) = incs s" "avar (say t m v s) = avar s"
  "bits (say t m v s) = bits s" "seq (say t m v s) = seq s"
  "log (say t m v s) = log s @ [(t, m, v)]"
  "prev_bit (say t m v s) = prev_bit s" "stop (say t m v s) = stop s"
  by (simp_all add: say_def)

section \<open>What a lock promises\<close>

definition lock_ok :: "'l prims \<Rightarrow> ('l \<Rightarrow> int) \<Rightarrow> ('l \<Rightarrow> nat) \<Rightarrow> bool" where
  "lock_ok L held readers \<longleftrightarrow>
     (\<forall>l. take_w L l = None \<longleftrightarrow> \<not> (held l < 1 \<and> readers l = 0)) \<and>
     (\<forall>l l'. take_w L l = Some l' \<longrightarrow> held l' = held l + 1 \<and> readers l' = readers l) \<and>
     (\<forall>l. 1 \<le> held l \<longrightarrow> held (drop_w L l) = held l - 1 \<and> readers (drop_w L l) = readers l) \<and>
     (\<forall>l. take_r L l = None \<longleftrightarrow> \<not> held l < 1) \<and>
     (\<forall>l l'. take_r L l = Some l' \<longrightarrow> held l' = held l \<and> readers l' = readers l + 1) \<and>
     (\<forall>l. 1 \<le> readers l \<longrightarrow> held (drop_r L l) = held l \<and> readers (drop_r L l) = readers l - 1) \<and>
     (\<forall>l. is_locked L l \<longleftrightarrow> 1 \<le> held l)"

lemma lock_okD:
  assumes "lock_ok L held readers"
  shows "take_w L l = None \<longleftrightarrow> \<not> (held l < 1 \<and> readers l = 0)"
    and "take_w L l = Some l' \<Longrightarrow> held l < 1 \<and> readers l = 0 \<and> held l' = held l + 1 \<and> readers l' = 0"
    and "1 \<le> held l \<Longrightarrow> held (drop_w L l) = held l - 1 \<and> readers (drop_w L l) = readers l"
    and "take_r L l = None \<longleftrightarrow> \<not> held l < 1"
    and "take_r L l = Some l' \<Longrightarrow> held l < 1 \<and> held l' = held l \<and> readers l' = readers l + 1"
    and "1 \<le> readers l \<Longrightarrow> held (drop_r L l) = held l \<and> readers (drop_r L l) = readers l - 1"
    and "is_locked L l \<longleftrightarrow> 1 \<le> held l"
proof -
  note a = assms [unfolded lock_ok_def]
  show "take_w L l = None \<longleftrightarrow> \<not> (held l < 1 \<and> readers l = 0)" using a by blast
  show "take_r L l = None \<longleftrightarrow> \<not> held l < 1" using a by blast
  show "is_locked L l \<longleftrightarrow> 1 \<le> held l" using a by blast
  show "take_w L l = Some l' \<Longrightarrow> held l < 1 \<and> readers l = 0 \<and> held l' = held l + 1 \<and> readers l' = 0"
    using a by (metis option.distinct(1))
  show "take_r L l = Some l' \<Longrightarrow> held l < 1 \<and> held l' = held l \<and> readers l' = readers l + 1"
    using a by (metis option.distinct(1))
  show "1 \<le> held l \<Longrightarrow> held (drop_w L l) = held l - 1 \<and> readers (drop_w L l) = readers l"
    using a by blast
  show "1 \<le> readers l \<Longrightarrow> held (drop_r L l) = held l \<and> readers (drop_r L l) = readers l - 1"
    using a by blast
qed

section \<open>Lock discipline\<close>

text \<open>
  What a thread holds before a statement, and whether its register holds the current value
  of the shared variable. \<open>after\<close> is undefined where a statement breaks the discipline: a
  shared access without the lock, sleeping or leaving the loop with the lock held, a
  second acquisition.
\<close>

datatype lmode = Free | RHeld | WHeld

fun after :: "instr \<Rightarrow> lmode \<times> bool \<Rightarrow> (lmode \<times> bool) option" where
  "after Should_stop (m, f) = (if m = Free then Some (Free, False) else None)"
| "after (If_unlocked _) (m, f) = Some (m, f)"
| "after (If_locked _) (m, f) = Some (m, f)"
| "after Lock_w (m, f) = (if m = Free then Some (WHeld, False) else None)"
| "after Down (m, f) = (if m = Free then Some (WHeld, False) else None)"
| "after Unlock_w (m, f) = (if m = WHeld then Some (Free, False) else None)"
| "after Up (m, f) = (if m = WHeld then Some (Free, False) else None)"
| "after Lock_r (m, f) = (if m = Free then Some (RHeld, False) else None)"
| "after Unlock_r (m, f) = (if m = RHeld then Some (Free, False) else None)"
| "after Load (m, f) = (if m = WHeld then Some (WHeld, True) else None)"
| "after Store_inc (m, f) = (if m = WHeld \<and> f then Some (WHeld, False) else None)"
| "after (Print _) (m, f) = (if m = Free then None else Some (m, f))"
| "after Msleep (m, f) = (if m = Free then Some (Free, False) else None)"
| "after Again (m, f) = (if m = Free then Some (Free, False) else None)"
| "after _ _ = None"

primrec ann :: "instr list \<Rightarrow> nat \<Rightarrow> (lmode \<times> bool) option" where
  "ann P 0 = Some (Free, False)"
| "ann P (Suc i) = Option.bind (ann P i) (after (P ! i))"

definition disc :: "instr list \<Rightarrow> bool" where
  "disc P \<longleftrightarrow> P \<noteq> [] \<and> list_all (\<lambda>i. ann P (Suc i) \<noteq> None) [0..<length P]
     \<and> last P = Again \<and> Again \<notin> set (butlast P)"

definition mode :: "instr list \<Rightarrow> nat \<Rightarrow> lmode" where
  "mode P i = fst (the (ann P i))"

definition loaded :: "instr list \<Rightarrow> nat \<Rightarrow> bool" where
  "loaded P i = snd (the (ann P i))"

definition other :: "tid \<Rightarrow> tid" where
  "other t = (case t of T1 \<Rightarrow> T2 | T2 \<Rightarrow> T1)"

lemma other_simps [simp]: "other T1 = T2" "other T2 = T1" "other t \<noteq> t" "t \<noteq> other t" "other (other t) = t"
  by (cases t; simp add: other_def)+

lemma tid_cases_other: "u = t \<or> u = other t"
  by (cases u; cases t; simp)

lemma disc_ann: "disc P \<Longrightarrow> i \<le> length P \<Longrightarrow> ann P i \<noteq> None"
  by (cases i) (auto simp: disc_def list_all_iff)

lemma disc_next:
  assumes "disc P" and "i < length P"
  shows "after (P ! i) (mode P i, loaded P i) = Some (mode P (Suc i), loaded P (Suc i))"
proof -
  obtain m f where a: "ann P i = Some (m, f)"
    using disc_ann [of P i] assms by (cases "ann P i") auto
  then show ?thesis
    using disc_ann [of P "Suc i"] assms by (cases "after (P ! i) (m, f)") (auto simp: mode_def loaded_def)
qed

lemma disc_start [simp]: "mode P 0 = Free" "loaded P 0 = False"
  by (simp_all add: mode_def loaded_def)

lemma disc_end:
  assumes "disc P"
  shows "mode P (length P) = Free \<and> \<not> loaded P (length P)"
proof -
  have l: "length P - 1 < length P" "P ! (length P - 1) = Again" "Suc (length P - 1) = length P"
    using assms by (auto simp: disc_def last_conv_nth)
  then show ?thesis
    using disc_next [OF assms l(1)] by (auto split: if_splits)
qed

text \<open>
  The invariant, from the point of view of one thread (mode \<open>m\<close>, freshness \<open>f\<close>, register \<open>x\<close>)
  and the other one (primed).
\<close>

definition core :: "lmode \<Rightarrow> bool \<Rightarrow> ulong \<Rightarrow> lmode \<Rightarrow> bool \<Rightarrow> ulong \<Rightarrow> int \<Rightarrow> nat \<Rightarrow> ulong \<Rightarrow> nat \<Rightarrow> bool" where
  "core m f x m' f' x' h r g n \<longleftrightarrow>
     (m = WHeld \<longrightarrow> m' = Free) \<and> (m' = WHeld \<longrightarrow> m = Free) \<and>
     h = of_bool (m = WHeld) + of_bool (m' = WHeld) \<and>
     r = of_bool (m = RHeld) + of_bool (m' = RHeld) \<and>
     (f \<longrightarrow> m = WHeld \<and> x = g) \<and> (f' \<longrightarrow> m' = WHeld \<and> x' = g) \<and> g = of_nat n"

abbreviation tmode :: "program \<Rightarrow> 'l sys \<Rightarrow> tid \<Rightarrow> lmode" where
  "tmode P s t \<equiv> mode (P t) (pc s t)"

abbreviation tloaded :: "program \<Rightarrow> 'l sys \<Rightarrow> tid \<Rightarrow> bool" where
  "tloaded P s t \<equiv> loaded (P t) (pc s t)"

definition sys_inv :: "('l \<Rightarrow> int) \<Rightarrow> ('l \<Rightarrow> nat) \<Rightarrow> program \<Rightarrow> 'l sys \<Rightarrow> bool" where
  "sys_inv held readers P s \<longleftrightarrow>
     pc s T1 \<le> length (P T1) \<and> pc s T2 \<le> length (P T2) \<and>
     core (tmode P s T1) (tloaded P s T1) (reg s T1) (tmode P s T2) (tloaded P s T2) (reg s T2)
       (held (lk s)) (readers (lk s)) (gvar s) (incs s T1 + incs s T2)"

lemma core_swap: "core m f x m' f' x' h r g n = core m' f' x' m f x h r g n"
  by (auto simp: core_def)

lemma sys_inv_at:
  "sys_inv held readers P s \<longleftrightarrow>
     pc s t \<le> length (P t) \<and> pc s (other t) \<le> length (P (other t)) \<and>
     core (tmode P s t) (tloaded P s t) (reg s t)
       (tmode P s (other t)) (tloaded P s (other t)) (reg s (other t))
       (held (lk s)) (readers (lk s)) (gvar s) (incs s t + incs s (other t))"
  by (cases t) (auto simp: sys_inv_def core_swap [of "tmode P s T2"] add.commute)

lemma core_quiet:
  assumes "core m f x m' f' x' h r g n" and "x2 = x" "h2 = h" "r2 = r" "g2 = g" "n2 = n"
    and "(m2, f2) = (m, f) \<or> m = Free \<and> m2 = Free \<and> \<not> f2"
  shows "core m2 f2 x2 m' f' x' h2 r2 g2 n2"
  using assms by (auto simp: core_def)

text \<open>What one step does, for the moving thread: its mode follows the discipline.\<close>

lemma core_step:
  assumes L: "lock_ok L held readers"
    and c: "core m f (reg s t) m' f' x' (held (lk s)) (readers (lk s)) (gvar s) (incs s t + k)"
    and a: "after ins (m, f) = Some (m2, f2)"
    and ex: "exec L n False ins t s = Some s'"
    and jump: "ins = Should_stop \<or> ins = Again \<Longrightarrow> m2 = Free \<and> \<not> f2"
  shows "core m2 f2 (reg s' t) m' f' x' (held (lk s')) (readers (lk s')) (gvar s') (incs s' t + k)"
proof (cases ins)
  case Lock_w
  then show ?thesis using c a ex lock_okD(2) [OF L, of "lk s"]
    by (cases m') (auto simp: core_def split: if_splits)
next
  case Down
  then show ?thesis using c a ex lock_okD(2) [OF L, of "lk s"]
    by (cases m') (auto simp: core_def split: if_splits)
next
  case Lock_r
  then show ?thesis using c a ex lock_okD(5) [OF L, of "lk s"]
    by (auto simp: core_def split: if_splits)
next
  case Unlock_w
  then show ?thesis using c a ex lock_okD(3) [OF L, of "lk s"]
    by (auto simp: core_def split: if_splits)
next
  case Up
  then show ?thesis using c a ex lock_okD(3) [OF L, of "lk s"]
    by (auto simp: core_def split: if_splits)
next
  case Unlock_r
  then show ?thesis using c a ex lock_okD(6) [OF L, of "lk s"]
    by (auto simp: core_def split: if_splits)
next
  case Load
  then have "m = WHeld" "m2 = WHeld" "f2" and s': "s' = fall t (s\<lparr>reg := (reg s)(t := gvar s)\<rparr>)"
    using a ex by (auto split: if_splits)
  moreover have "\<not> f'" using c \<open>m = WHeld\<close> by (auto simp: core_def)
  ultimately show ?thesis using c by (simp add: core_def)
next
  case Store_inc
  then have "m = WHeld" "f" "m2 = WHeld" "\<not> f2"
    and s': "s' = fall t (s\<lparr>gvar := reg s t + 1, incs := (incs s)(t := Suc (incs s t))\<rparr>)"
    using a ex by (auto split: if_splits)
  moreover have "\<not> f'" using c \<open>m = WHeld\<close> by (auto simp: core_def)
  ultimately show ?thesis using c by (simp add: core_def)
qed (rule core_quiet [OF c], use a ex in \<open>auto split: if_splits\<close>)+

lemma exec_pc:
  assumes "exec L n sig ins t s = Some s'" and "after ins mf \<noteq> None"
  shows "pc s' t = (case ins of Should_stop \<Rightarrow> if stop s t then n else Suc (pc s t)
      | Again \<Rightarrow> 0 | _ \<Rightarrow> Suc (pc s t)) \<and> pc s' (other t) = pc s (other t)
    \<and> reg s' (other t) = reg s (other t) \<and> incs s' (other t) = incs s (other t)"
  using assms by (cases ins; cases mf) (auto split: if_splits)

locale disciplined =
  fixes P :: program
  assumes disciplined: "disc (P T1)" "disc (P T2)"
begin

lemma disc_P: "disc (P t)"
  using disciplined by (cases t) simp_all

lemma inv_start:
  assumes "held l0 = 0" "readers l0 = 0"
  shows "sys_inv held readers P (start l0)"
  using assms by (simp add: sys_inv_def start_def core_def)

lemma inv_step:
  assumes L: "lock_ok L held readers" and i: "sys_inv held readers P s"
    and st: "thread_step L P False t s = Some s'"
  shows "sys_inv held readers P s'"
proof -
  let ?i = "pc s t" and ?Q = "P t"
  have lt: "?i < length ?Q" and ex: "exec L (length ?Q) False (?Q ! ?i) t s = Some s'"
    using st by (auto simp: thread_step_def split: if_splits)
  have n: "after (?Q ! ?i) (mode ?Q ?i, loaded ?Q ?i) = Some (mode ?Q (Suc ?i), loaded ?Q (Suc ?i))"
    by (rule disc_next [OF disc_P lt])
  note pc' = exec_pc [OF ex, of "(mode ?Q ?i, loaded ?Q ?i)", unfolded n, simplified]
  have m: "mode ?Q (pc s' t) = mode ?Q (Suc ?i) \<and> loaded ?Q (pc s' t) = loaded ?Q (Suc ?i)"
    using pc' n disc_end [OF disc_P, of t] by (auto split: instr.splits if_splits)
  have bound: "pc s' t \<le> length ?Q"
    using pc' lt by (auto split: instr.splits)
  have "core (mode ?Q (Suc ?i)) (loaded ?Q (Suc ?i)) (reg s' t)
       (tmode P s (other t)) (tloaded P s (other t)) (reg s (other t))
       (held (lk s')) (readers (lk s')) (gvar s') (incs s' t + incs s (other t))"
    using i [unfolded sys_inv_at [of _ _ _ _ t]] n by (intro core_step [OF L _ n ex]) (auto split: if_splits)
  then show ?thesis
    using i m bound pc' by (simp add: sys_inv_at [of _ _ _ _ t])
qed

lemma inv_reach:
  assumes "lock_ok L held readers" "held l0 = 0" "readers l0 = 0" and "reach L P False l0 s"
  shows "sys_inv held readers P s"
  using assms(4)
proof (induction rule: reach.induct)
  case reach_start
  show ?case by (rule inv_start) (rule assms(2,3))+
next
  case (reach_step s sig t s')
  then show ?case using inv_step [OF assms(1)] by auto
next
  case (reach_stop s t)
  then show ?case by (simp add: sys_inv_def)
qed

text \<open>Mutual exclusion: a thread in its write section is alone.\<close>

lemma mutual_exclusion:
  assumes "lock_ok L held readers" "held l0 = 0" "readers l0 = 0" and "reach L P False l0 s"
    and "tmode P s t = WHeld"
  shows "tmode P s (other t) = Free"
  using inv_reach [OF assms(1-4)] assms(5) by (auto simp: sys_inv_at [of _ _ _ _ t] core_def)

text \<open>No increment is lost: the counter is the number of increments carried out, modulo \<open>2^64\<close>.\<close>

lemma counts_exactly:
  assumes "lock_ok L held readers" "held l0 = 0" "readers l0 = 0" and "reach L P False l0 s"
  shows "gvar s = of_nat (incs s T1 + incs s T2)"
  using inv_reach [OF assms] by (simp add: sys_inv_def core_def)

text \<open>No deadlock: while a thread has not left its loop, some thread can take a step.\<close>

lemma free_can_step:
  assumes "lock_ok L held readers" and "pc s t < length (P t)"
    and "tmode P s t = Free \<longrightarrow> held (lk s) < 1 \<and> readers (lk s) = 0"
  shows "thread_step L P False t s \<noteq> None"
proof -
  let ?i = "pc s t" and ?Q = "P t"
  have n: "after (?Q ! ?i) (mode ?Q ?i, loaded ?Q ?i) \<noteq> None"
    using disc_next [OF disc_P assms(2)] by simp
  then show ?thesis
    using assms(2,3) lock_okD(1,4) [OF assms(1)]
    by (cases "?Q ! ?i") (auto simp: thread_step_def split: if_splits)
qed

lemma no_deadlock:
  assumes "lock_ok L held readers" "held l0 = 0" "readers l0 = 0" and "reach L P False l0 s"
    and "pc s t < length (P t)"
  shows "\<exists>u. thread_step L P False u s \<noteq> None"
proof (cases "tmode P s (other t) = Free")
  case True
  then have "tmode P s t = Free \<longrightarrow> held (lk s) < 1 \<and> readers (lk s) = 0"
    using inv_reach [OF assms(1-4)] by (auto simp: sys_inv_at [of _ _ _ _ t] core_def)
  then show ?thesis using free_can_step [OF assms(1,5)] by blast
next
  case False
  have "pc s (other t) \<le> length (P (other t))"
    using inv_reach [OF assms(1-4)] by (simp add: sys_inv_at [of _ _ _ _ t])
  moreover have "pc s (other t) \<noteq> length (P (other t))"
    using False disc_end [OF disc_P, of "other t"] by auto
  ultimately have "pc s (other t) < length (P (other t))" by simp
  then show ?thesis using free_can_step [OF assms(1)] False by blast
qed

end

end
