(* ===== verification/Sync_Threads.thy ===== *)
theory Sync_Threads
  imports Sync_Machine
begin

text \<open>
  The thread functions of the six synchronisation exercises, as programs of
  \<open>Sync_Machine\<close>, and what holds in every interleaving of the two threads of a module:
  mutual exclusion, an exact count, the order of the printed values and absence of deadlock
  for the lock-based ones; a consistent read for the sequence lock; an exact count without a
  lock for the atomic variable.
\<close>

section \<open>The thread functions\<close>

definition spin1_thread1 :: "instr list" where
  "spin1_thread1 = [Should_stop,
     If_unlocked ''Spinlock is not locked in Thread Function1'', Lock_w,
     If_locked ''Spinlock is locked in Thread Function1'', Load, Store_inc,
     Print ''In Thread Function1'', Unlock_w, Msleep, Again]"

definition spin1_thread2 :: "instr list" where
  "spin1_thread2 = [Should_stop, Lock_w, Load, Store_inc, Print ''In Thread Function2'', Unlock_w,
     Msleep, Again]"

definition spin2_thread1 :: "instr list" where
  "spin2_thread1 = [Should_stop, Lock_w, Load, Store_inc, Unlock_w, Msleep, Again]"

definition spin2_thread2 :: "instr list" where
  "spin2_thread2 = [Should_stop, Lock_r, Print ''In Thread Function2 : Read value'', Unlock_r,
     Msleep, Again]"

definition mtx1_thread1 :: "instr list" where
  "mtx1_thread1 = [Should_stop, Lock_w, Load, Store_inc, Print ''In Thread Function1'', Unlock_w,
     Msleep, Again]"

definition mtx1_thread2 :: "instr list" where
  "mtx1_thread2 = [Should_stop, Lock_w, Load, Store_inc, Print ''In Thread Function2'', Unlock_w,
     Msleep, Again]"

definition sem1_thread1 :: "instr list" where
  "sem1_thread1 = [Should_stop, Down, Load, Store_inc, Print ''In Thread Function1'', Up, Msleep,
     Again]"

definition sem1_thread2 :: "instr list" where
  "sem1_thread2 = [Should_stop, Down, Load, Store_inc, Print ''In Thread Function2'', Up, Msleep,
     Again]"

definition seqlock1_thread1 :: "instr list" where
  "seqlock1_thread1 = [Should_stop, Lock_w, Load, Store_inc, Unlock_w, Msleep, Again]"

definition seqlock1_thread2 :: "instr list" where
  "seqlock1_thread2 = [Should_stop, Seq_begin, Load, Seq_retry 1,
     Print_local ''In Thread Function2 : Read value'', Msleep, Again]"

definition atomic1_thread1 :: "instr list" where
  "atomic1_thread1 = [Should_stop, Atomic_inc, Test_and_change_bit 1, Print_atomic ''Function1'',
     Msleep, Again]"

definition atomic1_thread2 :: "instr list" where
  "atomic1_thread2 = [Should_stop, Atomic_inc, Test_and_change_bit 1, Print_atomic ''Function2'',
     Msleep, Again]"

definition both :: "instr list \<Rightarrow> instr list \<Rightarrow> program" where
  "both p q t = (case t of T1 \<Rightarrow> p | T2 \<Rightarrow> q)"

lemma both_simps [simp]: "both p q T1 = p" "both p q T2 = q"
  by (simp_all add: both_def)

definition spin1_threads :: program where "spin1_threads = both spin1_thread1 spin1_thread2"
definition spin2_threads :: program where "spin2_threads = both spin2_thread1 spin2_thread2"
definition mtx1_threads :: program where "mtx1_threads = both mtx1_thread1 mtx1_thread2"
definition sem1_threads :: program where "sem1_threads = both sem1_thread1 sem1_thread2"
definition seqlock1_threads :: program where "seqlock1_threads = both seqlock1_thread1 seqlock1_thread2"
definition atomic1_threads :: program where "atomic1_threads = both atomic1_thread1 atomic1_thread2"

interpretation spin1: disciplined spin1_threads
  by unfold_locales code_simp+

interpretation spin2: disciplined spin2_threads
  by unfold_locales code_simp+

interpretation mtx1: disciplined mtx1_threads
  by unfold_locales code_simp+

interpretation sem1: disciplined sem1_threads
  by unfold_locales code_simp+

section \<open>The order of the printed values\<close>

text \<open>
  A program that prints the variable right after each increment, in the same section. Only
  the values count here, not the two messages about the state of the lock.
\<close>

definition pend :: "instr list \<Rightarrow> nat \<Rightarrow> bool" where
  "pend P i \<longleftrightarrow> 0 < i \<and> P ! (i - 1) = Store_inc"

fun is_print :: "instr \<Rightarrow> bool" where
  "is_print (Print _) = True"
| "is_print _ = False"

definition prints_each :: "instr list \<Rightarrow> bool" where
  "prints_each P \<longleftrightarrow> list_all (\<lambda>i. is_print (P ! i) = pend P i) [0..<length P] \<and> last P \<noteq> Store_inc"

definition printed :: "'l sys \<Rightarrow> nat list" where
  "printed s = concat (map (snd \<circ> snd) (log s))"

definition pending :: "program \<Rightarrow> 'l sys \<Rightarrow> nat" where
  "pending P s = of_bool (pend (P T1) (pc s T1)) + of_bool (pend (P T2) (pc s T2))"

definition print_inv :: "program \<Rightarrow> 'l sys \<Rightarrow> bool" where
  "print_inv P s \<longleftrightarrow> pending P s \<le> incs s T1 + incs s T2 \<and>
     printed s = map (\<lambda>k. k mod 2 ^ 64) [1..<incs s T1 + incs s T2 + 1 - pending P s]"

lemma pending_at: "pending P s = of_bool (pend (P t) (pc s t)) + of_bool (pend (P (other t)) (pc s (other t)))"
  by (cases t) (simp_all add: pending_def)

lemma incs_at: "incs s T1 + incs s T2 = incs s t + incs s (other t)"
  by (cases t) simp_all

locale printing = disciplined +
  assumes printing: "prints_each (P T1)" "prints_each (P T2)"
begin

lemma prints_at: "i < length (P t) \<Longrightarrow> is_print (P t ! i) = pend (P t) i"
  using printing by (cases t) (auto simp: prints_each_def list_all_iff)

lemma pend_writes:
  assumes "i \<le> length (P t)" and "pend (P t) i"
  shows "mode (P t) i = WHeld"
proof -
  obtain j where j: "i = Suc j" "P t ! j = Store_inc" "j < length (P t)"
    using assms by (cases i) (auto simp: pend_def)
  then show ?thesis using disc_next [OF disc_P, of j t] by (auto split: if_splits)
qed

lemma exec_values:
  assumes "exec L n sig ins t s = Some s'" and "after ins mf \<noteq> None"
  shows "printed s' = (if is_print ins then printed s @ [unat (gvar s)] else printed s)"
    and "incs s' t = incs s t + of_bool (ins = Store_inc)"
  using assms by (cases ins; cases mf; auto simp: printed_def split: if_splits)+

lemma pend_end: "\<not> pend (P t) (length (P t))"
  using printing by (cases t) (auto simp: pend_def prints_each_def last_conv_nth)

lemma print_step:
  assumes L: "lock_ok L held readers" and i: "sys_inv held readers P s" and p: "print_inv P s"
    and st: "thread_step L P False t s = Some s'"
  shows "print_inv P s'"
proof -
  let ?i = "pc s t" and ?Q = "P t"
  have lt: "?i < length ?Q" and ex: "exec L (length ?Q) False (?Q ! ?i) t s = Some s'"
    using st by (auto simp: thread_step_def split: if_splits)
  have n: "after (?Q ! ?i) (mode ?Q ?i, loaded ?Q ?i) = Some (mode ?Q (Suc ?i), loaded ?Q (Suc ?i))"
    by (rule disc_next [OF disc_P lt])
  note pc' = exec_pc [OF ex, of "(mode ?Q ?i, loaded ?Q ?i)", unfolded n, simplified]
  note vals = exec_values [OF ex, of "(mode ?Q ?i, loaded ?Q ?i)", unfolded n, simplified]
  have bo: "pc s (other t) \<le> length (P (other t))" "gvar s = of_nat (incs s t + incs s (other t))"
    and ex1: "tmode P s t = WHeld \<Longrightarrow> tmode P s (other t) = Free"
    using i by (auto simp: sys_inv_at [of _ _ _ _ t] core_def)
  have oth: "tmode P s t = WHeld \<Longrightarrow> \<not> pend (P (other t)) (pc s (other t))"
    using pend_writes [OF bo(1)] ex1 by auto
  have pend': "pend ?Q (pc s' t) = (?Q ! ?i = Store_inc)"
    using pc' pend_end [of t] by (auto simp: pend_def split: instr.splits if_splits)
  have pr: "is_print (?Q ! ?i) = pend ?Q ?i" by (rule prints_at [OF lt])
  show ?thesis
  proof (cases "pend ?Q ?i")
    case True
    then have w: "tmode P s t = WHeld" using lt by (intro pend_writes) auto
    have ns: "?Q ! ?i \<noteq> Store_inc" using pr True by (cases "?Q ! ?i") auto
    let ?N = "incs s t + incs s (other t)"
    have "1 \<le> ?N" "printed s = map (\<lambda>k. k mod 2 ^ 64) [1..<?N]"
      using p True oth [OF w] by (auto simp: print_inv_def pending_at [of _ _ t] incs_at [of _ t])
    then have "printed s @ [?N mod 2 ^ 64] = map (\<lambda>k. k mod 2 ^ 64) [1..<?N + 1]" by simp
    moreover have "unat (gvar s) = ?N mod 2 ^ 64"
      by (simp only: bo(2) unat_of_nat) simp
    ultimately show ?thesis
      using True ns oth [OF w] pr pc' vals pend'
      by (simp add: print_inv_def pending_at [of _ _ t] incs_at [of _ t])
  next
    case False
    have "tmode P s t = WHeld" if "?Q ! ?i = Store_inc"
      using n that by (auto split: if_splits)
    then show ?thesis
      using False p oth pr pc' vals pend'
      by (auto simp: print_inv_def pending_at [of _ _ t] incs_at [of _ t])
  qed
qed

lemma print_reach:
  assumes "lock_ok L held readers" "held l0 = 0" "readers l0 = 0" and "reach L P False l0 s"
  shows "print_inv P s"
  using assms(4)
proof (induction rule: reach.induct)
  case reach_start
  show ?case by (simp add: print_inv_def pending_def pend_def start_def printed_def)
next
  case (reach_step s sig t s')
  then show ?case using print_step [OF assms(1) inv_reach [OF assms(1-3)]] by auto
next
  case (reach_stop s t)
  then show ?case by (simp add: print_inv_def pending_def printed_def)
qed

end

interpretation spin1: printing spin1_threads
  by unfold_locales code_simp+

interpretation mtx1: printing mtx1_threads
  by unfold_locales code_simp+

interpretation sem1: printing sem1_threads
  by unfold_locales code_simp+

section \<open>Properties of the lock-based modules\<close>

text \<open>A plain lock, for concrete runs: the number of writers, the number of readers, a sequence number.\<close>

definition plain_lock :: "(int \<times> nat \<times> 32 word) prims" where
  "plain_lock = \<lparr>
     take_w = (\<lambda>(h, r, q). if h < 1 \<and> r = 0 then Some (h + 1, r, q + 1) else None),
     drop_w = (\<lambda>(h, r, q). (h - 1, r, q + 1)),
     take_r = (\<lambda>(h, r, q). if h < 1 then Some (h, r + 1, q) else None),
     drop_r = (\<lambda>(h, r, q). (h, r - 1, q)),
     is_locked = (\<lambda>(h, r, q). 1 \<le> h), seqno = (\<lambda>(h, r, q). q)\<rparr>"

lemma plain_lock_ok: "lock_ok plain_lock fst (fst \<circ> snd)"
  by (auto simp: lock_ok_def plain_lock_def split: if_splits)

definition turns :: "tid \<Rightarrow> nat \<Rightarrow> (tid \<times> bool) list" where
  "turns t n = replicate n (t, False)"

definition final_state :: "'l prims \<Rightarrow> program \<Rightarrow> (tid \<times> bool) list \<Rightarrow> 'l \<Rightarrow> 'l sys" where
  "final_state L P ts l0 = the (run_sched L P ts (start l0))"

lemma final_state_reach:
  assumes "run_sched L P ts (start l0) \<noteq> None" and "\<forall>x\<in>set ts. snd x \<longrightarrow> sg"
  shows "reach L P sg l0 (final_state L P ts l0)"
proof -
  obtain s where "run_sched L P ts (start l0) = Some s" using assms(1) by blast
  then show ?thesis
    using run_sched_reach [OF _ reach.reach_start] assms(2) by (simp add: final_state_def)
qed

definition lock_modules :: "program list" where
  "lock_modules = [spin1_threads, spin2_threads, mtx1_threads, sem1_threads]"

text \<open>
  C1. In every interleaving of the two threads of the spinlock, read-write lock, mutex and
  semaphore modules (no signal ends a wait), the shared counter is the number of increments
  the two threads have carried out, modulo \<open>2^64\<close>: no update is lost.
\<close>

theorem sync_no_lost_update:
  assumes "P \<in> set lock_modules" and "lock_ok L held readers" and "held l0 = 0" "readers l0 = 0"
    and "reach L P False l0 s"
  shows "gvar s = of_nat (incs s T1 + incs s T2)"
  using assms(1) spin1.counts_exactly [OF assms(2-4)] spin2.counts_exactly [OF assms(2-4)]
    mtx1.counts_exactly [OF assms(2-4)] sem1.counts_exactly [OF assms(2-4)] assms(5)
  by (auto simp: lock_modules_def)

definition spin_run :: "(int \<times> nat \<times> 32 word) sys" where
  "spin_run = final_state plain_lock spin1_threads (turns T1 6 @ turns T2 1 @ turns T1 2 @ turns T2 4) (0, 0, 0)"

lemma spin_run_reach: "reach plain_lock spin1_threads False (0, 0, 0) spin_run"
  unfolding spin_run_def by (rule final_state_reach) code_simp+

theorem sync_no_lost_update_witness:
  "gvar spin_run = of_nat (incs spin_run T1 + incs spin_run T2)"
  by (rule sync_no_lost_update [OF _ plain_lock_ok _ _ spin_run_reach])
    (simp_all add: lock_modules_def)

text \<open>
  C17. Mutual exclusion: in the same modules a thread between acquiring and releasing the
  write side of the lock is alone, the other thread is outside its own locked section.
\<close>

theorem sync_mutual_exclusion:
  assumes "P \<in> set lock_modules" and "lock_ok L held readers" and "held l0 = 0" "readers l0 = 0"
    and "reach L P False l0 s" and "tmode P s t = WHeld"
  shows "tmode P s (other t) = Free"
  using assms(1) spin1.mutual_exclusion [OF assms(2-4)] spin2.mutual_exclusion [OF assms(2-4)]
    mtx1.mutual_exclusion [OF assms(2-4)] sem1.mutual_exclusion [OF assms(2-4)] assms(5,6)
  by (auto simp: lock_modules_def)

definition spin_mid :: "(int \<times> nat \<times> 32 word) sys" where
  "spin_mid = final_state plain_lock spin1_threads (turns T2 1 @ turns T1 5) (0, 0, 0)"

theorem sync_mutual_exclusion_witness:
  "tmode spin1_threads spin_mid T1 = WHeld \<and> tmode spin1_threads spin_mid T2 = Free"
proof -
  have "reach plain_lock spin1_threads False (0, 0, 0) spin_mid"
    unfolding spin_mid_def by (rule final_state_reach) code_simp+
  moreover have "tmode spin1_threads spin_mid T1 = WHeld" by code_simp
  ultimately show ?thesis
    using sync_mutual_exclusion [OF _ plain_lock_ok, of spin1_threads "(0, 0, 0)" spin_mid T1]
    by (simp add: lock_modules_def)
qed

text \<open>
  C18. The modules never deadlock: as long as a thread has not left its loop, one of the two
  threads can execute its next statement.
\<close>

theorem sync_no_deadlock:
  assumes "P \<in> set lock_modules" and "lock_ok L held readers" and "held l0 = 0" "readers l0 = 0"
    and "reach L P False l0 s" and "pc s t < length (P t)"
  shows "\<exists>u. thread_step L P False u s \<noteq> None"
proof -
  have "P = spin1_threads \<or> P = spin2_threads \<or> P = mtx1_threads \<or> P = sem1_threads"
    using assms(1) by (simp add: lock_modules_def)
  then show ?thesis
    using spin1.no_deadlock [OF assms(2-4)] spin2.no_deadlock [OF assms(2-4)]
      mtx1.no_deadlock [OF assms(2-4)] sem1.no_deadlock [OF assms(2-4)] assms(5,6)
    by metis
qed

theorem sync_no_deadlock_witness: "\<exists>u. thread_step plain_lock spin1_threads False u spin_run \<noteq> None"
proof -
  have "pc spin_run T1 < length (spin1_threads T1)" by code_simp
  then show ?thesis
    by (intro sync_no_deadlock [OF _ plain_lock_ok _ _ spin_run_reach])
      (simp_all add: lock_modules_def)
qed

text \<open>
  The spinlock, mutex and semaphore modules print the counter after each increment, in
  the order of the increments: the values printed so far are 1, 2, 3, ... (modulo \<open>2^64\<close>)
  up to the count, less the increments whose thread is about to print.
\<close>

theorem sync_prints_in_order:
  assumes "P \<in> {spin1_threads, mtx1_threads, sem1_threads}"
    and "lock_ok L held readers" and "held l0 = 0" "readers l0 = 0" and "reach L P False l0 s"
  shows "printed s = map (\<lambda>k. k mod 2 ^ 64) [1..<incs s T1 + incs s T2 + 1 - pending P s]"
  using assms(1) spin1.print_reach [OF assms(2-4)] mtx1.print_reach [OF assms(2-4)]
    sem1.print_reach [OF assms(2-4)] assms(5)
  by (auto simp: print_inv_def)

theorem sync_prints_in_order_witness: "printed spin_run = [1, 2]"
proof -
  have "incs spin_run T1 + incs spin_run T2 = 2" "pending spin1_threads spin_run = 0" by code_simp+
  then show ?thesis
    using sync_prints_in_order [OF _ plain_lock_ok _ _ spin_run_reach] by (simp add: upt_rec)
qed

text \<open>
  The semaphore module ignores the result of \<^verbatim>\<open>down_interruptible\<close>. If a signal does end a
  wait, both threads can be in the section at once and an update is lost: there is a run
  with two increments after which the counter is 1.
\<close>

theorem sem1_interrupted_loses_update:
  "\<exists>s. reach plain_lock sem1_threads True (0, 0, 0) s \<and> incs s T1 + incs s T2 = 2 \<and> gvar s = 1"
proof -
  let ?ts = "turns T1 3 @ [(T2, False), (T2, True)] @ turns T2 2 @ turns T1 1"
  let ?s = "final_state plain_lock sem1_threads ?ts (0, 0, 0)"
  have "reach plain_lock sem1_threads True (0, 0, 0) ?s"
    by (rule final_state_reach) (code_simp, simp)
  moreover have "incs ?s T1 + incs ?s T2 = 2" "gvar ?s = 1" by code_simp+
  ultimately show ?thesis by blast
qed

end
