(* ===== verification/Sync_Lockfree.thy ===== *)
theory Sync_Lockfree
  imports Sync_Threads
begin

text \<open>
  The two synchronisation modules whose reader or writer takes no lock: the sequence-lock
  reader, which reads and then checks that no writer was active in between, and the atomic
  counter with its toggled bit.
\<close>

section \<open>The sequence lock\<close>

text \<open>
  The documented behaviour of \<^verbatim>\<open>write_seqlock\<close> and \<^verbatim>\<open>write_sequnlock\<close>: an exclusive lock
  whose two operations also add one to the sequence number.
\<close>

definition seq_ok :: "'l prims \<Rightarrow> ('l \<Rightarrow> int) \<Rightarrow> ('l \<Rightarrow> nat) \<Rightarrow> bool" where
  "seq_ok L held readers \<longleftrightarrow> lock_ok L held readers \<and>
     (\<forall>l l'. take_w L l = Some l' \<longrightarrow> seqno L l' = seqno L l + 1) \<and>
     (\<forall>l. seqno L (drop_w L l) = seqno L l + 1)"

text \<open>
  The load function starts both threads on the static lock \<open>lr\<close>, whose memory is zero, and calls \<^verbatim>\<open>seqlock_init\<close> after that, at any moment
  of what the threads do: the lock is then in its initial state \<open>l0\<close>, whoever is using it. The reachable states are
  those of the two threads (as in \<open>reach\<close>) with that event; \<open>i\<close> says that it has happened, \<open>q\<close> that it
  did not find the writer or the reader inside a section.
\<close>

definition between_sections :: "'l sys \<Rightarrow> bool" where
  "between_sections s \<longleftrightarrow> pc s T1 \<notin> {2, 3, 4} \<and> pc s T2 \<notin> {2, 3}"

inductive seqlock1_reach :: "'l prims \<Rightarrow> bool \<Rightarrow> 'l \<Rightarrow> 'l \<Rightarrow> bool \<Rightarrow> bool \<Rightarrow> 'l sys \<Rightarrow> bool"
  for L :: "'l prims" and sg :: bool and lr l0 :: 'l where
  seq_start: "seqlock1_reach L sg lr l0 False True (start lr)"
| seq_step: "seqlock1_reach L sg lr l0 i q s \<Longrightarrow> (sig \<longrightarrow> sg) \<Longrightarrow> thread_step L seqlock1_threads sig t s = Some s' \<Longrightarrow>
    seqlock1_reach L sg lr l0 i q s'"
| seq_stop: "seqlock1_reach L sg lr l0 i q s \<Longrightarrow> seqlock1_reach L sg lr l0 i q (s\<lparr>stop := (stop s)(t := True)\<rparr>)"
| seq_init: "seqlock1_reach L sg lr l0 False q s \<Longrightarrow> seqlock1_reach L sg lr l0 True (between_sections s) (s\<lparr>lk := l0\<rparr>)"

text \<open>How often the sequence number was raised, from the writer's position and its increments.\<close>

definition raised :: "'l sys \<Rightarrow> nat" where
  "raised s = (if pc s T1 = 2 \<or> pc s T1 = 3 then 2 * incs s T1 + 1
     else if pc s T1 = 4 then 2 * incs s T1 - 1 else 2 * incs s T1)"

text \<open>The initialisation sets the sequence number back, by an even number \<open>b\<close>.\<close>

definition seq_writer :: "'l prims \<Rightarrow> u32 \<Rightarrow> 'l sys \<Rightarrow> bool" where
  "seq_writer L b s \<longleftrightarrow> pc s T1 \<le> 7 \<and> gvar s = of_nat (incs s T1) \<and>
     (pc s T1 = 3 \<longrightarrow> reg s T1 = gvar s) \<and> (pc s T1 = 4 \<longrightarrow> 0 < incs s T1) \<and>
     seqno L (lk s) + b = of_nat (raised s)"

text \<open>
  The reader holds the sequence number of a moment with \<open>n\<close> complete increments, and a value
  read after that moment.
\<close>

definition seq_reader :: "u32 \<Rightarrow> 'l sys \<Rightarrow> bool" where
  "seq_reader b s \<longleftrightarrow>
     (pc s T2 = 2 \<longrightarrow> (\<exists>n\<le>incs s T1. seq s T2 + b = of_nat (2 * n))) \<and>
     (pc s T2 = 3 \<longrightarrow> (\<exists>n r. n \<le> r \<and> r \<le> incs s T1 \<and> seq s T2 + b = of_nat (2 * n) \<and> reg s T2 = of_nat r))"

lemma of_nat_bit0: "(x :: 32 word) + b = of_nat n \<Longrightarrow> even b \<Longrightarrow> bit x 0 \<longleftrightarrow> odd n"
proof -
  assume a: "x + b = of_nat n" and e: "even b"
  have "odd n \<longleftrightarrow> odd (of_nat n :: 32 word)" by simp
  also have "\<dots> \<longleftrightarrow> odd x" using e by (simp flip: a)
  finally show ?thesis by (simp add: bit_0)
qed

lemma of_nat_Suc_plus: "of_nat n + 1 = (of_nat (Suc n) :: 'a :: semiring_1)"
  by (simp add: add.commute)

lemma seq_writer_cong:
  assumes "seq_writer L b s" and "pc s' T1 = pc s T1" "reg s' T1 = reg s T1" "gvar s' = gvar s" "incs s' T1 = incs s T1" "lk s' = lk s"
  shows "seq_writer L b s'"
  using assms by (simp add: seq_writer_def raised_def)

lemma seq_reader_mono:
  assumes "seq_reader b s" and "pc s' T2 = pc s T2" "seq s' T2 = seq s T2" "reg s' T2 = reg s T2"
    and "incs s T1 \<le> incs s' T1"
  shows "seq_reader b s'"
  using assms unfolding seq_reader_def by (auto intro: order_trans)

text \<open>The statements of the two threads, one by one.\<close>

lemma seq_thread1_step:
  assumes "thread_step L seqlock1_threads sig T1 s = Some s'"
  shows "(pc s T1 = 0 \<and> s' = (if stop s T1 then goto T1 7 s else fall T1 s))
    \<or> (pc s T1 = 1 \<and> (\<exists>l. take_w L (lk s) = Some l \<and> s' = fall T1 (s\<lparr>lk := l\<rparr>)))
    \<or> (pc s T1 = 2 \<and> s' = fall T1 (s\<lparr>reg := (reg s)(T1 := gvar s)\<rparr>))
    \<or> (pc s T1 = 3 \<and> s' = fall T1 (s\<lparr>gvar := reg s T1 + 1, incs := (incs s)(T1 := Suc (incs s T1))\<rparr>))
    \<or> (pc s T1 = 4 \<and> s' = fall T1 (s\<lparr>lk := drop_w L (lk s)\<rparr>))
    \<or> (pc s T1 = 5 \<and> s' = fall T1 s) \<or> (pc s T1 = 6 \<and> s' = goto T1 0 s)"
proof -
  have "pc s T1 < 7"
    using assms by (auto simp: thread_step_def seqlock1_threads_def seqlock1_thread1_def split: if_splits)
  then have "pc s T1 = 0 \<or> pc s T1 = 1 \<or> pc s T1 = 2 \<or> pc s T1 = 3 \<or> pc s T1 = 4 \<or> pc s T1 = 5
    \<or> pc s T1 = 6" by linarith
  then show ?thesis
    using assms
    by (elim disjE) (simp_all add: thread_step_def seqlock1_threads_def seqlock1_thread1_def
        map_option_case eval_nat_numeral split: option.splits if_splits)
qed

lemma seq_step_writer:
  assumes L: "seq_ok L held readers" and w: "seq_writer L b s" and r: "seq_reader b s"
    and st: "thread_step L seqlock1_threads sig T1 s = Some s'"
  shows "seq_writer L b s' \<and> seq_reader b s'"
proof
  have lw: "take_w L l = Some l' \<Longrightarrow> seqno L l' + b = seqno L l + b + 1" "seqno L (drop_w L l) + b = seqno L l + b + 1"
    for l l' using L by (auto simp: seq_ok_def)
  show "seq_reader b s'"
    using seq_thread1_step [OF st] by (intro seq_reader_mono [OF r]) auto
  show "seq_writer L b s'"
    using seq_thread1_step [OF st] w
    by (elim disjE) (auto simp: seq_writer_def raised_def lw of_nat_Suc_plus simp del: of_nat_mult
        of_nat_Suc of_nat_add split: if_splits, simp)
qed

lemma seq_thread2_step:
  assumes "thread_step L seqlock1_threads sig T2 s = Some s'"
  shows "(pc s T2 = 0 \<and> s' = (if stop s T2 then goto T2 7 s else fall T2 s))
    \<or> (pc s T2 = 1 \<and> \<not> bit (seqno L (lk s)) 0 \<and> s' = fall T2 (s\<lparr>seq := (seq s)(T2 := seqno L (lk s))\<rparr>))
    \<or> (pc s T2 = 2 \<and> s' = fall T2 (s\<lparr>reg := (reg s)(T2 := gvar s)\<rparr>))
    \<or> (pc s T2 = 3 \<and> s' = (if seqno L (lk s) \<noteq> seq s T2 then goto T2 1 s else fall T2 s))
    \<or> (pc s T2 = 4 \<and> s' = fall T2 (say T2 ''In Thread Function2 : Read value'' [unat (reg s T2)] s))
    \<or> (pc s T2 = 5 \<and> s' = fall T2 s) \<or> (pc s T2 = 6 \<and> s' = goto T2 0 s)"
proof -
  have "pc s T2 < 7"
    using assms by (auto simp: thread_step_def seqlock1_threads_def seqlock1_thread2_def split: if_splits)
  then have "pc s T2 = 0 \<or> pc s T2 = 1 \<or> pc s T2 = 2 \<or> pc s T2 = 3 \<or> pc s T2 = 4 \<or> pc s T2 = 5
    \<or> pc s T2 = 6" by linarith
  then show ?thesis
    using assms
    by (elim disjE) (simp_all add: thread_step_def seqlock1_threads_def seqlock1_thread2_def
        eval_nat_numeral split: if_splits)
qed

lemma raised_even:
  assumes "seq_writer L b s" and "even (raised s)"
  shows "raised s = 2 * incs s T1 \<and> pc s T1 \<notin> {2, 3, 4}"
proof -
  have "odd (2 * incs s T1 - 1)" if "0 < incs s T1" using that by (cases "incs s T1") auto
  then show ?thesis using assms by (auto simp: seq_writer_def raised_def split: if_splits)
qed

lemma seq_even_quiet:
  assumes "even b" and "seq_writer L b s" and "\<not> bit (seqno L (lk s)) 0"
  shows "even (raised s)"
  using assms of_nat_bit0 [of "seqno L (lk s)" b "raised s"] by (simp add: seq_writer_def)

lemma seq_step_reader:
  assumes e: "even b" and w: "seq_writer L b s" and r: "seq_reader b s"
    and st: "thread_step L seqlock1_threads sig T2 s = Some s'"
  shows "seq_writer L b s' \<and> seq_reader b s'"
proof
  show "seq_writer L b s'"
    using seq_thread2_step [OF st] by (intro seq_writer_cong [OF w]) auto
  have g: "gvar s = of_nat (incs s T1)" using w by (simp add: seq_writer_def)
  show "seq_reader b s'"
    using seq_thread2_step [OF st]
  proof (elim disjE conjE)
    assume "pc s T2 = 1" "\<not> bit (seqno L (lk s)) 0" "s' = fall T2 (s\<lparr>seq := (seq s)(T2 := seqno L (lk s))\<rparr>)"
    then show ?thesis
      using raised_even [OF w] seq_even_quiet [OF e w] w by (auto simp: seq_reader_def seq_writer_def)
  next
    assume p: "pc s T2 = 2" "s' = fall T2 (s\<lparr>reg := (reg s)(T2 := gvar s)\<rparr>)"
    then obtain n where "n \<le> incs s T1" "seq s T2 + b = of_nat (2 * n)" using r by (auto simp: seq_reader_def)
    then show ?thesis using p g by (auto simp: seq_reader_def)
  qed (simp_all add: seq_reader_def)
qed

lemma seq_reach:
  assumes L: "seq_ok L held readers" and z: "seqno L lr = 0" "seqno L l0 = 0" and "seqlock1_reach L sg lr l0 i q s"
  shows "(\<not> i \<longrightarrow> q) \<and> (q \<longrightarrow> (\<exists>b. even b \<and> seq_writer L b s \<and> seq_reader b s))"
  using assms(4)
proof (induction rule: seqlock1_reach.induct)
  case seq_start
  show ?case using z by (auto intro!: exI [of _ 0] simp: seq_writer_def seq_reader_def start_def raised_def)
next
  case (seq_step i q s sig t s')
  have "seq_writer L b s' \<and> seq_reader b s'" if "even b" "seq_writer L b s" "seq_reader b s" for b
    using seq_step.hyps(3) that by (cases t) (use seq_step_writer [OF L] seq_step_reader in blast)+
  with seq_step.IH show ?case by blast
next
  case (seq_stop i q s t)
  have "seq_writer L b (s\<lparr>stop := (stop s)(t := True)\<rparr>) = seq_writer L b s"
    "seq_reader b (s\<lparr>stop := (stop s)(t := True)\<rparr>) = seq_reader b s" for b
    by (simp_all add: seq_writer_def seq_reader_def raised_def)
  then show ?case using seq_stop.IH by simp
next
  case (seq_init q s)
  have "seq_writer L (of_nat (2 * incs s T1)) (s\<lparr>lk := l0\<rparr>) \<and> seq_reader (of_nat (2 * incs s T1)) (s\<lparr>lk := l0\<rparr>)"
    if "seq_writer L b s" "between_sections s" for b
    using that z(2) by (auto simp: seq_writer_def seq_reader_def raised_def between_sections_def)
  moreover have "even (of_nat (2 * incs s T1) :: u32)" by simp
  ultimately show ?case using seq_init.IH by blast
qed

text \<open>
  C21. When \<^verbatim>\<open>read_seqretry\<close> lets the reader of the sequence-lock module go on, the value it
  read is the value of the variable at that moment and no writer is inside its section, provided that \<^verbatim>\<open>seqlock_init\<close>,
  which the load calls after it has started the threads, has not come while one of them was inside a section,
  and as long as the writer has done fewer than \<open>2^31 - 1\<close> increments (so that the 32-bit
  sequence number has not wrapped around).
\<close>

theorem seqlock1_read_consistent:
  assumes "seq_ok L held readers" and "seqno L lr = 0" and "seqno L l0 = 0" and "seqlock1_reach L sg lr l0 i True s"
    and "incs s T1 < 2 ^ 31 - 1" and "pc s T2 = 3"
    and "thread_step L seqlock1_threads sig T2 s = Some s'" and "pc s' T2 = 4"
  shows "reg s' T2 = gvar s' \<and> gvar s' = of_nat (incs s' T1) \<and> tmode seqlock1_threads s' T1 = Free"
proof -
  obtain b where e: "even b" and w: "seq_writer L b s" and r: "seq_reader b s" using seq_reach [OF assms(1-4)] by auto
  have eq: "seqno L (lk s) = seq s T2" and s': "s' = fall T2 s"
    using seq_thread2_step [OF assms(7)] assms(6,8) by (auto split: if_splits)
  obtain n x where n: "n \<le> x" "x \<le> incs s T1" "seq s T2 + b = of_nat (2 * n)" "reg s T2 = of_nat x"
    using r assms(6) by (auto simp: seq_reader_def)
  then have "\<not> bit (seqno L (lk s)) 0"
    using of_nat_bit0 [OF n(3) e] by (simp add: eq)
  then have q: "raised s = 2 * incs s T1" "pc s T1 \<notin> {2, 3, 4}"
    using raised_even [OF w] seq_even_quiet [OF e w] by auto
  have "of_nat (2 * n) = (of_nat (2 * incs s T1) :: u32)"
    using eq w n(3) q(1) unfolding seq_writer_def by simp
  then have "2 * n = 2 * incs s T1"
    using n(1,2) assms(5) by (simp add: word_of_nat_eq_iff take_bit_nat_eq_self del: of_nat_mult)
  then have "reg s T2 = gvar s" using n w by (simp add: seq_writer_def)
  moreover have "tmode seqlock1_threads s T1 = Free"
  proof -
    have "\<forall>i\<in>{0, 1, 5, 6, 7}. mode (seqlock1_threads T1) i = Free" by code_simp
    moreover have "pc s T1 \<in> {0, 1, 5, 6, 7}"
    proof -
      have "pc s T1 \<le> 7" using w by (simp add: seq_writer_def)
      then show ?thesis using q(2) by auto
    qed
    ultimately show ?thesis by blast
  qed
  ultimately show ?thesis using w by (simp add: s' seq_writer_def)
qed

lemma run_sched_seqlock1:
  "run_sched L seqlock1_threads ts s = Some s' \<Longrightarrow> seqlock1_reach L sg lr l0 i q s \<Longrightarrow> (\<forall>x\<in>set ts. snd x \<longrightarrow> sg) \<Longrightarrow>
     seqlock1_reach L sg lr l0 i q s'"
proof (induction ts arbitrary: s)
  case (Cons x ts)
  then show ?case
    by (cases x) (auto split: option.splits intro: seqlock1_reach.seq_step)
qed simp

text \<open>Two runs: in the first the initialisation comes between two sections, in the second inside the writer's.\<close>

definition seq_before :: "nat \<Rightarrow> (int \<times> nat \<times> 32 word) sys" where
  "seq_before n = final_state plain_lock seqlock1_threads (turns T1 n) (0, 0, 0)"

definition seq_after :: "nat \<Rightarrow> (tid \<times> bool) list \<Rightarrow> (int \<times> nat \<times> 32 word) sys" where
  "seq_after n ts = the (run_sched plain_lock seqlock1_threads ts ((seq_before n)\<lparr>lk := (0, 0, 0)\<rparr>))"

lemma seq_after_reach:
  assumes "run_sched plain_lock seqlock1_threads (turns T1 n) (start (0, 0, 0)) \<noteq> None"
    and "run_sched plain_lock seqlock1_threads ts ((seq_before n)\<lparr>lk := (0, 0, 0)\<rparr>) \<noteq> None" and "\<forall>x\<in>set ts. \<not> snd x"
  shows "seqlock1_reach plain_lock False (0, 0, 0) (0, 0, 0) True (between_sections (seq_before n)) (seq_after n ts)"
proof -
  have "seqlock1_reach plain_lock False (0, 0, 0) (0, 0, 0) False True (seq_before n)"
    using assms(1) by (intro run_sched_seqlock1 [OF _ seqlock1_reach.seq_start]) (auto simp: seq_before_def final_state_def turns_def)
  from run_sched_seqlock1 [OF _ seqlock1_reach.seq_init [OF this]] assms(2,3) show ?thesis
    by (auto simp: seq_after_def)
qed

lemma plain_seq_ok: "seq_ok plain_lock fst (fst \<circ> snd)"
  using plain_lock_ok by (auto simp: seq_ok_def) (auto simp: plain_lock_def split: if_splits)

definition seq_run :: "(int \<times> nat \<times> 32 word) sys" where
  "seq_run = seq_after 5 (turns T2 2 @ turns T1 3 @ turns T2 1 @ turns T1 4 @ turns T2 3)"

theorem seqlock1_read_consistent_witness:
  "reg (fall T2 seq_run) T2 = gvar (fall T2 seq_run) \<and> gvar (fall T2 seq_run) = 2"
proof -
  have q: "between_sections (seq_before 5) = True" by code_simp
  have "seqlock1_reach plain_lock False (0, 0, 0) (0, 0, 0) True (between_sections (seq_before 5)) seq_run"
    unfolding seq_run_def by (rule seq_after_reach) code_simp+
  then have "seqlock1_reach plain_lock False (0, 0, 0) (0, 0, 0) True True seq_run" by (simp only: q)
  moreover have p: "pc seq_run T2 = 3" and i: "incs seq_run T1 = 2" by code_simp+
  moreover have "seqno plain_lock (lk seq_run) = seq seq_run T2" by code_simp
  then have "thread_step plain_lock seqlock1_threads False T2 seq_run = Some (fall T2 seq_run)"
    by (simp add: thread_step_def p seqlock1_threads_def seqlock1_thread2_def)
  moreover have "seqno plain_lock (0, 0, 0) = 0" by code_simp
  ultimately show ?thesis
    using seqlock1_read_consistent [OF plain_seq_ok, of "(0, 0, 0)" "(0, 0, 0)" False True seq_run False "fall T2 seq_run"] by simp
qed

text \<open>
  The condition is needed: when \<^verbatim>\<open>seqlock_init\<close> comes while the writer holds the lock, the sequence number says that there is no
  writer, and the reader goes on with the writer in the middle of its increment.
\<close>

lemma seqlock1_init_inside_section:
  "\<exists>s. seqlock1_reach plain_lock False (0, 0, 0) (0, 0, 0) True False s \<and> pc s T2 = 3 \<and> tmode seqlock1_threads s T1 = WHeld \<and>
     thread_step plain_lock seqlock1_threads False T2 s = Some (fall T2 s)"
proof -
  let ?s = "seq_after 3 (turns T2 3)"
  have q: "between_sections (seq_before 3) = False" by code_simp
  have "seqlock1_reach plain_lock False (0, 0, 0) (0, 0, 0) True (between_sections (seq_before 3)) ?s"
    by (rule seq_after_reach) code_simp+
  then have "seqlock1_reach plain_lock False (0, 0, 0) (0, 0, 0) True False ?s" by (simp only: q)
  moreover have p: "pc ?s T2 = 3" and m: "tmode seqlock1_threads ?s T1 = WHeld" by code_simp+
  moreover have "seqno plain_lock (lk ?s) = seq ?s T2" by code_simp
  then have "thread_step plain_lock seqlock1_threads False T2 ?s = Some (fall T2 ?s)"
    by (simp add: thread_step_def p seqlock1_threads_def seqlock1_thread2_def)
  ultimately show ?thesis by blast
qed

section \<open>The atomic counter\<close>

text \<open>The number of toggles: one for each increment whose thread is past its toggle.\<close>

definition toggles :: "'l sys \<Rightarrow> nat" where
  "toggles s = incs s T1 + incs s T2 - (of_bool (pc s T1 = 2) + of_bool (pc s T2 = 2))"

definition atomic_inv :: "'l sys \<Rightarrow> bool" where
  "atomic_inv s \<longleftrightarrow> avar s = of_nat (incs s T1 + incs s T2) \<and>
     (\<forall>t. pc s t = 2 \<longrightarrow> 0 < incs s t) \<and> bits s = (if odd (toggles s) then 2 else 0)"

lemma toggles_at: "toggles s = incs s t + incs s (other t) - (of_bool (pc s t = 2) + of_bool (pc s (other t) = 2))"
  by (cases t) (simp_all add: toggles_def add.commute)

lemma atomic_thread_step:
  assumes "thread_step L atomic1_threads sig t s = Some s'"
  shows "(pc s t = 0 \<and> s' = (if stop s t then goto t 6 s else fall t s))
    \<or> (pc s t = 1 \<and> s' = fall t (s\<lparr>avar := avar s + 1, incs := (incs s)(t := Suc (incs s t))\<rparr>))
    \<or> (pc s t = 2 \<and> s' = fall t (s\<lparr>prev_bit := (prev_bit s)(t := bit (bits s) 1), bits := flip_bit 1 (bits s)\<rparr>))
    \<or> (pc s t = 3 \<and> (\<exists>m v. s' = fall t (say t m v s)))
    \<or> (pc s t = 4 \<and> s' = fall t s) \<or> (pc s t = 5 \<and> s' = goto t 0 s)"
proof -
  have c: "atomic1_threads t = [Should_stop, Atomic_inc, Test_and_change_bit 1,
      Print_atomic (case t of T1 \<Rightarrow> ''Function1'' | T2 \<Rightarrow> ''Function2''), Msleep, Again]"
    by (cases t) (simp_all add: atomic1_threads_def atomic1_thread1_def atomic1_thread2_def)
  have "pc s t < 6" using assms by (auto simp: thread_step_def c split: if_splits)
  then have "pc s t = 0 \<or> pc s t = 1 \<or> pc s t = 2 \<or> pc s t = 3 \<or> pc s t = 4 \<or> pc s t = 5"
    by linarith
  then show ?thesis
    using assms by (elim disjE) (auto simp: thread_step_def c eval_nat_numeral split: if_splits)
qed

lemma flip1: "flip_bit (Suc 0) (0 :: u32) = 2" "flip_bit (Suc 0) (2 :: u32) = 0"
  by (simp_all add: flip_bit_eq_if bit_simps set_bit_eq_or unset_bit_eq_and_not)

lemma atomic_inv_at:
  "atomic_inv s \<longleftrightarrow> avar s = of_nat (incs s t + incs s (other t)) \<and>
     (pc s t = 2 \<longrightarrow> 0 < incs s t) \<and> (pc s (other t) = 2 \<longrightarrow> 0 < incs s (other t)) \<and>
     bits s = (if odd (toggles s) then 2 else 0)"
  by (cases t) (auto simp: atomic_inv_def all_tid)

lemma atomic_step:
  assumes i: "atomic_inv s" and st: "thread_step L atomic1_threads sig t s = Some s'"
  shows "atomic_inv s'"
proof -
  note inv = i [unfolded atomic_inv_at [of _ t] toggles_at [of _ t]]
  show ?thesis
    using atomic_thread_step [OF st]
  proof (elim disjE conjE)
    assume p: "pc s t = 1"
      and s': "s' = fall t (s\<lparr>avar := avar s + 1, incs := (incs s)(t := Suc (incs s t))\<rparr>)"
    then show ?thesis using inv by (simp add: atomic_inv_at [of _ t] toggles_at [of _ t])
  next
    assume p: "pc s t = 2" and s': "s' = fall t (s\<lparr>prev_bit := (prev_bit s)(t := bit (bits s) 1),
      bits := flip_bit 1 (bits s)\<rparr>)"
    let ?x = "of_bool (pc s (other t) = 2)" and ?n = "incs s t + incs s (other t)"
    have "?n - ?x = Suc (?n - (1 + ?x))" using inv p by auto
    then have "odd (?n - ?x) = even (?n - (1 + ?x))" by simp
    then show ?thesis
      using inv p by (simp add: atomic_inv_at [of _ t] toggles_at [of _ t] s' flip1 del: flip_bit_Suc)
  qed (use inv in \<open>auto simp: atomic_inv_at [of _ t] toggles_at [of _ t]\<close>)
qed

lemma atomic_reach:
  assumes "reach L atomic1_threads sg l0 s"
  shows "atomic_inv s"
  using assms
proof (induction rule: reach.induct)
  case reach_start
  show ?case by (simp add: atomic_inv_def start_def toggles_def)
next
  case (reach_step s sig t s')
  then show ?case by (blast intro: atomic_step)
next
  case (reach_stop s t)
  then show ?case by (simp add: atomic_inv_def toggles_def)
qed

text \<open>
  The atomic module needs no lock: in every interleaving the atomic counter is the number
  of \<^verbatim>\<open>atomic_inc\<close> calls modulo \<open>2^32\<close>, and when no thread stands between its increment and
  its toggle, \<^verbatim>\<open>etc_bit_check\<close> is 2 for an odd number of increments and 0 for an even one.
\<close>

theorem atomic1_counts_exactly:
  assumes "reach L atomic1_threads sg l0 s"
  shows "avar s = of_nat (incs s T1 + incs s T2) \<and>
    (pc s T1 \<noteq> 2 \<and> pc s T2 \<noteq> 2 \<longrightarrow> bits s = (if odd (incs s T1 + incs s T2) then 2 else 0))"
  using atomic_reach [OF assms] by (auto simp: atomic_inv_def toggles_def)

definition atomic_run :: "(int \<times> nat \<times> 32 word) sys" where
  "atomic_run = final_state plain_lock atomic1_threads
     (turns T1 2 @ turns T2 3 @ turns T1 5 @ turns T2 1 @ turns T1 2) (0, 0, 0)"

theorem atomic1_counts_exactly_witness: "avar atomic_run = 3 \<and> bits atomic_run = 2"
proof -
  have r: "reach plain_lock atomic1_threads False (0, 0, 0) atomic_run"
    unfolding atomic_run_def by (rule final_state_reach) code_simp+
  have "incs atomic_run T1 = 2" "incs atomic_run T2 = 1" "pc atomic_run T1 \<noteq> 2" "pc atomic_run T2 \<noteq> 2"
    by code_simp+
  then show ?thesis using atomic1_counts_exactly [OF r] by simp
qed

end
