(* ===== verification/Char_Module.thy ===== *)
theory Char_Module
  imports Kernel_Prelude
begin

text \<open>
  Loading and unloading of the character-device exercises. Eleven modules register
  a character device with the same sequence of calls (number region, \<^verbatim>\<open>cdev\<close>, class, device
  node), go on with their own part, and undo the sequence at the labels \<^verbatim>\<open>r_device\<close> and
  \<^verbatim>\<open>r_class\<close>. \<open>chr_init\<close> is that sequence with the label code and the module's own part as
  arguments; each module is an instance. Log messages are left out of the load and unload
  paths.

  The theorems are about the ledger: what a load leaves registered on success and on each
  failure, and what an unload gives back.
\<close>

section \<open>Kernel calls and module variables\<close>

datatype ccall =
    Alloc_chrdev_region int int string
  | Region_dev
  | Unregister_chrdev_region int int
  | Register_chrdev int string
  | Unregister_chrdev int string
  | Cdev_init
  | Cdev_add int int
  | Cdev_del
  | Class_create string
  | Class_destroy kptr
  | Device_create kptr int string
  | Device_destroy kptr int
  | Kthread_run string string
  | Kthread_create string string
  | Wake_up_process kptr
  | Kthread_stop kptr
  | Lock_init string
  | Completion_done
  | Complete
  | Proc_mkdir string
  | Proc_create string kptr
  | Proc_remove kptr
  | Kobject_create_and_add string
  | Kobject_put kptr
  | Sysfs_create_file kptr string
  | Sysfs_remove_file kptr string
  | Request_irq int
  | Free_irq int
  | Int3B
  | Copy_to_user nat
  | Copy_from_user nat
  | Get_current
  | Send_sig_info kptr
  | Init_waitqueue_head
  | Printk string

text \<open>
  The variables the modules keep: the device number, the class, and the pointers of the
  parts a module adds. Each module uses the ones it declares.
\<close>

record cworld = "ccall kworld" +
  dev :: int
  dev_class :: kptr
  test_thread1 :: kptr
  test_thread2 :: kptr
  parent :: kptr
  kobj_ref :: kptr

text \<open>\<^verbatim>\<open>kernel_kobj\<close>, the object behind \<^verbatim>\<open>/sys/kernel\<close>.\<close>

definition kernel_kobj :: kptr where
  "kernel_kobj = Ptr 0"

section \<open>The common sequence\<close>

text \<open>
  \<^verbatim>\<open>alloc_chrdev_region\<close> stores the number it chose through its first argument; that number is
  a second answer of the kernel.
\<close>

definition alloc_chrdev_region ::
  "ccall kenv \<Rightarrow> int \<Rightarrow> int \<Rightarrow> string \<Rightarrow> ('x cworld_scheme, int) state" where
  "alloc_chrdev_region E first n name = do {
     r \<leftarrow> kint E (Alloc_chrdev_region first n name);
     if r < 0 then ret r
     else do {
       d \<leftarrow> kint E Region_dev;
       modify (\<lambda>w. w\<lparr>dev := d\<rparr>);
       ret r } }"

definition unregister_region :: "('x cworld_scheme, unit) state" where
  "unregister_region = do { d \<leftarrow> gets dev; kvoid (Unregister_chrdev_region d 1) }"

definition destroy_class :: "('x cworld_scheme, unit) state" where
  "destroy_class = do { c \<leftarrow> gets dev_class; kvoid (Class_destroy c) }"

text \<open>The label \<^verbatim>\<open>r_class\<close> in its two forms, with and without \<^verbatim>\<open>cdev_del\<close>.\<close>

definition r_class_del :: "('x cworld_scheme, int) state" where
  "r_class_del = do { unregister_region; kvoid Cdev_del; ret (- 1) }"

definition r_class_keep :: "('x cworld_scheme, int) state" where
  "r_class_keep = do { unregister_region; ret (- 1) }"

definition r_device :: "('x cworld_scheme, int) state \<Rightarrow> ('x cworld_scheme, int) state" where
  "r_device r_class = do { destroy_class; r_class }"

definition chr_init ::
  "ccall kenv \<Rightarrow> string \<Rightarrow> string \<Rightarrow> string \<Rightarrow> ('x cworld_scheme, int) state \<Rightarrow>
    ('x cworld_scheme, int) state \<Rightarrow> ('x cworld_scheme, int) state" where
  "chr_init E region cls node r_class rest = do {
     r \<leftarrow> alloc_chrdev_region E 0 1 region;
     if r < 0 then ret (- 1)
     else do {
       kvoid Cdev_init;
       d \<leftarrow> gets dev;
       a \<leftarrow> kint E (Cdev_add d 1);
       if a < 0 then r_class
       else do {
         c \<leftarrow> kptr_call E (Class_create cls);
         modify (\<lambda>w. w\<lparr>dev_class := c\<rparr>);
         if c = Null then r_class
         else do {
           n \<leftarrow> kptr_call E (Device_create c d node);
           if n = Null then r_device r_class
           else rest } } } }"

definition chr_exit :: "('x cworld_scheme, unit) state" where
  "chr_exit = do {
     c \<leftarrow> gets dev_class;
     d \<leftarrow> gets dev;
     kvoid (Device_destroy c d);
     kvoid (Class_destroy c);
     kvoid Cdev_del;
     kvoid (Unregister_chrdev_region d 1) }"

section \<open>File operations\<close>

text \<open>The operations most of the modules share: they only log.\<close>

definition plain_fops :: "'x cworld_scheme file_ops" where
  "plain_fops = \<lparr>
     fop_open = do { kvoid (Printk ''Device File Opened...!!!''); ret 0 },
     fop_release = do { kvoid (Printk ''Device File Closed...!!!''); ret 0 },
     fop_read = (\<lambda>len. do { kvoid (Printk ''Read function''); ret 0 }),
     fop_write = (\<lambda>len. do { kvoid (Printk ''Write Function''); ret (int len) })\<rparr>"

section \<open>What the calls acquire and give back\<close>

datatype cres =
    Region int | CdevLive | Class kptr | Device kptr int | Thread kptr | ProcDir kptr
  | Kobj kptr | SysFile kptr string | Irq int | Chrdev int

text \<open>
  \<^verbatim>\<open>register_chrdev\<close> of the number 0 chooses a number and returns it; of another number it returns 0. An attribute file lives in the
  directory of its object, which the last \<^verbatim>\<open>kobject_put\<close> removes with everything in it: a file below an object of the module is
  part of that object. Only a file below \<^verbatim>\<open>kernel_kobj\<close>, which stays, has to be removed by itself.
\<close>

definition c_acq :: "ccall kevent \<Rightarrow> cres option" where
  "c_acq ev = (case ev of
     RetI Region_dev d \<Rightarrow> Some (Region d)
   | RetI (Register_chrdev m _) r \<Rightarrow>
       if m = 0 then (if 0 < r then Some (Chrdev r) else None) else if r = 0 then Some (Chrdev m) else None
   | RetI (Cdev_add _ _) r \<Rightarrow> if r < 0 then None else Some CdevLive
   | RetP (Class_create _) p \<Rightarrow> if is_addr p then Some (Class p) else None
   | RetP (Device_create c d _) p \<Rightarrow> if is_addr p then Some (Device c d) else None
   | RetP (Kthread_run _ _) p \<Rightarrow> if is_addr p then Some (Thread p) else None
   | RetP (Proc_mkdir _) p \<Rightarrow> if is_addr p then Some (ProcDir p) else None
   | RetP (Kobject_create_and_add _) p \<Rightarrow> if is_addr p then Some (Kobj p) else None
   | RetI (Sysfs_create_file k a) r \<Rightarrow> if r = 0 \<and> k = kernel_kobj then Some (SysFile k a) else None
   | RetI (Request_irq n) r \<Rightarrow> if r = 0 then Some (Irq n) else None
   | _ \<Rightarrow> None)"

definition c_rel :: "ccall kevent \<Rightarrow> cres option" where
  "c_rel ev = (case ev of
     Void (Unregister_chrdev_region d _) \<Rightarrow> Some (Region d)
   | Void (Unregister_chrdev m _) \<Rightarrow> Some (Chrdev m)
   | Void Cdev_del \<Rightarrow> Some CdevLive
   | Void (Class_destroy p) \<Rightarrow> Some (Class p)
   | Void (Device_destroy c d) \<Rightarrow> Some (Device c d)
   | Void (Kthread_stop p) \<Rightarrow> Some (Thread p)
   | Void (Proc_remove p) \<Rightarrow> Some (ProcDir p)
   | Void (Kobject_put p) \<Rightarrow> Some (Kobj p)
   | Void (Sysfs_remove_file k a) \<Rightarrow> Some (SysFile k a)
   | Void (Free_irq n) \<Rightarrow> Some (Irq n)
   | _ \<Rightarrow> None)"

declare c_acq_def [tables] c_rel_def [tables]

abbreviation c_ledger :: "ccall ktrace \<Rightarrow> cres ledger" where
  "c_ledger \<equiv> ledger_of c_acq c_rel"

definition chr_held :: "'x cworld_scheme \<Rightarrow> cres multiset" where
  "chr_held w = {#Region (dev w), CdevLive, Class (dev_class w), Device (dev_class w) (dev w)#}"

lemmas chr_code = chr_init_def alloc_chrdev_region_def unregister_region_def destroy_class_def
  r_class_del_def r_class_keep_def r_device_def chr_exit_def

lemma plain_fops_keep:
  assumes "\<And>w t. held (w\<lparr>trace := t\<rparr>) = held w"
  shows "m \<in> range (file_do plain_fops) \<Longrightarrow> keeps c_acq c_rel held m"
  by (rule keeps_file_do) (simp_all add: keeps_def plain_fops_def final_world_def krun ledger_of_append tables assms)

lemma ledger_split: "\<exists>M B. c_ledger tr = \<lparr>owned = M, misused = B\<rparr>"
  by (cases "c_ledger tr") auto

text \<open>When the common sequence succeeds, the module's own part starts with the device registered.\<close>

lemma chr_init_reaches_rest:
  assumes run: "run_state (chr_init E region cls node r_class rest) w = (0, w')"
    and neg: "\<And>v. result r_class v \<noteq> 0"
  shows "\<exists>w1. run_state rest w1 = (0, w') \<and> (no_err_ptr E \<longrightarrow>
    c_ledger (trace w1) = (c_ledger (trace w))\<lparr>owned := owned (c_ledger (trace w)) + chr_held w1\<rparr>) \<and>
    owned (c_ledger (trace w1)) \<subseteq># owned (c_ledger (trace w)) + chr_held w1"
proof -
  obtain M B where l: "c_ledger (trace w) = \<lparr>owned = M, misused = B\<rparr>" using ledger_split by blast
  let ?a = "ret_int E (trace w) (Alloc_chrdev_region 0 1 region)"
  let ?t1 = "trace w @ [RetI (Alloc_chrdev_region 0 1 region) ?a]"
  let ?d = "ret_int E ?t1 Region_dev"
  let ?t2 = "?t1 @ [RetI Region_dev ?d, Void Cdev_init]"
  let ?b = "ret_int E ?t2 (Cdev_add ?d 1)"
  let ?t3 = "?t2 @ [RetI (Cdev_add ?d 1) ?b]"
  let ?c = "ret_ptr E ?t3 (Class_create cls)"
  let ?t4 = "?t3 @ [RetP (Class_create cls) ?c]"
  let ?n = "ret_ptr E ?t4 (Device_create ?c ?d node)"
  have neg': "fst (run_state r_class v) \<noteq> 0" for v using neg [of v] by (simp add: result_def)
  have n2: "run_state r_class v \<noteq> (0, w')" for v using neg' [of v] by (metis fst_conv)
  have a: "\<not> ?a < 0" using run by (auto simp: chr_code krun)
  then have b: "\<not> ?b < 0" using run n2 by (auto simp: chr_code krun)
  then have c: "?c \<noteq> Null" using run a n2 by (auto simp: chr_code krun)
  then have n: "?n \<noteq> Null" using run a b n2 by (auto simp: chr_code krun)
  show ?thesis
    using run a b c n
    by (auto simp: chr_code krun l no_err_ptr_def ledger_of_append ledger_step_owned tables chr_held_def intro!: exI)
qed

end
