(* ===== verification/Sync_Modules.thy ===== *)
theory Sync_Modules
  imports Char_Module
begin

text \<open>
  Load, unload and file operations of the six synchronisation modules. They differ in the
  names of the threads and in where they initialise their lock.
\<close>

section \<open>The modules\<close>

text \<open>
  \<open>before\<close> and \<open>behind\<close> are the statements before the first and after the second
  \<^verbatim>\<open>kthread_run\<close>.
\<close>

definition start_threads ::
  "ccall kenv \<Rightarrow> ('x cworld_scheme, unit) state \<Rightarrow> string \<Rightarrow> string \<Rightarrow> ('x cworld_scheme, unit) state \<Rightarrow>
    ('x cworld_scheme, int) state" where
  "start_threads E before n1 n2 behind = do {
     before;
     t1 \<leftarrow> kptr_call E (Kthread_run ''thread_function1'' n1);
     modify (\<lambda>w. w\<lparr>test_thread1 := t1\<rparr>);
     if t1 = Null then r_device r_class_del
     else do {
       t2 \<leftarrow> kptr_call E (Kthread_run ''thread_function2'' n2);
       modify (\<lambda>w. w\<lparr>test_thread2 := t2\<rparr>);
       if t2 = Null then r_device r_class_del
       else do { behind; ret 0 } } }"

definition two_thread_init ::
  "ccall kenv \<Rightarrow> ('x cworld_scheme, unit) state \<Rightarrow> string \<Rightarrow> string \<Rightarrow> ('x cworld_scheme, unit) state \<Rightarrow>
    ('x cworld_scheme, int) state" where
  "two_thread_init E before n1 n2 behind =
     chr_init E ''test_Dev'' ''test_class'' ''test_device'' r_class_del
       (start_threads E before n1 n2 behind)"

definition two_thread_exit :: "('x cworld_scheme, unit) state" where
  "two_thread_exit = do {
     t1 \<leftarrow> gets test_thread1;
     kvoid (Kthread_stop t1);
     t2 \<leftarrow> gets test_thread2;
     kvoid (Kthread_stop t2);
     chr_exit }"

definition spin1_init :: "ccall kenv \<Rightarrow> (cworld, int) state" where
  "spin1_init E = two_thread_init E (ret ()) ''eTx Thread1'' ''eTx Thread2'' (ret ())"

definition spin1_exit :: "ccall kenv \<Rightarrow> (cworld, unit) state" where
  "spin1_exit E = two_thread_exit"


definition spin2_init :: "ccall kenv \<Rightarrow> (cworld, int) state" where
  "spin2_init E = two_thread_init E (ret ()) ''eTx Thread1'' ''eTx Thread2'' (ret ())"

definition spin2_exit :: "ccall kenv \<Rightarrow> (cworld, unit) state" where
  "spin2_exit E = two_thread_exit"


definition seqlock1_init :: "ccall kenv \<Rightarrow> (cworld, int) state" where
  "seqlock1_init E = two_thread_init E (ret ()) ''test Thread1'' ''test Thread2'' (kvoid (Lock_init ''test_seq_lock''))"

definition seqlock1_exit :: "ccall kenv \<Rightarrow> (cworld, unit) state" where
  "seqlock1_exit E = two_thread_exit"


definition atomic1_init :: "ccall kenv \<Rightarrow> (cworld, int) state" where
  "atomic1_init E = two_thread_init E (ret ()) ''test Thread1'' ''test Thread2'' (ret ())"

definition atomic1_exit :: "ccall kenv \<Rightarrow> (cworld, unit) state" where
  "atomic1_exit E = two_thread_exit"


definition mtx1_init :: "ccall kenv \<Rightarrow> (cworld, int) state" where
  "mtx1_init E = two_thread_init E (kvoid (Lock_init ''test_mutex'')) ''test Thread1'' ''test Thread2'' (ret ())"

definition mtx1_exit :: "ccall kenv \<Rightarrow> (cworld, unit) state" where
  "mtx1_exit E = two_thread_exit"


definition sem1_init :: "ccall kenv \<Rightarrow> (cworld, int) state" where
  "sem1_init E = two_thread_init E (kvoid (Lock_init ''sem = 1'')) ''test Thread1'' ''test Thread2'' (ret ())"

definition sem1_exit :: "ccall kenv \<Rightarrow> (cworld, unit) state" where
  "sem1_exit E = two_thread_exit"


lemmas two_thread_code = two_thread_init_def start_threads_def two_thread_exit_def

lemmas sync_init_defs =
  spin1_init_def spin2_init_def seqlock1_init_def atomic1_init_def mtx1_init_def sem1_init_def

lemmas sync_exit_defs =
  spin1_exit_def spin2_exit_def seqlock1_exit_def atomic1_exit_def mtx1_exit_def sem1_exit_def

section \<open>Balance\<close>


text \<open>The statements around the thread creation acquire nothing and keep the variables.\<close>

definition quiet :: "(cworld, unit) state \<Rightarrow> bool" where
  "quiet m \<longleftrightarrow> m = ret () \<or> (\<exists>s. m = kvoid (Lock_init s))"

lemma quiet_simps [simp]: "quiet (ret ())" "quiet (kvoid (Lock_init s))"
  by (auto simp: quiet_def)




definition is_two_thread ::
  "(ccall kenv \<Rightarrow> (cworld, int) state) \<Rightarrow> (ccall kenv \<Rightarrow> (cworld, unit) state) \<Rightarrow> bool" where
  "is_two_thread init exit \<longleftrightarrow> (\<exists>before n1 n2 behind. quiet before \<and> quiet behind \<and>
     init = (\<lambda>E. two_thread_init E before n1 n2 behind) \<and> exit = (\<lambda>E. two_thread_exit))"












text \<open>The six modules, for statements about all of them.\<close>

definition sync_modules :: "((ccall kenv \<Rightarrow> (cworld, int) state) \<times> (ccall kenv \<Rightarrow> (cworld, unit) state)) list" where
  "sync_modules = [(spin1_init, spin1_exit), (spin2_init, spin2_exit), (seqlock1_init, seqlock1_exit), (atomic1_init, atomic1_exit), (mtx1_init, mtx1_exit), (sem1_init, sem1_exit)]"

lemma is_two_threadI:
  "quiet before \<Longrightarrow> quiet behind \<Longrightarrow>
     is_two_thread (\<lambda>E. two_thread_init E before n1 n2 behind) (\<lambda>E. two_thread_exit)"
  unfolding is_two_thread_def by blast

lemma sync_modules_cases: "(init, exit) \<in> set sync_modules \<Longrightarrow> is_two_thread init exit"
  unfolding sync_modules_def sync_init_defs [abs_def] sync_exit_defs [abs_def]
  by (auto intro: is_two_threadI)

section \<open>Properties\<close>




definition cw0 :: cworld where
  "cw0 = \<lparr>trace = [], dev = 0, dev_class = Null, test_thread1 = Null, test_thread2 = Null,
     parent = Null, kobj_ref = Null\<rparr>"

definition good_env :: "ccall kenv" where
  "good_env = \<lparr>ret_int = (\<lambda>tr c. 0), ret_ptr = (\<lambda>tr c. Ptr (length tr))\<rparr>"


lemmas sync_run = sync_init_defs sync_exit_defs two_thread_code chr_code krun result_def final_world_def
  cw0_def


text \<open>
  The failure paths, as far as they are complete: when the class or the device node
  cannot be created (a null answer), the load returns -1 and everything registered before
  has been given back.
\<close>

theorem sync_early_failure_clean:
  assumes "(init, exit) \<in> set sync_modules" and "no_err_ptr E"
    and "\<forall>tr c. 0 \<le> ret_int E tr c"
    and "(\<forall>tr s. ret_ptr E tr (Class_create s) = Null) \<or>
      (\<forall>tr c d s. ret_ptr E tr (Device_create c d s) = Null)"
  shows "result (init E) w = - 1 \<and> c_ledger (trace (final_world (init E) w)) = c_ledger (trace w)"
proof -
  obtain before n1 n2 behind where d: "init = (\<lambda>E. two_thread_init E before n1 n2 behind)"
    using sync_modules_cases [OF assms(1)] unfolding is_two_thread_def by blast
  have a: "\<not> IS_ERR (ret_ptr E tr c)" "\<not> ret_int E tr c < 0" for tr c
    using assms(2,3) by (auto simp: no_err_ptr_def not_less)
  obtain M B where l: "c_ledger (trace w) = \<lparr>owned = M, misused = B\<rparr>" using ledger_split by blast
  let ?a = "ret_int E (trace w) (Alloc_chrdev_region 0 1 ''test_Dev'')"
  let ?t1 = "trace w @ [RetI (Alloc_chrdev_region 0 1 ''test_Dev'') ?a]"
  let ?d = "ret_int E ?t1 Region_dev"
  let ?t2 = "?t1 @ [RetI Region_dev ?d, Void Cdev_init]"
  let ?b = "ret_int E ?t2 (Cdev_add ?d 1)"
  let ?c = "ret_ptr E (?t2 @ [RetI (Cdev_add ?d 1) ?b]) (Class_create ''test_class'')"
  show ?thesis
    using assms(4)
    by (cases "?c = Null")
      (auto simp: d two_thread_init_def chr_code result_def final_world_def krun a l
        ledger_of_append tables)
qed

definition no_class_env :: "ccall kenv" where
  "no_class_env = good_env\<lparr>ret_ptr := \<lambda>tr c. case c of Class_create _ \<Rightarrow> Null | _ \<Rightarrow> Ptr 1\<rparr>"

theorem sync_early_failure_clean_witness:
  "result (mtx1_init no_class_env) cw0 = - 1 \<and>
   c_ledger (trace (final_world (mtx1_init no_class_env) cw0)) = c_ledger (trace cw0)"
proof -
  have "no_err_ptr no_class_env"
    by (auto simp: no_err_ptr_def no_class_env_def split: ccall.splits)
  then show ?thesis
    by (intro sync_early_failure_clean [of mtx1_init mtx1_exit])
      (simp_all add: sync_modules_def no_class_env_def good_env_def)
qed

text \<open>
  The failure path of the second thread is not complete: when it cannot be created, the
  load returns -1 but the device node stays and the first thread keeps running in code that
  is about to be removed.
\<close>

theorem sync_thread2_failure_leaks:
  assumes "(init, exit) \<in> set sync_modules" and "no_err_ptr E"
    and "\<forall>tr c. 0 \<le> ret_int E tr c"
    and "\<forall>tr c. ret_ptr E tr c = Null \<longleftrightarrow> (\<exists>s. c = Kthread_run ''thread_function2'' s)"
  shows "result (init E) w = - 1 \<and> (let w' = final_world (init E) w in
    c_ledger (trace w') = (c_ledger (trace w))\<lparr>owned := owned (c_ledger (trace w)) +
      {#Device (dev_class w') (dev w'), Thread (test_thread1 w')#}\<rparr>)"
proof -
  obtain before n1 n2 behind where q: "quiet before" and d: "init = (\<lambda>E. two_thread_init E before n1 n2 behind)"
    using sync_modules_cases [OF assms(1)] unfolding is_two_thread_def by blast
  have a: "\<not> IS_ERR (ret_ptr E tr c)" "\<not> ret_int E tr c < 0" for tr c
    using assms(2,3) by (auto simp: no_err_ptr_def not_less)
  have n: "ret_ptr E tr (Kthread_run ''thread_function2'' s) = Null"
    "ret_ptr E tr (Kthread_run ''thread_function1'' s) \<noteq> Null"
    "ret_ptr E tr (Class_create s) \<noteq> Null" "ret_ptr E tr (Device_create c x s) \<noteq> Null" for tr s c x
    using assms(4) by auto
  obtain M B where l: "c_ledger (trace w) = \<lparr>owned = M, misused = B\<rparr>" using ledger_split by blast
  have b: "before = ret () \<or> (\<exists>s. before = kvoid (Lock_init s))" using q by (simp add: quiet_def)
  show ?thesis
    using b by (elim disjE exE) (simp_all add: d two_thread_init_def start_threads_def chr_code result_def
        final_world_def krun a n l ledger_of_append tables)
qed

definition no_thread2_env :: "ccall kenv" where
  "no_thread2_env = good_env\<lparr>ret_ptr := \<lambda>tr c. case c of Kthread_run f _ \<Rightarrow>
     (if f = ''thread_function2'' then Null else Ptr 7) | _ \<Rightarrow> Ptr 1\<rparr>"

theorem sync_thread2_failure_leaks_witness:
  "result (spin1_init no_thread2_env) cw0 = - 1 \<and>
   Thread (Ptr 7) \<in># owned (c_ledger (trace (final_world (spin1_init no_thread2_env) cw0)))"
proof -
  have "no_err_ptr no_thread2_env"
    by (auto simp: no_err_ptr_def no_thread2_env_def split: ccall.splits)
  moreover have "\<forall>tr c. ret_ptr no_thread2_env tr c = Null \<longleftrightarrow> (\<exists>s. c = Kthread_run ''thread_function2'' s)"
    by (auto simp: no_thread2_env_def split: ccall.splits)
  moreover have "test_thread1 (final_world (spin1_init no_thread2_env) cw0) = Ptr 7"
    by (simp add: sync_run no_thread2_env_def good_env_def)
  ultimately show ?thesis
    using sync_thread2_failure_leaks [of spin1_init spin1_exit no_thread2_env cw0]
    by (simp add: sync_modules_def Let_def no_thread2_env_def good_env_def)
qed

lemma thread_err_unowned: "Thread (ErrPtr e) \<notin># owned (c_ledger tr)"
  by (rule ledger_never_owned) (auto simp: c_acq_def split: kevent.splits ccall.splits if_splits)

lemma exit_misuses_missing_thread:
  assumes "test_thread2 w = ErrPtr e"
  shows "Thread (ErrPtr e) \<in># misused (c_ledger (trace (final_world two_thread_exit w)))"
proof -
  let ?t = "trace w @ [Void (Kthread_stop (test_thread1 w))]"
  have "Thread (ErrPtr e) \<in># misused (c_ledger (?t @ [Void (Kthread_stop (ErrPtr e))]))"
    using thread_err_unowned [of e ?t] by (simp only: ledger_of_append [of _ _ ?t]) (simp add: c_rel_def)
  moreover have "\<exists>ys. trace (final_world two_thread_exit w) = (?t @ [Void (Kthread_stop (ErrPtr e))]) @ ys"
    using assms by (simp add: two_thread_exit_def chr_exit_def final_world_def krun)
  ultimately show ?thesis
    using ledger_misused_mono [of c_acq c_rel "?t @ [Void (Kthread_stop (ErrPtr e))]"]
    by (metis mset_subset_eqD)
qed

text \<open>
  The pointer checks compare with \<^verbatim>\<open>NULL\<close>, while these interfaces report errors as error
  pointers: if no answer is null and the numbers are allocated, the load always reports
  success, whatever the class, device and thread creations answered; if the second thread
  was not created, the unload then stops a thread that does not exist.
\<close>

theorem sync_error_pointers_undetected:
  assumes "(init, exit) \<in> set sync_modules" and "\<forall>tr c. ret_ptr E tr c \<noteq> Null"
    and "\<forall>tr c. 0 \<le> ret_int E tr c"
  shows "result (init E) w = 0 \<and>
    (\<forall>e. test_thread2 (final_world (init E) w) = ErrPtr e \<longrightarrow>
       Thread (ErrPtr e) \<in># misused (c_ledger (trace (final_world (exit E) (final_world (init E) w)))))"
proof -
  obtain before n1 n2 behind where q: "quiet before" "quiet behind"
    and d: "init = (\<lambda>E. two_thread_init E before n1 n2 behind)" "exit = (\<lambda>E. two_thread_exit)"
    using sync_modules_cases [OF assms(1)] unfolding is_two_thread_def by blast
  have a: "\<not> ret_int E tr c < 0" for tr c using assms(3) by (simp add: not_less)
  have qs: "before = ret () \<or> (\<exists>s. before = kvoid (Lock_init s))"
    "behind = ret () \<or> (\<exists>s. behind = kvoid (Lock_init s))" using q by (auto simp: quiet_def)
  have "result (init E) w = 0"
    using qs assms(2) by (elim disjE exE) (simp_all add: d two_thread_init_def start_threads_def
        chr_init_def alloc_chrdev_region_def result_def krun a)
  then show ?thesis by (auto simp: d intro: exit_misuses_missing_thread)
qed

theorem sync_error_pointers_undetected_witness:
  "result (atomic1_init (good_env\<lparr>ret_ptr := \<lambda>_ _. ErrPtr (- 12)\<rparr>)) cw0 = 0"
proof -
  let ?E = "good_env\<lparr>ret_ptr := \<lambda>_ _. ErrPtr (- 12)\<rparr>"
  have "(atomic1_init, atomic1_exit) \<in> set sync_modules" by (simp add: sync_modules_def)
  then show ?thesis
    using sync_error_pointers_undetected [of atomic1_init atomic1_exit ?E cw0] by (simp add: good_env_def)
qed

text \<open>
  The sequence-lock module initialises its lock after both threads run on it: in every
  successful load \<^verbatim>\<open>seqlock_init\<close> is the last call, behind the creation of the threads,
  while the mutex and semaphore modules initialise theirs before.
\<close>

theorem seqlock1_initialised_late:
  assumes "result (seqlock1_init E) w = 0"
  shows "\<exists>tr t1 t2. trace (final_world (seqlock1_init E) w) = tr @
    [RetP (Kthread_run ''thread_function1'' ''test Thread1'') t1,
     RetP (Kthread_run ''thread_function2'' ''test Thread2'') t2, Void (Lock_init ''test_seq_lock'')]"
proof -
  let ?w' = "final_world (seqlock1_init E) w"
  have neg: "result r_class_del v \<noteq> 0" "fst (run_state (r_device r_class_del) v) = - 1" for v :: cworld
    by (simp_all add: result_def r_device_def r_class_del_def unregister_region_def destroy_class_def krun)
  have "run_state (seqlock1_init E) w = (0, ?w')"
    using assms by (cases "run_state (seqlock1_init E) w") (simp add: result_def final_world_def)
  then obtain w1 where "run_state (start_threads E (ret ()) ''test Thread1'' ''test Thread2''
      (kvoid (Lock_init ''test_seq_lock''))) w1 = (0, ?w')"
    using chr_init_reaches_rest [OF _ neg(1)] unfolding seqlock1_init_def two_thread_init_def by blast
  then have "0 = fst (run_state (start_threads E (ret ()) ''test Thread1'' ''test Thread2''
      (kvoid (Lock_init ''test_seq_lock''))) w1)"
    and "trace ?w' = trace (snd (run_state (start_threads E (ret ()) ''test Thread1'' ''test Thread2''
      (kvoid (Lock_init ''test_seq_lock''))) w1))" by simp_all
  then show ?thesis
    by (simp add: start_threads_def krun neg split: if_splits)
qed

theorem seqlock1_initialised_late_witness:
  "last (trace (final_world (seqlock1_init good_env) cw0)) = Void (Lock_init ''test_seq_lock'')"
proof -
  have "result (seqlock1_init good_env) cw0 = 0" by (simp add: sync_run good_env_def)
  then show ?thesis using seqlock1_initialised_late by force
qed

end
