(* ===== verification/Ring_Buffer.thy ===== *)
theory Ring_Buffer
  imports Char_Module
begin

text \<open>
  The wait-queue exercise \<^verbatim>\<open>WaitQueue/wait1.c\<close>: a device that hands bytes from a writer to a
  reader through a ring of 512 bytes. Both handlers can sleep, so each is a
  machine whose steps are the stretches of code between two points where another process
  can run. \<open>byte_queue\<close> is the contract of a bounded queue; the ring is an instance of it
  and the theorem that bytes come out in the order they went in rests on it.
\<close>

section \<open>State and handlers\<close>

definition RINGSIZE :: int where
  "RINGSIZE = 512"

record ring_state =
  head :: int
  tail :: int
  ring :: "byte list"
  condition :: int

text \<open>
  C's remainder truncates towards zero (\<^const>\<open>signed_modulo\<close>), so \<^verbatim>\<open>(0 - 1) % 512\<close> is -1.
\<close>

definition c_rem :: "int \<Rightarrow> int \<Rightarrow> int" where
  "c_rem a b = a smod b"

text \<open>
  What the outside world answers during one step: whether a signal is pending, whether the
  access to the user's buffer succeeds, and the byte found there.
\<close>

record answer =
  signal_pending :: bool
  user_ok :: bool
  user_byte :: byte

text \<open>Where a call of \<^verbatim>\<open>my_write\<close> or \<^verbatim>\<open>my_read\<close> stands, with its local variable.\<close>

datatype phase = Enter | Check int | Asleep int | Copy | Advance | Return int

text \<open>\<^verbatim>\<open>get_user\<close> sets its variable to zero when it fails.\<close>

fun my_write :: "answer \<Rightarrow> phase \<Rightarrow> ring_state \<Rightarrow> phase \<times> ring_state" where
  "my_write a Enter s = (Check (c_rem (head s - 1) RINGSIZE), s)"
| "my_write a (Check prev) s =
     (if prev = tail s then (Asleep prev, s\<lparr>condition := 0\<rparr>) else (Copy, s))"
| "my_write a (Asleep prev) s =
     (if condition s \<noteq> 0 \<or> signal_pending a
      then (if signal_pending a then (Return (- ERESTARTSYS), s) else (Check prev, s))
      else (Asleep prev, s))"
| "my_write a Copy s =
     (if user_ok a then (Advance, s\<lparr>ring := (ring s)[nat (tail s) := user_byte a]\<rparr>)
      else (Return (- EFAULT), s\<lparr>ring := (ring s)[nat (tail s) := 0]\<rparr>))"
| "my_write a Advance s =
     (Return 1, s\<lparr>tail := c_rem (1 + tail s) RINGSIZE, condition := 1\<rparr>)"
| "my_write a (Return r) s = (Return r, s)"

text \<open>\<open>my_read\<close> also yields the byte it stores in the user's buffer.\<close>

fun my_read :: "answer \<Rightarrow> phase \<Rightarrow> ring_state \<Rightarrow> phase \<times> ring_state \<times> byte option" where
  "my_read a Enter s = (Check (head s), s, None)"
| "my_read a (Check next) s =
     (if next = tail s then (Asleep next, s\<lparr>condition := 0\<rparr>, None) else (Copy, s, None))"
| "my_read a (Asleep next) s =
     (if condition s \<noteq> 0 \<or> signal_pending a
      then (if signal_pending a then (Return (- ERESTARTSYS), s, None) else (Check next, s, None))
      else (Asleep next, s, None))"
| "my_read a Copy s =
     (if user_ok a then (Advance, s, Some (ring s ! nat (head s)))
      else (Return (- EFAULT), s, None))"
| "my_read a Advance s =
     (Return 1, s\<lparr>head := c_rem (1 + head s) RINGSIZE, condition := 1\<rparr>, None)"
| "my_read a (Return r) s = (Return r, s, None)"

section \<open>Load and unload\<close>

definition my_major :: int where
  "my_major = 40"

definition wait1_init :: "ccall kenv \<Rightarrow> (cworld, int) state" where
  "wait1_init E = do { kvoid (Printk ''Installing module''); kvoid Init_waitqueue_head;
     kint E (Register_chrdev my_major ''wait1'') }"

definition wait1_exit :: "ccall kenv \<Rightarrow> (cworld, unit) state" where
  "wait1_exit E = do { kvoid (Printk ''Removing module''); kvoid (Unregister_chrdev my_major ''wait1'') }"

interpretation wait1m: kernel_module wait1_init wait1_exit c_acq c_rel "\<lambda>w. {#Chrdev my_major#}" "\<lambda>E. True"
proof unfold_locales
  fix E and w w' :: cworld
  assume "run_state (wait1_init E) w = (0, w')"
  moreover obtain M B where "c_ledger (trace w) = \<lparr>owned = M, misused = B\<rparr>" using ledger_split by blast
  ultimately show "c_ledger (trace w') =
      (c_ledger (trace w))\<lparr>owned := owned (c_ledger (trace w)) + {#Chrdev my_major#}\<rparr>"
    by (auto simp: wait1_init_def my_major_def krun ledger_of_append tables)
next
  fix E and M :: "cres multiset" and w :: cworld
  assume a: "owned (c_ledger (trace w)) = M + {#Chrdev my_major#}"
  obtain B where "c_ledger (trace w) = \<lparr>owned = M + {#Chrdev my_major#}, misused = B\<rparr>"
    using ledger_cases [OF a] by blast
  then show "c_ledger (trace (final_world (wait1_exit E) w)) = (c_ledger (trace w))\<lparr>owned := M\<rparr>"
    by (simp add: wait1_exit_def final_world_def krun ledger_of_append tables)
qed

section \<open>The ring as a bounded queue\<close>

text \<open>
  The contract of a bounded queue: \<open>items\<close> is the abstract content, \<open>room\<close> says that another
  byte fits, \<open>put\<close> appends and \<open>get\<close> drops the first.
\<close>

locale byte_queue =
  fixes inv :: "'q \<Rightarrow> bool"
    and items :: "'q \<Rightarrow> byte list"
    and room :: "'q \<Rightarrow> bool"
    and put :: "byte \<Rightarrow> 'q \<Rightarrow> 'q"
    and first :: "'q \<Rightarrow> byte"
    and get :: "'q \<Rightarrow> 'q"
  assumes put_inv: "inv q \<Longrightarrow> inv (put b q)"
    and put_items: "inv q \<Longrightarrow> room q \<Longrightarrow> items (put b q) = items q @ [b]"
    and get_inv: "inv q \<Longrightarrow> inv (get q)"
    and get_items: "inv q \<Longrightarrow> items q \<noteq> [] \<Longrightarrow> items q = first q # items (get q)"
begin

text \<open>Filling an empty queue and emptying it returns the bytes in order.\<close>

fun drain :: "nat \<Rightarrow> 'q \<Rightarrow> byte list \<times> 'q" where
  "drain 0 q = ([], q)"
| "drain (Suc n) q = (case drain n (get q) of (bs, q') \<Rightarrow> (first q # bs, q'))"

lemma drain_items:
  "inv q \<Longrightarrow> n \<le> length (items q) \<Longrightarrow>
     fst (drain n q) = take n (items q) \<and> items (snd (drain n q)) = drop n (items q)
       \<and> inv (snd (drain n q))"
proof (induction n arbitrary: q)
  case (Suc n)
  then have ne: "items q \<noteq> []" by auto
  have h: "items q = first q # items (get q)" using get_items [OF Suc.prems(1) ne] .
  have "n \<le> length (items (get q))" using Suc.prems(2) h by (metis Suc_le_mono length_Cons)
  then have "fst (drain n (get q)) = take n (items (get q)) \<and>
      items (snd (drain n (get q))) = drop n (items (get q)) \<and> inv (snd (drain n (get q)))"
    using Suc.IH get_inv [OF Suc.prems(1)] by blast
  moreover have "take (Suc n) (items q) = first q # take n (items (get q))"
    "drop (Suc n) (items q) = drop n (items (get q))"
    using h by (metis take_Suc_Cons, metis drop_Suc_Cons)
  ultimately show ?case by (simp add: case_prod_beta)
qed simp

end

definition fill :: "ring_state \<Rightarrow> nat" where
  "fill s = nat ((tail s - head s) mod 512)"

definition ring_inv :: "ring_state \<Rightarrow> bool" where
  "ring_inv s \<longleftrightarrow> length (ring s) = 512 \<and> 0 \<le> head s \<and> head s < 512 \<and> 0 \<le> tail s \<and> tail s < 512"

definition ring_items :: "ring_state \<Rightarrow> byte list" where
  "ring_items s = map (\<lambda>i. ring s ! nat ((head s + int i) mod 512)) [0..<fill s]"

definition ring_put :: "byte \<Rightarrow> ring_state \<Rightarrow> ring_state" where
  "ring_put b s = s\<lparr>ring := (ring s)[nat (tail s) := b], tail := c_rem (1 + tail s) RINGSIZE\<rparr>"

definition ring_get :: "ring_state \<Rightarrow> ring_state" where
  "ring_get s = s\<lparr>head := c_rem (1 + head s) RINGSIZE\<rparr>"

definition ring_first :: "ring_state \<Rightarrow> byte" where
  "ring_first s = ring s ! nat (head s)"

lemma c_rem_pos: "0 \<le> a \<Longrightarrow> 0 < b \<Longrightarrow> c_rem a b = a mod b"
  by (simp add: c_rem_def signed_modulo_int_def signed_divide_int_def sgn_if minus_mult_div_eq_mod [symmetric]
      mult.commute)

lemma ring_put_simps [simp]:
  "ring_inv s \<Longrightarrow> head (ring_put b s) = head s"
  "ring_inv s \<Longrightarrow> tail (ring_put b s) = (1 + tail s) mod 512"
  "ring_inv s \<Longrightarrow> ring (ring_put b s) = (ring s)[nat (tail s) := b]"
  by (simp_all add: ring_put_def ring_inv_def c_rem_pos RINGSIZE_def)

lemma ring_get_simps [simp]:
  "ring_inv s \<Longrightarrow> head (ring_get s) = (1 + head s) mod 512"
  "ring_inv s \<Longrightarrow> tail (ring_get s) = tail s"
  "ring_inv s \<Longrightarrow> ring (ring_get s) = ring s"
  by (simp_all add: ring_get_def ring_inv_def c_rem_pos RINGSIZE_def)

lemma fill_less: "fill s < 512"
  unfolding fill_def by (simp add: nat_less_iff)

lemma fill_put:
  assumes "ring_inv s" and "fill s \<noteq> 511"
  shows "fill (ring_put b s) = Suc (fill s)"
proof -
  let ?d = "(tail s - head s) mod 512"
  have "(tail s - head s + 1) mod 512 = (?d + 1) mod 512" by (simp add: mod_simps)
  moreover have "0 \<le> ?d" "?d < 511" using assms(2) by (auto simp: fill_def)
  ultimately have "(tail s - head s + 1) mod 512 = ?d + 1" by simp
  then show ?thesis
    using assms(1) by (simp add: fill_def mod_simps algebra_simps)
qed

lemma fill_get:
  assumes "ring_inv s" and "fill s \<noteq> 0"
  shows "fill s = Suc (fill (ring_get s))"
proof -
  let ?d = "(tail s - head s) mod 512"
  have "(tail s - head s - 1) mod 512 = (?d - 1) mod 512" by (simp add: mod_simps)
  moreover have "0 < ?d" "?d < 512" using assms(2) by (auto simp: fill_def)
  ultimately have "(tail s - head s - 1) mod 512 = ?d - 1" by simp
  then show ?thesis
    using assms \<open>0 < ?d\<close> by (simp add: fill_def mod_simps algebra_simps)
qed

lemma pos_fill: "ring_inv s \<Longrightarrow> (head s + int (fill s)) mod 512 = tail s"
  by (simp add: fill_def ring_inv_def mod_simps)

lemma pos_inj:
  assumes "(h + int i) mod 512 = (h + int j) mod 512" and "i < 512" "j < 512"
  shows "i = j"
proof -
  have "(h + int i - h) mod 512 = (h + int j - h) mod 512" using assms(1) by (rule mod_diff_cong) simp
  then show ?thesis using assms(2,3) by simp
qed

lemma pos_bound: "nat ((h + int i) mod 512) < 512"
  by (simp add: nat_less_iff)

text \<open>Storing at the tail position does not touch the content.\<close>

lemma items_store:
  assumes "ring_inv s"
  shows "ring_items (s\<lparr>ring := (ring s)[nat (tail s) := b]\<rparr>) = ring_items s"
proof -
  have "nat (tail s) \<noteq> nat ((head s + int i) mod 512)" if "i < fill s" for i
  proof
    assume "nat (tail s) = nat ((head s + int i) mod 512)"
    then have "(head s + int i) mod 512 = (head s + int (fill s)) mod 512"
      using assms pos_fill [OF assms] by (simp add: ring_inv_def eq_nat_nat_iff)
    then show False using pos_inj [of "head s" i "fill s"] that fill_less [of s] by simp
  qed
  then show ?thesis by (auto simp: ring_items_def fill_def)
qed

lemma items_put:
  assumes "ring_inv s" and "fill s \<noteq> 511"
  shows "ring_items (ring_put b s) = ring_items s @ [b]"
proof -
  let ?s = "s\<lparr>ring := (ring s)[nat (tail s) := b]\<rparr>"
  have "ring_items (ring_put b s) =
      map (\<lambda>i. (ring s)[nat (tail s) := b] ! nat ((head s + int i) mod 512)) [0..<Suc (fill s)]"
    by (simp only: ring_items_def fill_put [OF assms] ring_put_simps [OF assms(1)])
  also have "\<dots> = ring_items ?s @ [(ring s)[nat (tail s) := b] ! nat (tail s)]"
    using pos_fill [OF assms(1)] by (simp add: ring_items_def fill_def)
  also have "\<dots> = ring_items s @ [b]"
    using assms(1) by (simp add: items_store) (simp add: ring_inv_def nat_less_iff)
  finally show ?thesis .
qed

lemma items_get:
  assumes "ring_inv s" and "fill s \<noteq> 0"
  shows "ring_items s = ring_first s # ring_items (ring_get s)"
proof -
  have "((1 + head s) mod 512 + int i) mod 512 = (head s + int (Suc i)) mod 512" for i
    by (simp add: mod_simps algebra_simps)
  then have r: "ring_items (ring_get s) = map (\<lambda>i. ring s ! nat ((head s + int (Suc i)) mod 512)) [0..<fill (ring_get s)]"
    using assms(1) by (simp add: ring_items_def)
  have "ring_items s = ring s ! nat ((head s + int 0) mod 512) #
      map (\<lambda>i. ring s ! nat ((head s + int (Suc i)) mod 512)) [0..<fill (ring_get s)]"
    unfolding ring_items_def fill_get [OF assms] by (simp only: map_upt_Suc)
  then show ?thesis using assms(1) by (simp add: r ring_first_def) (simp add: ring_inv_def)
qed

lemma items_empty: "ring_items s = [] \<longleftrightarrow> fill s = 0"
  by (simp add: ring_items_def)

lemma ring_inv_put: "ring_inv s \<Longrightarrow> ring_inv (ring_put b s)"
  unfolding ring_inv_def [of "ring_put b s"] by (simp, simp add: ring_inv_def)

lemma ring_inv_get: "ring_inv s \<Longrightarrow> ring_inv (ring_get s)"
  unfolding ring_inv_def [of "ring_get s"] by (simp, simp add: ring_inv_def)

interpretation ringq: byte_queue ring_inv ring_items "\<lambda>s. fill s \<noteq> 511" ring_put ring_first ring_get
  by unfold_locales (auto intro: ring_inv_put ring_inv_get items_put items_get simp: items_empty)

section \<open>One writer and one reader\<close>

text \<open>
  The device with one writing and one reading process. \<open>accepted\<close> and \<open>delivered\<close> record the
  bytes taken from the writer and given to the reader. An event lets one of
  the processes execute its next stretch of code, or start a new call.
\<close>

record wq_sys =
  rs :: ring_state
  wph :: phase
  rph :: phase
  accepted :: "byte list"
  delivered :: "byte list"

datatype wq_event = W answer | R answer

fun restart :: "phase \<Rightarrow> phase" where
  "restart (Return r) = Enter"
| "restart p = p"

fun wq_step :: "wq_event \<Rightarrow> wq_sys \<Rightarrow> wq_sys" where
  "wq_step (W a) q = (case my_write a (restart (wph q)) (rs q) of (p, s) \<Rightarrow>
     q\<lparr>rs := s, wph := p,
       accepted := (if wph q = Advance then accepted q @ [ring (rs q) ! nat (tail (rs q))] else accepted q)\<rparr>)"
| "wq_step (R a) q = (case my_read a (restart (rph q)) (rs q) of (p, s, b) \<Rightarrow>
     q\<lparr>rs := s, rph := p,
       delivered := (case b of Some x \<Rightarrow> delivered q @ [x] | None \<Rightarrow> delivered q)\<rparr>)"

definition wq_start :: wq_sys where
  "wq_start = \<lparr>rs = \<lparr>head = 0, tail = 0, ring = replicate 512 0, condition = 0\<rparr>, wph = Enter, rph = Enter,
     accepted = [], delivered = []\<rparr>"




lemma ring_cond [simp]:
  "ring_inv (s\<lparr>condition := c\<rparr>) = ring_inv s" "fill (s\<lparr>condition := c\<rparr>) = fill s"
  "ring_items (s\<lparr>condition := c\<rparr>) = ring_items s"
  by (simp_all add: ring_inv_def fill_def ring_items_def)


lemma store_simps [simp]:
  "fill (s\<lparr>ring := r\<rparr>) = fill s"
  "ring_inv s \<Longrightarrow> ring_inv (s\<lparr>ring := (ring s)[i := b]\<rparr>)"
  by (simp_all add: fill_def ring_inv_def)







section \<open>Properties\<close>


definition ok_byte :: "byte \<Rightarrow> answer" where
  "ok_byte b = \<lparr>signal_pending = False, user_ok = True, user_byte = b\<rparr>"



text \<open>A call that no other process disturbs.\<close>

definition call_write :: "byte \<Rightarrow> ring_state \<Rightarrow> phase \<times> ring_state" where
  "call_write b s = ((\<lambda>(p, t). my_write (ok_byte b) p t) ^^ 4) (Enter, s)"

definition call_read :: "ring_state \<Rightarrow> phase \<times> ring_state" where
  "call_read s = ((\<lambda>(p, t). case my_read (ok_byte 0) p t of (p', t', _) \<Rightarrow> (p', t')) ^^ 4) (Enter, s)"

lemma call_write_room:
  "c_rem (head s - 1) 512 \<noteq> tail s \<Longrightarrow> call_write b s = (Return 1, (ring_put b s)\<lparr>condition := 1\<rparr>)"
  by (simp add: call_write_def eval_nat_numeral ok_byte_def RINGSIZE_def ring_put_def)

lemma prev_full: "ring_inv s \<Longrightarrow> fill s \<noteq> 511 \<Longrightarrow> c_rem (head s - 1) 512 \<noteq> tail s"
proof
  assume r: "ring_inv s" and f: "fill s \<noteq> 511" and t: "c_rem (head s - 1) 512 = tail s"
  have h: "head s \<noteq> 0"
    using r t by (auto simp: c_rem_def ring_inv_def signed_modulo_int_def signed_divide_int_def)
  then have "tail s = head s - 1" using r t by (simp add: c_rem_pos ring_inv_def)
  then have "(tail s - head s) mod 512 = 511" by simp
  then show False using f by (simp add: fill_def)
qed

lemma call_read_items:
  assumes "ring_inv s" and "ring_items s \<noteq> []"
  shows "call_read s = (Return 1, (ring_get s)\<lparr>condition := 1\<rparr>)"
proof -
  have "head s \<noteq> tail s" using assms by (auto simp: items_empty fill_def)
  then show ?thesis
    by (simp add: call_read_def eval_nat_numeral ok_byte_def ring_get_def)
qed

text \<open>
  One undisturbed call refines the queue operation: with room and a readable buffer
  \<^verbatim>\<open>my_write\<close> returns 1 after four stretches and has appended its byte; on a non-empty ring
  \<^verbatim>\<open>my_read\<close> returns 1, hands out the first byte and has removed it.
\<close>

theorem wait1_calls_refine_queue:
  assumes "ring_inv s"
  shows "(fill s \<noteq> 511 \<longrightarrow> fst (call_write b s) = Return 1 \<and>
      ring_items (snd (call_write b s)) = ring_items s @ [b]) \<and>
    (ring_items s \<noteq> [] \<longrightarrow> fst (call_read s) = Return 1 \<and>
      snd (snd (my_read (ok_byte 0) Copy s)) = Some (hd (ring_items s)) \<and>
      ring_items (snd (call_read s)) = tl (ring_items s))"
proof -
  have "ring_items s \<noteq> [] \<Longrightarrow> ring_items s = ring_first s # ring_items (ring_get s)"
    using ringq.get_items [OF assms] by simp
  then have "ring_items s \<noteq> [] \<Longrightarrow> hd (ring_items s) = ring_first s \<and> tl (ring_items s) = ring_items (ring_get s)"
    by (metis list.sel)
  then show ?thesis
    using call_write_room [OF prev_full [OF assms]] call_read_items [OF assms] ringq.put_items [OF assms]
    by (simp add: ok_byte_def ring_first_def)
qed

definition ring0 :: ring_state where
  "ring0 = \<lparr>head = 3, tail = 3, ring = replicate 512 0, condition = 0\<rparr>"

theorem wait1_calls_refine_queue_witness:
  "ring_items (snd (call_write 7 ring0)) = [7]"
proof -
  have "ring_inv ring0" "fill ring0 = 0" by (simp_all add: ring0_def ring_inv_def fill_def)
  then show ?thesis using wait1_calls_refine_queue [of ring0 7] by (simp add: ring_items_def)
qed

text \<open>
  The full test fails when the head is at position 0, because C's \<^verbatim>\<open>(0 - 1) % 512\<close> is -1: the
  512th byte is accepted into a ring that holds 511, the tail meets the head, and the ring
  is empty. All 512 bytes are lost.
\<close>

theorem wait1_overrun_empties_ring:
  assumes "ring_inv s" and "head s = 0" and "tail s = 511"
  shows "length (ring_items s) = 511 \<and> fst (call_write b s) = Return 1 \<and>
    ring_items (snd (call_write b s)) = []"
proof -
  have "c_rem (head s - 1) 512 \<noteq> tail s"
    using assms by (simp add: c_rem_def signed_modulo_int_def signed_divide_int_def)
  moreover have "fill (ring_put b s) = 0" using assms by (simp add: fill_def)
  ultimately show ?thesis
    using assms by (simp add: call_write_room items_empty) (simp add: ring_items_def fill_def)
qed

theorem wait1_overrun_empties_ring_witness:
  "ring_items (snd (call_write 1 (ring0\<lparr>head := 0, tail := 511\<rparr>))) = []"
  using wait1_overrun_empties_ring [of "ring0\<lparr>head := 0, tail := 511\<rparr>" 1]
  by (simp add: ring0_def ring_inv_def)

text \<open>
  A writer that finds the ring full never gets out again: the position it compares with
  the tail is computed once, before the loop, and the tail moves only in \<^verbatim>\<open>my_write\<close>. Whatever
  the reader does, and however often it wakes the writer, without a signal the call goes on
  sleeping.
\<close>

theorem wait1_blocked_writer_stuck:
  assumes "wph q = Check (tail (rs q)) \<or> wph q = Asleep (tail (rs q))"
    and "\<forall>a. W a \<in> set es \<longrightarrow> \<not> signal_pending a"
  shows "let q' = fold wq_step es q in
    tail (rs q') = tail (rs q) \<and> accepted q' = accepted q \<and>
    (wph q' = Check (tail (rs q)) \<or> wph q' = Asleep (tail (rs q)))"
  using assms
proof (induction es arbitrary: q)
  case (Cons e es)
  have "tail (rs (wq_step e q)) = tail (rs q) \<and> accepted (wq_step e q) = accepted q \<and>
      (wph (wq_step e q) = Check (tail (rs q)) \<or> wph (wq_step e q) = Asleep (tail (rs q)))"
  proof (cases e)
    case (W a)
    then show ?thesis using Cons.prems by auto
  next
    case (R a)
    then show ?thesis using Cons.prems(1) by (cases "restart (rph q)") auto
  qed
  then show ?case using Cons.IH [of "wq_step e q"] Cons.prems(2) by (auto simp: Let_def)
qed simp

definition full_demo :: "wq_event list" where
  "full_demo = [W (ok_byte 1), R (ok_byte 0), R (ok_byte 0), R (ok_byte 0), R (ok_byte 0), W (ok_byte 1)]"

theorem wait1_blocked_writer_stuck_witness:
  "let q = wq_start\<lparr>rs := ring0\<lparr>tail := 2\<rparr>, wph := Check 2\<rparr>; q' = fold wq_step full_demo q in
   head (rs q') = 4 \<and> wph q' \<noteq> Copy"
proof -
  let ?q = "wq_start\<lparr>rs := ring0\<lparr>tail := 2\<rparr>, wph := Check 2\<rparr>"
  have "wph ?q = Check (tail (rs ?q)) \<or> wph ?q = Asleep (tail (rs ?q))" by (simp add: wq_start_def ring0_def)
  moreover have "\<forall>a. W a \<in> set full_demo \<longrightarrow> \<not> signal_pending a" by (auto simp: full_demo_def ok_byte_def)
  moreover have "head (rs (fold wq_step full_demo ?q)) = 4" by code_simp
  ultimately show ?thesis using wait1_blocked_writer_stuck [of ?q full_demo] by (auto simp: Let_def)
qed

end
