(* ===== verification/C_Decimal.thy ===== *)
theory C_Decimal
  imports Kernel_Prelude
begin

text \<open>
  The two library functions the sysfs attributes use, \<^verbatim>\<open>sprintf\<close> and \<^verbatim>\<open>sscanf\<close> with the
  conversion \<^verbatim>\<open>%d\<close>: printing gives the shortest decimal form, scanning skips white space,
  takes an optional minus sign and the digits that follow, and converts to 32 bits.
\<close>

definition digit :: "nat \<Rightarrow> char" where
  "digit d = char_of (48 + d)"

definition is_digit :: "char \<Rightarrow> bool" where
  "is_digit c \<longleftrightarrow> 48 \<le> (of_char c :: nat) \<and> (of_char c :: nat) \<le> 57"

definition digit_val :: "char \<Rightarrow> nat" where
  "digit_val c = of_char c - 48"

definition is_space :: "char \<Rightarrow> bool" where
  "is_space c \<longleftrightarrow> (of_char c :: nat) = 32 \<or> 9 \<le> (of_char c :: nat) \<and> (of_char c :: nat) \<le> 13"

fun nat_dec :: "nat \<Rightarrow> string" where
  "nat_dec n = (if n < 10 then [digit n] else nat_dec (n div 10) @ [digit (n mod 10)])"

declare nat_dec.simps [simp del]

definition sprintf_d :: "int \<Rightarrow> string" where
  "sprintf_d v = (if v < 0 then CHR ''-'' # nat_dec (nat (- v)) else nat_dec (nat v))"

definition scan_nat :: "string \<Rightarrow> nat option" where
  "scan_nat s = (case takeWhile is_digit s of [] \<Rightarrow> None
     | ds \<Rightarrow> Some (foldl (\<lambda>a c. a * 10 + digit_val c) 0 ds))"

definition sscanf_d :: "string \<Rightarrow> int option" where
  "sscanf_d s = (case dropWhile is_space s of
     [] \<Rightarrow> None
   | c # cs \<Rightarrow> if c = CHR ''-'' then map_option (\<lambda>n. s32 (- int n)) (scan_nat cs)
               else map_option (\<lambda>n. s32 (int n)) (scan_nat (c # cs)))"

lemma digit_simps [simp]:
  assumes "d < 10"
  shows "is_digit (digit d)" "digit_val (digit d) = d" "\<not> is_space (digit d)" "digit d \<noteq> CHR ''-''"
proof -
  have v: "(of_char (digit d) :: nat) = 48 + d"
    using assms by (simp add: digit_def)
  then show "is_digit (digit d)" "digit_val (digit d) = d" "\<not> is_space (digit d)"
    using assms by (auto simp: is_digit_def digit_val_def is_space_def)
  show "digit d \<noteq> CHR ''-''"
  proof
    assume "digit d = CHR ''-''"
    then have "(of_char (digit d) :: nat) = 45" by simp
    then show False using v by simp
  qed
qed

lemma nat_dec_digits: "list_all is_digit (nat_dec n)"
  by (induction n rule: nat_dec.induct) (subst nat_dec.simps, auto)

lemma nat_dec_ne: "nat_dec n \<noteq> []"
  by (subst nat_dec.simps) simp

lemma nat_dec_hd: "\<exists>d cs. d < 10 \<and> nat_dec n = digit d # cs"
proof (induction n rule: nat_dec.induct)
  case (1 n)
  show ?case
  proof (cases "n < 10")
    case True
    then show ?thesis by (subst nat_dec.simps) auto
  next
    case False
    with 1 obtain d cs where "d < 10" "nat_dec (n div 10) = digit d # cs" by blast
    then show ?thesis using False by (subst nat_dec.simps) auto
  qed
qed

lemma nat_dec_value: "foldl (\<lambda>a c. a * 10 + digit_val c) 0 (nat_dec n) = n"
proof (induction n rule: nat_dec.induct)
  case (1 n)
  then show ?case by (subst nat_dec.simps) simp
qed

lemma scan_nat_dec:
  assumes "rest = [] \<or> \<not> is_digit (hd rest)"
  shows "scan_nat (nat_dec n @ rest) = Some n"
proof -
  have "takeWhile is_digit (nat_dec n @ rest) = nat_dec n"
    using nat_dec_digits [of n] assms
    by (cases rest) (auto simp: list_all_iff takeWhile_append2 takeWhile_eq_all_conv [THEN iffD2])
  then show ?thesis
    using nat_dec_ne [of n] nat_dec_value [of n] by (cases "nat_dec n") (simp_all add: scan_nat_def)
qed

text \<open>Scanning undoes printing, for every 32-bit value and whatever non-digit follows.\<close>

lemma sscanf_sprintf:
  assumes "- (2 ^ 31) \<le> v" and "v < 2 ^ 31" and "rest = [] \<or> \<not> is_digit (hd rest)"
  shows "sscanf_d (sprintf_d v @ rest) = Some v"
proof (cases "v < 0")
  case True
  then have "sscanf_d (sprintf_d v @ rest) = map_option (\<lambda>n. s32 (- int n)) (scan_nat (nat_dec (nat (- v)) @ rest))"
    by (simp add: sscanf_d_def sprintf_d_def is_space_def)
  then show ?thesis using True assms by (simp add: scan_nat_dec)
next
  case False
  obtain d cs where d: "d < 10" "nat_dec (nat v) = digit d # cs" using nat_dec_hd by blast
  have "sscanf_d (sprintf_d v @ rest) = map_option (\<lambda>n. s32 (int n)) (scan_nat (nat_dec (nat v) @ rest))"
    using False d by (simp add: sscanf_d_def sprintf_d_def)
  then show ?thesis using False assms by (simp add: scan_nat_dec)
qed

lemma nat_dec_length: "n < 10 ^ Suc k \<Longrightarrow> length (nat_dec n) \<le> Suc k"
proof (induction k arbitrary: n)
  case 0
  then show ?case by (subst nat_dec.simps) simp
next
  case (Suc k)
  then have "n div 10 < 10 ^ Suc k" by (simp add: div_less_iff_less_mult mult.commute)
  then have "length (nat_dec (n div 10)) \<le> Suc k" by (rule Suc.IH)
  then show ?case by (subst nat_dec.simps) simp
qed

lemma sprintf_length:
  assumes "- (2 ^ 31) \<le> v" and "v < 2 ^ 31"
  shows "length (sprintf_d v) \<le> 11"
proof -
  have "nat (- v) < 10 ^ Suc 9" "nat v < 10 ^ Suc 9" using assms by simp_all
  then show ?thesis
    using nat_dec_length [of "nat (- v)" 9] nat_dec_length [of "nat v" 9]
    by (auto simp: sprintf_d_def)
qed

end
