(* ===== verification/Char_Devices.thy ===== *)
theory Char_Devices
  imports Char_Module C_Decimal
begin

text \<open>
  Character devices with a part of their own: a file under \<^verbatim>\<open>/proc\<close> (\<^verbatim>\<open>Procfs/procfs2.c\<close>), an
  attribute under \<^verbatim>\<open>/sys\<close> (\<^verbatim>\<open>Sysfs/sysfs1.c\<close>), and the same with an interrupt handler
  (\<^verbatim>\<open>IRQ/irq1.c\<close>). The attribute files are an instance of a refinement of a 32-bit register; the proc module is an
  instance of a module in use, with both of its tables of operations.
\<close>

section \<open>The proc file\<close>

text \<open>\<open>plen\<close> is the global \<^verbatim>\<open>len\<close>, the toggle that makes every second read the end of file.\<close>

record pworld = cworld +
  pvalue :: int
  test_array :: "byte list"
  plen :: int

definition open_proc :: "(pworld, int) state" where
  "open_proc = do { kvoid (Printk ''proc file opend.....''); ret 0 }"

definition release_proc :: "(pworld, int) state" where
  "release_proc = do { kvoid (Printk ''proc file released.....''); ret 0 }"

definition read_proc :: "ccall kenv \<Rightarrow> nat \<Rightarrow> (pworld, int \<times> byte list) state" where
  "read_proc E len = do {
     kvoid (Printk ''proc file read.....'');
     l \<leftarrow> gets plen;
     if l \<noteq> 0 then do {
       modify (\<lambda>w. w\<lparr>plen := 0\<rparr>);
       a \<leftarrow> gets test_array;
       r \<leftarrow> kint E (Copy_to_user 20);
       ret (int len, copied a r) }
     else do {
       modify (\<lambda>w. w\<lparr>plen := 1\<rparr>);
       ret (0, []) } }"

definition write_proc :: "ccall kenv \<Rightarrow> byte list \<Rightarrow> (pworld, int) state" where
  "write_proc E buff = do {
     kvoid (Printk ''proc file wrote.....'');
     r \<leftarrow> kint E (Copy_from_user (length buff));
     a \<leftarrow> gets test_array;
     (case poke a 0 (copied_in buff r) of
        None \<Rightarrow> koops ''write beyond test_array''
      | Some a' \<Rightarrow> modify (\<lambda>w. w\<lparr>test_array := a'\<rparr>));
     ret (int (length buff)) }"

datatype ioctl_cmd = WR_VALUE int | RD_VALUE | Other_ioctl nat

definition procfs2_ioctl :: "ccall kenv \<Rightarrow> ioctl_cmd \<Rightarrow> (pworld, int \<times> int option) state" where
  "procfs2_ioctl E cmd = (case cmd of
     WR_VALUE v \<Rightarrow> do {
       r \<leftarrow> kint E (Copy_from_user 4);
       modify (\<lambda>w. w\<lparr>pvalue := s32 (take_bit (8 * (4 - nat r)) v)\<rparr>);
       ret (0, None) }
   | RD_VALUE \<Rightarrow> do {
       v \<leftarrow> gets pvalue;
       r \<leftarrow> kint E (Copy_to_user 4);
       ret (0, if r = 0 then Some v else None) }
   | Other_ioctl _ \<Rightarrow> ret (0, None))"

definition procfs2_rest :: "ccall kenv \<Rightarrow> (pworld, int) state" where
  "procfs2_rest E = do {
     p \<leftarrow> kptr_call E (Proc_mkdir ''test'');
     modify (\<lambda>w. w\<lparr>parent := p\<rparr>);
     if p = Null then r_device r_class_keep
     else do {
       q \<leftarrow> kptr_call E (Proc_create ''test_proc'' p);
       ret 0 } }"

definition procfs2_init :: "ccall kenv \<Rightarrow> (pworld, int) state" where
  "procfs2_init E = chr_init E ''test_Dev'' ''test_class'' ''test_device'' r_class_keep (procfs2_rest E)"

definition procfs2_exit :: "ccall kenv \<Rightarrow> (pworld, unit) state" where
  "procfs2_exit E = do { p \<leftarrow> gets parent; kvoid (Proc_remove p); chr_exit }"

definition procfs2_fops :: "pworld file_ops" where
  "procfs2_fops = plain_fops"

definition proc_held :: "pworld \<Rightarrow> cres multiset" where
  "proc_held w = chr_held w + {#ProcDir (parent w)#}"

lemma procfs2_init_acquires:
  assumes "no_err_ptr E" and "run_state (procfs2_init E) w = (0, w')"
  shows "c_ledger (trace w') = (c_ledger (trace w))\<lparr>owned := owned (c_ledger (trace w)) + proc_held w'\<rparr>"
proof -
  have neg: "result r_class_keep v \<noteq> 0" for v :: pworld
    by (simp add: result_def r_class_keep_def unregister_region_def krun)
  obtain w1 where w1: "run_state (procfs2_rest E) w1 = (0, w')"
    "c_ledger (trace w1) = (c_ledger (trace w))\<lparr>owned := owned (c_ledger (trace w)) + chr_held w1\<rparr>"
    using chr_init_reaches_rest [OF assms(2) [unfolded procfs2_init_def] neg] assms(1) by blast
  obtain M B where l: "c_ledger (trace w) = \<lparr>owned = M, misused = B\<rparr>" using ledger_split by blast
  have e: "\<not> IS_ERR (ret_ptr E tr x)" for tr x using assms(1) by (simp add: no_err_ptr_def)
  show ?thesis
    using w1 by (auto simp: procfs2_rest_def r_device_def r_class_keep_def destroy_class_def
        unregister_region_def krun e l ledger_of_append tables proc_held_def chr_held_def split: if_splits)
qed

lemma procfs2_exit_releases:
  assumes "owned (c_ledger (trace w)) = M + proc_held w"
  shows "c_ledger (trace (final_world (procfs2_exit E) w)) = (c_ledger (trace w))\<lparr>owned := M\<rparr>"
proof -
  obtain B where "c_ledger (trace w) = \<lparr>owned = M + proc_held w, misused = B\<rparr>"
    using ledger_cases [OF assms] by blast
  then show ?thesis
    by (simp add: procfs2_exit_def chr_exit_def final_world_def krun ledger_of_append tables
        proc_held_def chr_held_def)
qed

text \<open>The calls through the second table, that of the proc file, and the ioctl of the first.\<close>

datatype proc_call = Proc_open | Proc_release | Proc_read nat | Proc_write "byte list"

definition proc_fops :: "ccall kenv \<Rightarrow> proc_call \<Rightarrow> (pworld, int) state" where
  "proc_fops E c =
     (case c of
        Proc_open \<Rightarrow> open_proc
      | Proc_release \<Rightarrow> release_proc
      | Proc_read n \<Rightarrow> do { r \<leftarrow> read_proc E n; ret (fst r) }
      | Proc_write b \<Rightarrow> write_proc E b)"

definition unlocked_ioctl :: "ccall kenv \<Rightarrow> ioctl_cmd \<Rightarrow> (pworld, int) state" where
  "unlocked_ioctl E cmd = do { r \<leftarrow> procfs2_ioctl E cmd; ret (fst r) }"

definition procfs2_calls :: "(pworld, int) state set" where
  "procfs2_calls = range (file_do procfs2_fops) \<union> {unlocked_ioctl E cmd | E cmd. True} \<union> {proc_fops E c | E c. True}"

lemma proc_held_trace: "proc_held (w\<lparr>trace := t\<rparr>) = proc_held w"
  by (simp add: proc_held_def chr_held_def)

lemma proc_fops_keep: "keeps c_acq c_rel proc_held (proc_fops E c)"
  by (auto simp: keeps_def proc_fops_def open_proc_def release_proc_def read_proc_def write_proc_def koops_def proc_held_def
      chr_held_def final_world_def krun ledger_of_append tables split: proc_call.split option.split)

lemma unlocked_ioctl_keep: "keeps c_acq c_rel proc_held (unlocked_ioctl E cmd)"
  by (auto simp: keeps_def unlocked_ioctl_def procfs2_ioctl_def proc_held_def chr_held_def final_world_def krun ledger_of_append
      tables split: ioctl_cmd.split)

interpretation procfs2m: served_module procfs2_init procfs2_exit c_acq c_rel proc_held no_err_ptr procfs2_calls
proof (unfold_locales, goal_cases)
  case (3 m)
  then show ?case
    unfolding procfs2_calls_def procfs2_fops_def
    using plain_fops_keep [of proc_held, OF proc_held_trace] proc_fops_keep unlocked_ioctl_keep by blast
qed (rule procfs2_init_acquires, assumption+, rule procfs2_exit_releases, assumption)

section \<open>Properties of the proc file\<close>

definition proc_wf :: "pworld \<Rightarrow> bool" where
  "proc_wf w \<longleftrightarrow> length (test_array w) = 20"

text \<open>
  What is written to the proc file is what the next read returns: after a write of at most
  20 bytes with working user copies, a read in the data phase delivers the written bytes
  followed by the rest of the old content, the read after it is the end of the file, and
  nothing is written outside the buffer.
\<close>

theorem procfs2_write_read:
  assumes "proc_wf w" and "plen w = 1" and "length bs \<le> 20" and "\<forall>tr c. ret_int E tr c = 0"
  shows "let w1 = final_world (write_proc E bs) w; w2 = final_world (read_proc E n) w1 in
    result (write_proc E bs) w = int (length bs) \<and>
    result (read_proc E n) w1 = (int n, bs @ drop (length bs) (test_array w)) \<and>
    result (read_proc E m) w2 = (0, []) \<and> proc_wf w2 \<and>
    plen (final_world (read_proc E m) w2) = 1 \<and> (never_faults (trace w) \<longrightarrow> never_faults (trace w2))"
  using assms
  by (simp add: write_proc_def read_proc_def result_def final_world_def krun poke_def copied_def copied_in_def
      proc_wf_def Let_def)

definition pw0 :: pworld where
  "pw0 = \<lparr>trace = [], dev = 0, dev_class = Null, test_thread1 = Null, test_thread2 = Null,
     parent = Null, kobj_ref = Null, pvalue = 0, test_array = replicate 20 0, plen = 1\<rparr>"

definition all_ok :: "ccall kenv" where
  "all_ok = \<lparr>ret_int = (\<lambda>tr c. 0), ret_ptr = (\<lambda>tr c. Ptr 1)\<rparr>"

theorem procfs2_write_read_witness:
  "result (read_proc all_ok 100) (final_world (write_proc all_ok [1, 2, 3]) pw0)
   = (100, [1, 2, 3] @ replicate 17 0)"
  using procfs2_write_read [of pw0 "[1, 2, 3]" all_ok 100 0]
  by (simp add: pw0_def all_ok_def proc_wf_def Let_def)

text \<open>
  The length of a write is not checked: a write of more than 20 bytes leaves the buffer
  (the copy itself does not stop it), and reports success.
\<close>

theorem procfs2_write_overflows:
  assumes "proc_wf w" and "20 < length bs" and "\<forall>tr c. ret_int E tr c = 0"
  shows "\<not> never_faults (trace (final_world (write_proc E bs) w)) \<and>
    result (write_proc E bs) w = int (length bs)"
  using assms
  by (simp add: write_proc_def result_def final_world_def krun poke_def copied_def copied_in_def proc_wf_def)

theorem procfs2_write_overflows_witness:
  "\<not> never_faults (trace (final_world (write_proc all_ok (replicate 21 7)) pw0))"
  using procfs2_write_overflows [of pw0 "replicate 21 7" all_ok] by (simp add: pw0_def all_ok_def proc_wf_def)

text \<open>The ioctl pair stores and returns a 32-bit value; a failed copy is reported as success.\<close>

lemma procfs2_ioctl_roundtrip:
  assumes "\<forall>tr c. ret_int E tr c = 0" and "- (2 ^ 31) \<le> v" "v < 2 ^ 31"
  shows "result (procfs2_ioctl E RD_VALUE) (final_world (procfs2_ioctl E (WR_VALUE v)) w) = (0, Some v)"
proof -
  have "s32 (take_bit 32 v) = v"
    using assms(2,3) s32_id [of v] by (simp add: s32_def signed_take_bit_take_bit)
  then show ?thesis using assms(1) by (simp add: procfs2_ioctl_def result_def final_world_def krun)
qed

section \<open>The sysfs attribute and the interrupt\<close>

text \<open>\<open>attr_value\<close> is \<^verbatim>\<open>etx_value\<close> in \<^verbatim>\<open>sysfs1.c\<close> and \<^verbatim>\<open>irqvalue\<close> in \<^verbatim>\<open>irq1.c\<close>.\<close>

record aworld = cworld +
  attr_value :: int

definition sysfs_show :: "(aworld, string \<times> int) state" where
  "sysfs_show = do {
     kvoid (Printk ''Sysfs - Read!!!'');
     v \<leftarrow> gets attr_value;
     ret (sprintf_d v, int (length (sprintf_d v))) }"

definition sysfs_store :: "string \<Rightarrow> int \<Rightarrow> (aworld, int) state" where
  "sysfs_store buf cnt = do {
     kvoid (Printk ''Sysfs - Write!!!'');
     (case sscanf_d buf of
        Some v \<Rightarrow> modify (\<lambda>w. w\<lparr>attr_value := v\<rparr>)
      | None \<Rightarrow> ret ());
     ret cnt }"

definition irq_sysfs_show :: "(aworld, string \<times> int) state" where
  "irq_sysfs_show = sysfs_show"

definition irq_sysfs_store :: "string \<Rightarrow> int \<Rightarrow> (aworld, int) state" where
  "irq_sysfs_store buf cnt = sysfs_store buf cnt"

definition r_sysfs :: "string \<Rightarrow> (aworld, int) state" where
  "r_sysfs a = do {
     k \<leftarrow> gets kobj_ref;
     kvoid (Kobject_put k);
     kvoid (Sysfs_remove_file kernel_kobj a);
     r_device r_class_del }"

definition sysfs1_init :: "ccall kenv \<Rightarrow> (aworld, int) state" where
  "sysfs1_init E = chr_init E ''etx_Dev'' ''etx_class'' ''etx_device'' r_class_del (do {
     k \<leftarrow> kptr_call E (Kobject_create_and_add ''etx_sysfs'');
     modify (\<lambda>w. w\<lparr>kobj_ref := k\<rparr>);
     r \<leftarrow> kint E (Sysfs_create_file k ''etx_value'');
     if r \<noteq> 0 then r_sysfs ''etx_value'' else ret 0 })"

definition sysfs1_exit :: "(aworld, unit) state" where
  "sysfs1_exit = do {
     k \<leftarrow> gets kobj_ref;
     kvoid (Kobject_put k);
     kvoid (Sysfs_remove_file kernel_kobj ''etx_value'');
     chr_exit }"

definition sysfs1_fops :: "aworld file_ops" where
  "sysfs1_fops = plain_fops"

definition IRQ_NO :: int where
  "IRQ_NO = 11"

definition irq_handler :: "(aworld, int) state" where
  "irq_handler = do { kvoid (Printk ''Shared IRQ: Interrupt Occurred''); ret 1 }"

text \<open>
  Reading the device executes \<^verbatim>\<open>int $0x3B\<close>; \<open>raise\<close> is what the processor and the kernel do
  then.
\<close>

definition irq_read :: "(aworld, unit) state \<Rightarrow> nat \<Rightarrow> (aworld, int) state" where
  "irq_read raise len = do { kvoid (Printk ''Read function''); kvoid Int3B; raise; ret 0 }"

definition irq1_fops :: "(aworld, unit) state \<Rightarrow> aworld file_ops" where
  "irq1_fops raise = plain_fops\<lparr>fop_read := irq_read raise\<rparr>"

definition irq_init :: "ccall kenv \<Rightarrow> (aworld, int) state" where
  "irq_init E = chr_init E ''irqdev'' ''irq_class'' ''irq_device'' r_class_del (do {
     k \<leftarrow> kptr_call E (Kobject_create_and_add ''irq_sysfs'');
     modify (\<lambda>w. w\<lparr>kobj_ref := k\<rparr>);
     r \<leftarrow> kint E (Sysfs_create_file k ''irqvalue'');
     if r \<noteq> 0 then r_sysfs ''irqvalue''
     else do {
       q \<leftarrow> kint E (Request_irq IRQ_NO);
       if q \<noteq> 0 then do { kvoid (Free_irq IRQ_NO); r_sysfs ''irqvalue'' } else ret 0 } })"

definition irq_exit :: "(aworld, unit) state" where
  "irq_exit = do {
     kvoid (Free_irq IRQ_NO);
     k \<leftarrow> gets kobj_ref;
     kvoid (Kobject_put k);
     kvoid (Sysfs_remove_file kernel_kobj ''irqvalue'');
     chr_exit }"

definition aw0 :: aworld where
  "aw0 = \<lparr>trace = [], dev = 0, dev_class = Null, test_thread1 = Null, test_thread2 = Null,
     parent = Null, kobj_ref = Null, attr_value = 5\<rparr>"

text \<open>
  Specification: a register of 32 bits behind the attribute file. It is set with a number in decimal, which anything but a digit
  may follow; text without a number changes nothing; it shows the number it holds.
\<close>

datatype reg_event = Reg_show | Reg_set int string | Reg_junk string

definition register_step :: "reg_event \<Rightarrow> int \<Rightarrow> (string \<times> int) \<times> int" where
  "register_step e v =
     (case e of
        Reg_show \<Rightarrow> ((sprintf_d v, int (length (sprintf_d v))), v)
      | Reg_set x rest \<Rightarrow> (([], int (length (sprintf_d x @ rest))), x)
      | Reg_junk text \<Rightarrow> (([], int (length text)), v))"

definition register_enabled :: "reg_event \<Rightarrow> int \<Rightarrow> bool" where
  "register_enabled e v =
     (case e of
        Reg_show \<Rightarrow> True
      | Reg_set x rest \<Rightarrow> - (2 ^ 31) \<le> x \<and> x < 2 ^ 31 \<and> (rest = [] \<or> \<not> is_digit (hd rest))
      | Reg_junk text \<Rightarrow> sscanf_d text = None)"

definition attr_step ::
  "(aworld, string \<times> int) state \<Rightarrow> (string \<Rightarrow> int \<Rightarrow> (aworld, int) state) \<Rightarrow> reg_event \<Rightarrow> aworld \<Rightarrow> (string \<times> int) \<times> aworld" where
  "attr_step shows stores e w =
     (let store = (\<lambda>text. (([], result (stores text (int (length text))) w), final_world (stores text (int (length text))) w)) in
      case e of
        Reg_show \<Rightarrow> run_state shows w
      | Reg_set x rest \<Rightarrow> store (sprintf_d x @ rest)
      | Reg_junk text \<Rightarrow> store text)"

lemma attr_step_register:
  assumes "register_enabled e (attr_value w)"
  shows "fst (attr_step sysfs_show sysfs_store e w) = fst (register_step e (attr_value w)) \<and>
    attr_value (snd (attr_step sysfs_show sysfs_store e w)) = snd (register_step e (attr_value w))"
  using assms sscanf_sprintf
  by (cases e) (simp_all add: attr_step_def register_step_def register_enabled_def sysfs_show_def sysfs_store_def result_def
      final_world_def krun Let_def)

interpretation sysfs_reg: simulation "attr_step sysfs_show sysfs_store" register_step register_enabled "\<lambda>w v. attr_value w = v"
  using attr_step_register by unfold_locales auto

interpretation irq_reg: simulation "attr_step irq_sysfs_show irq_sysfs_store" register_step register_enabled "\<lambda>w v. attr_value w = v"
  using attr_step_register unfolding irq_sysfs_show_def irq_sysfs_store_def [abs_def] by unfold_locales auto

text \<open>
  C22. The attribute files of the sysfs and the interrupt module are registers: whatever sequence of shows and stores, with every value of
  32 bits, with a newline behind it or without, and with text that is no number in between, each show answers the value stored last, and
  each store reports the length of what it was given.
\<close>

theorem sysfs_is_register:
  assumes "allowed register_enabled register_step es (attr_value w)"
  shows "fst (replay (attr_step sysfs_show sysfs_store) es w) = fst (replay register_step es (attr_value w)) \<and>
    attr_value (snd (replay (attr_step sysfs_show sysfs_store) es w)) = snd (replay register_step es (attr_value w)) \<and>
    fst (replay (attr_step irq_sysfs_show irq_sysfs_store) es w) = fst (replay register_step es (attr_value w)) \<and>
    attr_value (snd (replay (attr_step irq_sysfs_show irq_sysfs_store) es w)) = snd (replay register_step es (attr_value w))"
  using sysfs_reg.replay_refines [OF refl assms] irq_reg.replay_refines [OF refl assms] by blast

theorem sysfs_is_register_witness:
  "fst (replay (attr_step sysfs_show sysfs_store) [Reg_set (- 273) [CHR 0x0A], Reg_junk ''x'', Reg_show] aw0) =
     [([], 5), ([], 1), (''-273'', 4)]"
proof -
  let ?es = "[Reg_set (- 273) [CHR 0x0A], Reg_junk ''x'', Reg_show]"
  have v: "attr_value aw0 = 5" by (simp add: aw0_def)
  have "allowed register_enabled register_step ?es (attr_value aw0)" unfolding v by code_simp
  moreover have "fst (replay register_step ?es 5) = [([], 5), ([], 1), (''-273'', 4)]" by code_simp
  ultimately show ?thesis using sysfs_is_register [of ?es aw0] v by simp
qed

text \<open>
  The attribute file is created below the module's own object but removed from
  \<^verbatim>\<open>kernel_kobj\<close>: after a load and an unload a removal was asked for of a file that was never created, for the sysfs and the interrupt
  module alike. The file that was created goes with its object.
\<close>

theorem sysfs_removes_wrong_file:
  assumes "\<forall>tr c. ret_int E tr c = 0" and "\<forall>tr c. ret_ptr E tr c = Ptr (Suc a)"
    and "SysFile kernel_kobj ''etx_value'' \<notin># owned (c_ledger (trace w))"
    and "SysFile kernel_kobj ''irqvalue'' \<notin># owned (c_ledger (trace w))"
  shows "c_ledger (trace (final_world sysfs1_exit (final_world (sysfs1_init E) w))) =
      \<lparr>owned = owned (c_ledger (trace w)),
       misused = misused (c_ledger (trace w)) + {#SysFile kernel_kobj ''etx_value''#}\<rparr> \<and>
    c_ledger (trace (final_world irq_exit (final_world (irq_init E) w))) =
      \<lparr>owned = owned (c_ledger (trace w)),
       misused = misused (c_ledger (trace w)) + {#SysFile kernel_kobj ''irqvalue''#}\<rparr>"
proof -
  obtain M B where l: "c_ledger (trace w) = \<lparr>owned = M, misused = B\<rparr>" using ledger_split by blast
  have n: "SysFile kernel_kobj ''etx_value'' \<notin># M" "SysFile kernel_kobj ''irqvalue'' \<notin># M"
    using assms(3,4) l by simp_all
  show ?thesis
    using n assms(1,2)
    by (simp add: sysfs1_init_def sysfs1_exit_def irq_init_def irq_exit_def chr_code final_world_def krun
        ledger_of_append tables l kernel_kobj_def)
qed

theorem sysfs_removes_wrong_file_witness:
  "misused (c_ledger (trace (final_world sysfs1_exit (final_world (sysfs1_init all_ok) aw0))))
     = {#SysFile kernel_kobj ''etx_value''#}"
  using sysfs_removes_wrong_file [of all_ok 0 aw0] by (simp add: all_ok_def aw0_def)

section \<open>The attribute modules in use\<close>

text \<open>
  Every call the kernel can make between load and unload: the file operations, the attribute, and for the interrupt module the handler,
  on its own or raised by a read.
\<close>

definition attr_calls :: "(aworld, string \<times> int) state \<Rightarrow> (string \<Rightarrow> int \<Rightarrow> (aworld, int) state) \<Rightarrow> (aworld, int) state set" where
  "attr_calls shows stores = insert (do { r \<leftarrow> shows; ret (snd r) }) {stores buf n | buf n. True}"

definition sysfs1_calls :: "(aworld, int) state set" where
  "sysfs1_calls = range (file_do sysfs1_fops) \<union> attr_calls sysfs_show sysfs_store"

definition irq1_calls :: "(aworld, int) state set" where
  "irq1_calls = range (file_do (irq1_fops (ret ()))) \<union> range (file_do (irq1_fops (do { r \<leftarrow> irq_handler; ret () }))) \<union>
     {irq_handler} \<union> attr_calls irq_sysfs_show irq_sysfs_store"

text \<open>\<open>held\<close> is any part of the world the calls do not write.\<close>

lemma attr_calls_keep:
  assumes t: "\<And>w t. held (w\<lparr>trace := t\<rparr>) = held w" and v: "\<And>w x. held (w\<lparr>attr_value := x\<rparr>) = held w"
  shows "m \<in> attr_calls sysfs_show sysfs_store \<Longrightarrow> keeps c_acq c_rel held m"
  by (auto simp: attr_calls_def keeps_def sysfs_show_def sysfs_store_def final_world_def krun ledger_of_append tables t v split: option.split)

lemma sysfs1_calls_keep:
  assumes "\<And>w t. held (w\<lparr>trace := t\<rparr>) = held w" and "\<And>w x. held (w\<lparr>attr_value := x\<rparr>) = held w" and "m \<in> sysfs1_calls"
  shows "keeps c_acq c_rel held m"
  using assms(3) plain_fops_keep [OF assms(1)] attr_calls_keep [of held, OF assms(1,2)]
  unfolding sysfs1_calls_def sysfs1_fops_def by blast

lemma irq1_fops_keep:
  assumes t: "\<And>w t. held (w\<lparr>trace := t\<rparr>) = held w" and "raise = ret () \<or> raise = do { r \<leftarrow> irq_handler; ret () }"
  shows "m \<in> range (file_do (irq1_fops raise)) \<Longrightarrow> keeps c_acq c_rel held m"
  by (rule keeps_file_do [of _ _ _ "irq1_fops raise"])
    (use assms(2) in \<open>auto simp: keeps_def irq1_fops_def plain_fops_def irq_read_def irq_handler_def final_world_def krun
      ledger_of_append tables t\<close>)

lemma irq1_calls_keep:
  assumes t: "\<And>w t. held (w\<lparr>trace := t\<rparr>) = held w" and v: "\<And>w x. held (w\<lparr>attr_value := x\<rparr>) = held w" and "m \<in> irq1_calls"
  shows "keeps c_acq c_rel held m"
proof -
  have "keeps c_acq c_rel held irq_handler"
    by (simp add: keeps_def irq_handler_def final_world_def krun ledger_of_append tables t)
  then show ?thesis
    using assms(3) irq1_fops_keep [of held, OF t] attr_calls_keep [of held, OF t v]
    unfolding irq1_calls_def irq_sysfs_show_def irq_sysfs_store_def [abs_def] by blast
qed

text \<open>
  What the modules rely on: no error pointers, no attribute below a missing object, and a new object is not \<^verbatim>\<open>kernel_kobj\<close>.
\<close>

definition attr_env :: "ccall kenv \<Rightarrow> bool" where
  "attr_env E \<longleftrightarrow> no_err_ptr E \<and> (\<forall>tr a. ret_int E tr (Sysfs_create_file Null a) \<noteq> 0) \<and>
     (\<forall>tr nm. ret_ptr E tr (Kobject_create_and_add nm) \<noteq> kernel_kobj)"

definition attr_held :: "aworld \<Rightarrow> cres multiset" where
  "attr_held w = chr_held w + {#Kobj (kobj_ref w)#}"

lemma attr_envD:
  assumes "attr_env E"
  shows "\<not> IS_ERR (ret_ptr E tr x)" and "ret_int E tr (Sysfs_create_file Null a) \<noteq> 0"
    and "ret_ptr E tr (Kobject_create_and_add nm) \<noteq> kernel_kobj" and "no_err_ptr E"
  using assms by (simp_all add: attr_env_def no_err_ptr_def)

lemmas r_sysfs_code = r_sysfs_def r_device_def destroy_class_def r_class_del_def unregister_region_def

lemma r_class_del_fails: "result r_class_del v \<noteq> 0"
  by (simp add: result_def r_class_del_def unregister_region_def krun)

lemma sysfs1_init_acquires:
  assumes E: "attr_env E" and run: "run_state (sysfs1_init E) w = (0, w')"
  shows "kobj_ref w' \<noteq> kernel_kobj \<and>
    c_ledger (trace w') = (c_ledger (trace w))\<lparr>owned := owned (c_ledger (trace w)) + attr_held w'\<rparr>"
proof -
  note e = attr_envD [OF E]
  obtain w1 where w1: "run_state (do {
      k \<leftarrow> kptr_call E (Kobject_create_and_add ''etx_sysfs'');
      modify (\<lambda>w. w\<lparr>kobj_ref := k\<rparr>);
      r \<leftarrow> kint E (Sysfs_create_file k ''etx_value'');
      if r \<noteq> 0 then r_sysfs ''etx_value'' else ret 0 }) w1 = (0, w')"
    "c_ledger (trace w1) = (c_ledger (trace w))\<lparr>owned := owned (c_ledger (trace w)) + chr_held w1\<rparr>"
    using chr_init_reaches_rest [OF run [unfolded sysfs1_init_def] r_class_del_fails] e(4) by auto
  obtain M B where l: "c_ledger (trace w) = \<lparr>owned = M, misused = B\<rparr>" using ledger_split by blast
  let ?k = "ret_ptr E (trace w1) (Kobject_create_and_add ''etx_sysfs'')"
  have "?k \<noteq> Null" using w1(1) e(2) by (auto simp: r_sysfs_code krun split: if_splits)
  then show ?thesis
    using w1 by (auto simp: r_sysfs_code krun e l ledger_of_append tables attr_held_def chr_held_def split: if_splits)
qed

lemma irq_init_acquires:
  assumes E: "attr_env E" and run: "run_state (irq_init E) w = (0, w')"
  shows "kobj_ref w' \<noteq> kernel_kobj \<and>
    c_ledger (trace w') = (c_ledger (trace w))\<lparr>owned := owned (c_ledger (trace w)) + add_mset (Irq IRQ_NO) (attr_held w')\<rparr>"
proof -
  note e = attr_envD [OF E]
  obtain w1 where w1: "run_state (do {
      k \<leftarrow> kptr_call E (Kobject_create_and_add ''irq_sysfs'');
      modify (\<lambda>w. w\<lparr>kobj_ref := k\<rparr>);
      r \<leftarrow> kint E (Sysfs_create_file k ''irqvalue'');
      if r \<noteq> 0 then r_sysfs ''irqvalue''
      else do {
        q \<leftarrow> kint E (Request_irq IRQ_NO);
        if q \<noteq> 0 then do { kvoid (Free_irq IRQ_NO); r_sysfs ''irqvalue'' } else ret 0 } }) w1 = (0, w')"
    "c_ledger (trace w1) = (c_ledger (trace w))\<lparr>owned := owned (c_ledger (trace w)) + chr_held w1\<rparr>"
    using chr_init_reaches_rest [OF run [unfolded irq_init_def] r_class_del_fails] e(4) by auto
  obtain M B where l: "c_ledger (trace w) = \<lparr>owned = M, misused = B\<rparr>" using ledger_split by blast
  let ?k = "ret_ptr E (trace w1) (Kobject_create_and_add ''irq_sysfs'')"
  have "?k \<noteq> Null" using w1(1) e(2) by (auto simp: r_sysfs_code krun split: if_splits)
  then show ?thesis
    using w1 by (auto simp: r_sysfs_code krun e l ledger_of_append tables attr_held_def chr_held_def split: if_splits)
qed

text \<open>
  The unload gives everything back, the attribute file with its object, and then asks for the removal of a file of \<^verbatim>\<open>kernel_kobj\<close> that
  was never created.
\<close>

definition wrong_file :: "string \<Rightarrow> cres ledger \<Rightarrow> cres ledger \<Rightarrow> bool" where
  "wrong_file a l l' \<longleftrightarrow> l' = l\<lparr>misused := misused l + {#SysFile kernel_kobj a#}\<rparr>"

lemma attr_exits:
  assumes "SysFile kernel_kobj a \<notin># M"
  shows "a = ''etx_value'' \<Longrightarrow> owned (c_ledger (trace w)) = M + attr_held w \<Longrightarrow>
      c_ledger (trace (final_world sysfs1_exit w)) =
        \<lparr>owned = M, misused = misused (c_ledger (trace w)) + {#SysFile kernel_kobj a#}\<rparr>"
    and "a = ''irqvalue'' \<Longrightarrow> owned (c_ledger (trace w)) = M + add_mset (Irq IRQ_NO) (attr_held w) \<Longrightarrow>
      c_ledger (trace (final_world irq_exit w)) =
        \<lparr>owned = M, misused = misused (c_ledger (trace w)) + {#SysFile kernel_kobj a#}\<rparr>"
  using assms
  by (auto simp: sysfs1_exit_def irq_exit_def chr_exit_def final_world_def krun ledger_of_append tables attr_held_def chr_held_def
      dest!: ledger_cases)

lemma attr_held_unwritten:
  "attr_held (w\<lparr>trace := t\<rparr>) = attr_held w" "attr_held (w\<lparr>attr_value := x\<rparr>) = attr_held w"
  by (simp_all add: attr_held_def chr_held_def)

lemma sysfs1_session:
  assumes E: "attr_env E" and r: "result (sysfs1_init E) w = 0" and ms: "set ms \<subseteq> sysfs1_calls"
    and new: "SysFile kernel_kobj ''etx_value'' \<notin># owned (c_ledger (trace w))"
  shows "wrong_file ''etx_value'' (c_ledger (trace w))
    (c_ledger (trace (final_world sysfs1_exit (in_use ms (final_world (sysfs1_init E) w)))))"
proof -
  let ?v = "in_use ms (final_world (sysfs1_init E) w)"
  have "keeps c_acq c_rel attr_held m" if "m \<in> set ms" for m
    using that ms sysfs1_calls_keep [of attr_held m] attr_held_unwritten by blast
  note u = keeps_in_use [of ms, OF this, of "final_world (sysfs1_init E) w"]
  note i = sysfs1_init_acquires [OF E run_result [OF r]]
  show ?thesis
    using attr_exits(1) [OF new refl, of ?v] i u by (simp add: wrong_file_def)
qed

lemma irq1_session:
  assumes E: "attr_env E" and r: "result (irq_init E) w = 0" and ms: "set ms \<subseteq> irq1_calls"
    and new: "SysFile kernel_kobj ''irqvalue'' \<notin># owned (c_ledger (trace w))"
  shows "wrong_file ''irqvalue'' (c_ledger (trace w))
    (c_ledger (trace (final_world irq_exit (in_use ms (final_world (irq_init E) w)))))"
proof -
  let ?v = "in_use ms (final_world (irq_init E) w)"
  have "keeps c_acq c_rel attr_held m" if "m \<in> set ms" for m
    using that ms irq1_calls_keep [of attr_held m] attr_held_unwritten by blast
  note u = keeps_in_use [of ms, OF this, of "final_world (irq_init E) w"]
  note i = irq_init_acquires [OF E run_result [OF r]]
  show ?thesis
    using attr_exits(2) [OF new refl, of ?v] i u by (simp add: wrong_file_def)
qed

text \<open>
  If the interrupt line cannot be requested, the load returns -1 but frees an interrupt it
  does not have before it undoes the rest.
\<close>

theorem irq_request_failure_frees:
  assumes "\<forall>tr c. ret_int E tr c = (case c of Request_irq _ \<Rightarrow> - EBUSY | _ \<Rightarrow> 0)"
    and "\<forall>tr c. ret_ptr E tr c = Ptr (Suc a)"
    and "Irq IRQ_NO \<notin># owned (c_ledger (trace w))"
  shows "result (irq_init E) w = - 1 \<and>
    Irq IRQ_NO \<in># misused (c_ledger (trace (final_world (irq_init E) w)))"
proof -
  obtain M B where l: "c_ledger (trace w) = \<lparr>owned = M, misused = B\<rparr>" using ledger_split by blast
  have n: "Irq IRQ_NO \<notin># M" using assms(3) l by simp
  show ?thesis
    using n assms(1,2)
    by (simp add: irq_init_def r_sysfs_def chr_code result_def final_world_def krun
        ledger_of_append ledger_step_def tables l kernel_kobj_def)
qed

theorem irq_request_failure_frees_witness:
  "result (irq_init (all_ok\<lparr>ret_int := \<lambda>tr c. case c of Request_irq _ \<Rightarrow> - EBUSY | _ \<Rightarrow> 0\<rparr>)) aw0 = - 1"
  using irq_request_failure_frees
    [of "all_ok\<lparr>ret_int := \<lambda>tr c. case c of Request_irq _ \<Rightarrow> - EBUSY | _ \<Rightarrow> 0\<rparr>" 0 aw0]
  by (simp add: all_ok_def aw0_def)

end
