(* ===== verification/Completion_Module.thy ===== *)
theory Completion_Module
  imports Char_Module
begin

text \<open>
  The completion exercise \<^verbatim>\<open>Completion/comp1.c\<close>: a thread waits for a completion that a read of
  the device or the unload signals, and tells the two apart by \<^verbatim>\<open>completion_flag\<close>. The
  completion itself belongs to the kernel: its operations are a parameter with their
  documented behaviour \<open>comp_ok\<close> (a counter). The thread, the reads of any number of processes and
  the unload are interleaved statement by statement; the test of the completion and the signal behind it are two
  statements, between which others can run.
\<close>

section \<open>State and code\<close>

record 'c comp_ops =
  completion_done :: "'c \<Rightarrow> bool"
  complete :: "'c \<Rightarrow> 'c"
  wait_for_completion :: "'c \<Rightarrow> 'c option"

text \<open>Where the thread of \<^verbatim>\<open>wait_function\<close> stands.\<close>

datatype wait_pc = Waiting | Woken | Counted | Exited

text \<open>
  Where a read and the unload stand: before the flag is set, before the test of the completion, before the signal
  (the completion was not done), and, for the unload, behind it.
\<close>

datatype sig_pc = Idle | Flagged | Undone | Signalled

record 'c comp_state =
  cmp :: "'c"
  completion_flag :: int
  read_count :: u32
  wait_at :: wait_pc
  read_at :: "nat \<Rightarrow> sig_pc"
  exit_at :: sig_pc
  ret_reads :: nat

text \<open>
  One stretch of \<^verbatim>\<open>wait_function\<close>; \<open>None\<close>: it waits. The test of the flag and the reset at the
  end of the loop are different stretches.
\<close>

fun wait_function :: "'c comp_ops \<Rightarrow> wait_pc \<Rightarrow> 'c comp_state \<Rightarrow> 'c comp_state option" where
  "wait_function C Waiting s =
     map_option (\<lambda>c. s\<lparr>cmp := c, wait_at := Woken\<rparr>) (wait_for_completion C (cmp s))"
| "wait_function C Woken s =
     Some (if completion_flag s = 2 then s\<lparr>wait_at := Exited\<rparr>
           else s\<lparr>read_count := read_count s + 1, wait_at := Counted\<rparr>)"
| "wait_function C Counted s = Some (s\<lparr>completion_flag := 0, wait_at := Waiting\<rparr>)"
| "wait_function C Exited s = None"

text \<open>A statement of the read of process \<open>i\<close>; a read that returns is counted.\<close>

definition read_returns :: "nat \<Rightarrow> 'c comp_state \<Rightarrow> 'c comp_state" where
  "read_returns i s = s\<lparr>read_at := (read_at s)(i := Idle), ret_reads := Suc (ret_reads s)\<rparr>"

definition comp_read :: "'c comp_ops \<Rightarrow> nat \<Rightarrow> 'c comp_state \<Rightarrow> 'c comp_state" where
  "comp_read C i s =
     (case read_at s i of
        Idle \<Rightarrow> s\<lparr>completion_flag := 1, read_at := (read_at s)(i := Flagged)\<rparr>
      | Flagged \<Rightarrow> if completion_done C (cmp s) then read_returns i s else s\<lparr>read_at := (read_at s)(i := Undone)\<rparr>
      | Undone \<Rightarrow> read_returns i (s\<lparr>cmp := complete C (cmp s)\<rparr>)
      | Signalled \<Rightarrow> s)"

definition comp_exit :: "'c comp_ops \<Rightarrow> 'c comp_state \<Rightarrow> 'c comp_state" where
  "comp_exit C s =
     (case exit_at s of
        Idle \<Rightarrow> s\<lparr>completion_flag := 2, exit_at := Flagged\<rparr>
      | Flagged \<Rightarrow> s\<lparr>exit_at := (if completion_done C (cmp s) then Signalled else Undone)\<rparr>
      | Undone \<Rightarrow> s\<lparr>cmp := complete C (cmp s), exit_at := Signalled\<rparr>
      | Signalled \<Rightarrow> s)"

datatype comp_event = Wait_step | Read_step nat | Exit_step

fun comp_step :: "'c comp_ops \<Rightarrow> comp_event \<Rightarrow> 'c comp_state \<Rightarrow> 'c comp_state" where
  "comp_step C Wait_step s = (case wait_function C (wait_at s) s of Some s' \<Rightarrow> s' | None \<Rightarrow> s)"
| "comp_step C (Read_step i) s = comp_read C i s"
| "comp_step C Exit_step s = comp_exit C s"

definition comp_run :: "'c comp_ops \<Rightarrow> comp_event list \<Rightarrow> 'c comp_state \<Rightarrow> 'c comp_state" where
  "comp_run C es s = fold (comp_step C) es s"

definition comp_start :: "'c \<Rightarrow> 'c comp_state" where
  "comp_start c = \<lparr>cmp = c, completion_flag = 0, read_count = 0, wait_at = Waiting, read_at = (\<lambda>_. Idle),
     exit_at = Idle, ret_reads = 0\<rparr>"

text \<open>The documented behaviour of a completion: a counter of signals not yet consumed.\<close>

definition comp_ok :: "'c comp_ops \<Rightarrow> ('c \<Rightarrow> nat) \<Rightarrow> bool" where
  "comp_ok C cnt \<longleftrightarrow>
     (\<forall>c. completion_done C c \<longleftrightarrow> cnt c \<noteq> 0) \<and>
     (\<forall>c. cnt (complete C c) = cnt c + 1) \<and>
     (\<forall>c. wait_for_completion C c = None \<longleftrightarrow> cnt c = 0) \<and>
     (\<forall>c c'. wait_for_completion C c = Some c' \<longrightarrow> cnt c' = cnt c - 1)"

lemma comp_okD:
  assumes "comp_ok C cnt"
  shows "completion_done C c \<longleftrightarrow> cnt c \<noteq> 0" and "cnt (complete C c) = cnt c + 1"
    and "wait_for_completion C c = None \<longleftrightarrow> cnt c = 0"
    and "wait_for_completion C c = Some c' \<Longrightarrow> cnt c' = cnt c - 1"
  using assms unfolding comp_ok_def by blast+

section \<open>Load and unload\<close>

definition comp1_init :: "ccall kenv \<Rightarrow> (cworld, int) state" where
  "comp1_init E = chr_init E ''test_Dev'' ''test_class'' ''test_device'' r_class_keep (do {
     t \<leftarrow> kptr_call E (Kthread_create ''wait_function'' ''WaitThread'');
     modify (\<lambda>w. w\<lparr>test_thread1 := t\<rparr>);
     (if t \<noteq> Null then kvoid (Wake_up_process t) else ret ());
     ret 0 })"

text \<open>The device part of the unload; the signal to the thread before it is \<open>comp_exit\<close>.\<close>

definition comp1_exit_device :: "ccall kenv \<Rightarrow> (cworld, unit) state" where
  "comp1_exit_device E = chr_exit"

text \<open>Open, release and write; the read is \<open>comp_read\<close>.\<close>

definition comp1_fops_open :: "(cworld, int) state" where
  "comp1_fops_open = fop_open plain_fops"

definition comp1_fops_release :: "(cworld, int) state" where
  "comp1_fops_release = fop_release plain_fops"

definition comp1_fops_write :: "nat \<Rightarrow> (cworld, int) state" where
  "comp1_fops_write len = do { kvoid (Printk ''Write function''); ret (int len) }"

section \<open>The invariant\<close>

text \<open>
  No read is counted twice: what is counted, about to be counted or pending never exceeds the reads that have returned (and the
  signal of the unload).
\<close>

definition count_inv :: "('c \<Rightarrow> nat) \<Rightarrow> nat \<Rightarrow> 'c comp_state \<Rightarrow> bool" where
  "count_inv cnt n s \<longleftrightarrow> read_count s = of_nat n \<and> n + cnt (cmp s) + of_bool (wait_at s = Woken) \<le>
     ret_reads s + of_bool (exit_at s = Signalled)"

lemma wait_count:
  assumes C: "comp_ok C cnt" and n: "count_inv cnt n s"
  shows "\<exists>m. count_inv cnt m (comp_step C Wait_step s)"
proof (cases "wait_at s")
  case Waiting
  then show ?thesis
    using n comp_okD(3,4) [OF C, of "cmp s"]
    by (cases "wait_for_completion C (cmp s)") (auto simp: count_inv_def intro!: exI [of _ n])
next
  case Woken
  then show ?thesis
    using n
    by (cases "completion_flag s = 2")
      (rule exI [of _ n], force simp: count_inv_def, rule exI [of _ "Suc n"], auto simp: count_inv_def)
qed (use n in \<open>auto simp: count_inv_def\<close>)

lemma count_step:
  assumes C: "comp_ok C cnt" and n: "count_inv cnt n s"
  shows "\<exists>m. count_inv cnt m (comp_step C e s)"
proof (cases e)
  case Wait_step
  then show ?thesis using wait_count [OF assms] by simp
next
  case (Read_step i)
  then have "count_inv cnt n (comp_step C e s)"
    using n by (cases "read_at s i") (auto simp: comp_read_def read_returns_def count_inv_def comp_okD(2) [OF C])
  then show ?thesis by blast
next
  case Exit_step
  then have "count_inv cnt n (comp_step C e s)"
    using n by (cases "exit_at s") (auto simp: comp_exit_def count_inv_def comp_okD(2) [OF C])
  then show ?thesis by blast
qed

text \<open>
  No more signals are pending or about to be sent than there are processes (and one for the unload): whoever is about to signal has
  seen none pending.
\<close>

definition about_to_signal :: "nat \<Rightarrow> 'c comp_state \<Rightarrow> nat" where
  "about_to_signal N s = card {i. i < N \<and> read_at s i = Undone} + of_bool (exit_at s = Undone)"

definition pending_inv :: "('c \<Rightarrow> nat) \<Rightarrow> nat \<Rightarrow> 'c comp_state \<Rightarrow> bool" where
  "pending_inv cnt N s \<longleftrightarrow> cnt (cmp s) + about_to_signal N s \<le> N + of_bool (exit_at s \<noteq> Idle)"

definition by_processes :: "nat \<Rightarrow> comp_event list \<Rightarrow> bool" where
  "by_processes N es \<longleftrightarrow> (\<forall>i. Read_step i \<in> set es \<longrightarrow> i < N)"

lemma about_to_signal_le: "about_to_signal N s \<le> N + of_bool (exit_at s \<noteq> Idle)"
proof -
  have "card {i. i < N \<and> read_at s i = Undone} \<le> card {i. i < N}" by (rule card_mono) auto
  then show ?thesis by (auto simp: about_to_signal_def)
qed

lemma undone_card:
  assumes "i < N" and "read_at s i = Undone" and "x \<noteq> Undone"
  shows "card {j. j < N \<and> read_at s j = Undone} = Suc (card {j. j < N \<and> ((read_at s)(i := x)) j = Undone})"
proof -
  have "{j. j < N \<and> read_at s j = Undone} = insert i {j. j < N \<and> ((read_at s)(i := x)) j = Undone}"
    using assms by auto
  then show ?thesis using assms(3) by simp
qed

lemma wait_pending:
  assumes "comp_ok C cnt" and "pending_inv cnt N s"
  shows "pending_inv cnt N (comp_step C Wait_step s)"
proof (cases "wait_at s")
  case Waiting
  then show ?thesis
    using assms(2) comp_okD(3,4) [OF assms(1), of "cmp s"]
    by (cases "wait_for_completion C (cmp s)") (auto simp: pending_inv_def about_to_signal_def)
qed (use assms(2) in \<open>auto simp: pending_inv_def about_to_signal_def\<close>)

lemma read_pending:
  assumes C: "comp_ok C cnt" and p: "pending_inv cnt N s" and i: "i < N"
  shows "pending_inv cnt N (comp_read C i s)"
proof (cases "read_at s i")
  case Flagged
  show ?thesis
  proof (cases "completion_done C (cmp s)")
    case True
    have "{j. j < N \<and> ((read_at s)(i := Idle)) j = Undone} = {j. j < N \<and> read_at s j = Undone}" using Flagged by auto
    then show ?thesis using True Flagged p by (simp add: comp_read_def read_returns_def pending_inv_def about_to_signal_def)
  next
    case False
    then have "cnt (cmp s) = 0" using comp_okD(1) [OF C] by simp
    then show ?thesis
      using False Flagged about_to_signal_le [of N "s\<lparr>read_at := (read_at s)(i := Undone)\<rparr>"]
      by (simp add: comp_read_def pending_inv_def)
  qed
next
  case Undone
  then show ?thesis
    using p undone_card [OF i Undone, of Idle]
    by (simp add: comp_read_def read_returns_def pending_inv_def about_to_signal_def comp_okD(2) [OF C])
next
  case Idle
  then have "{j. j < N \<and> ((read_at s)(i := Flagged)) j = Undone} = {j. j < N \<and> read_at s j = Undone}" by auto
  then show ?thesis using Idle p by (simp add: comp_read_def pending_inv_def about_to_signal_def)
qed (use p in \<open>simp add: comp_read_def\<close>)

lemma exit_pending:
  assumes C: "comp_ok C cnt" and p: "pending_inv cnt N s"
  shows "pending_inv cnt N (comp_exit C s)"
proof (cases "exit_at s")
  case Flagged
  show ?thesis
  proof (cases "completion_done C (cmp s)")
    case False
    then have "cnt (cmp s) = 0" using comp_okD(1) [OF C] by simp
    then show ?thesis
      using False Flagged about_to_signal_le [of N "s\<lparr>exit_at := Undone\<rparr>"] by (simp add: comp_exit_def pending_inv_def)
  qed (use p Flagged in \<open>simp add: comp_exit_def pending_inv_def about_to_signal_def\<close>)
qed (use p in \<open>auto simp: comp_exit_def pending_inv_def about_to_signal_def comp_okD(2) [OF C]\<close>)

lemma comp_run_inv:
  assumes "comp_ok C cnt" and "by_processes N es" and "pending_inv cnt N s" and "\<exists>n. count_inv cnt n s"
  shows "pending_inv cnt N (comp_run C es s) \<and> (\<exists>n. count_inv cnt n (comp_run C es s))"
  using assms(2-4)
proof (induction es arbitrary: s)
  case (Cons e es)
  have "pending_inv cnt N (comp_step C e s)"
    using Cons.prems(1,2) wait_pending [OF assms(1)] read_pending [OF assms(1)] exit_pending [OF assms(1)]
    by (cases e) (auto simp: by_processes_def)
  moreover have "\<exists>n. count_inv cnt n (comp_step C e s)" using Cons.prems(3) count_step [OF assms(1)] by blast
  ultimately show ?case using Cons.IH Cons.prems(1) by (simp add: comp_run_def by_processes_def)
qed (simp add: comp_run_def)

section \<open>Properties\<close>

text \<open>
  C27. In every interleaving of the thread, the reads of \<open>N\<close> processes and the unload, the thread reports at most one event per
  read that has returned, plus one for the signal of the unload: \<^verbatim>\<open>read_count\<close> never runs ahead of the reads. And at any
  moment no more than \<open>N\<close> signals are pending altogether, one more when the unload has begun.
\<close>

theorem comp1_counts_reads:
  assumes "comp_ok C cnt" and "cnt c0 = 0" and "by_processes N es"
  shows "let s = comp_run C es (comp_start c0) in cnt (cmp s) \<le> N + of_bool (exit_at s \<noteq> Idle) \<and>
    (\<exists>n \<le> ret_reads s + of_bool (exit_at s = Signalled). read_count s = of_nat n)"
proof -
  let ?s = "comp_run C es (comp_start c0)"
  have "pending_inv cnt N (comp_start c0)" "count_inv cnt 0 (comp_start c0)"
    using assms(2) by (simp_all add: pending_inv_def about_to_signal_def count_inv_def comp_start_def)
  then have p: "pending_inv cnt N ?s" and "\<exists>n. count_inv cnt n ?s"
    using comp_run_inv [OF assms(1,3)] by blast+
  then obtain n where n: "count_inv cnt n ?s" by blast
  have "cnt (cmp ?s) \<le> N + of_bool (exit_at ?s \<noteq> Idle)" using p unfolding pending_inv_def by linarith
  moreover have "n \<le> ret_reads ?s + of_bool (exit_at ?s = Signalled)" "read_count ?s = of_nat n"
    using n unfolding count_inv_def by linarith+
  ultimately show ?thesis unfolding Let_def by blast
qed

definition counter_ops :: "nat comp_ops" where
  "counter_ops = \<lparr>completion_done = (\<lambda>n. n \<noteq> 0), complete = Suc,
     wait_for_completion = (\<lambda>n. if n = 0 then None else Some (n - 1))\<rparr>"

lemma counter_ops_ok: "comp_ok counter_ops id"
  by (auto simp: comp_ok_def counter_ops_def split: if_splits)

theorem comp1_counts_reads_witness:
  "cmp (comp_run counter_ops [Read_step 0, Read_step 0, Read_step 0, Read_step 0, Wait_step] (comp_start 0)) \<le> 1"
proof -
  let ?es = "[Read_step 0, Read_step 0, Read_step 0, Read_step 0, Wait_step]"
  have "by_processes 1 ?es" by (simp add: by_processes_def)
  moreover have "exit_at (comp_run counter_ops ?es (comp_start 0)) = Idle" by code_simp
  ultimately show ?thesis using comp1_counts_reads [OF counter_ops_ok, of 0 1 ?es] by (simp add: Let_def)
qed

text \<open>Two processes that test the completion before either signals it leave two signals: two events for the thread.\<close>

lemma comp1_double_signal:
  "cmp (comp_run counter_ops [Read_step 0, Read_step 1, Read_step 0, Read_step 1, Read_step 0, Read_step 1] (comp_start 0)) = 2"
  by code_simp

text \<open>
  The unload reaches a thread that is waiting: after the three statements of the unload the thread leaves its loop within its
  next two stretches, when no read comes in between.
\<close>

theorem comp1_exit_stops_waiting_thread:
  assumes C: "comp_ok C cnt" and "wait_at s = Waiting" and "exit_at s = Idle"
  shows "wait_at (comp_run C [Exit_step, Exit_step, Exit_step, Wait_step, Wait_step] s) = Exited"
proof -
  obtain c where "completion_done C (cmp s) \<Longrightarrow> wait_for_completion C (cmp s) = Some c"
    using comp_okD(1,3) [OF C, of "cmp s"] by (cases "wait_for_completion C (cmp s)") auto
  moreover obtain d where "wait_for_completion C (complete C (cmp s)) = Some d"
    using comp_okD(2,3) [OF C] by (cases "wait_for_completion C (complete C (cmp s))") (fastforce, auto)
  ultimately show ?thesis
    using assms(2,3) by (cases "completion_done C (cmp s)") (simp_all add: comp_run_def comp_exit_def)
qed

theorem comp1_exit_stops_waiting_thread_witness:
  "wait_at (comp_run counter_ops [Exit_step, Exit_step, Exit_step, Wait_step, Wait_step] (comp_start 0)) = Exited"
  using comp1_exit_stops_waiting_thread [OF counter_ops_ok, of "comp_start 0"] by (simp add: comp_start_def)

text \<open>
  The unload can miss a thread that is handling a read: if the unload sets the flag and
  signals between the thread's test of the flag and its reset, the thread clears the flag,
  takes the signal for a read, and waits again, with the unload finished and nobody left to
  signal.
\<close>

theorem comp1_exit_can_be_lost:
  "\<exists>es. let s = comp_run counter_ops es (comp_start 0) in
    exit_at s = Signalled \<and> read_at s 0 = Idle \<and> wait_at s = Waiting \<and>
    wait_function counter_ops (wait_at s) s = None \<and> ret_reads s = 1 \<and> read_count s = 2"
proof -
  let ?es = "[Read_step 0, Read_step 0, Read_step 0, Wait_step, Wait_step, Exit_step, Exit_step, Exit_step, Wait_step,
    Wait_step, Wait_step, Wait_step]"
  let ?s = "comp_run counter_ops ?es (comp_start 0)"
  have "exit_at ?s = Signalled" "read_at ?s 0 = Idle" "wait_at ?s = Waiting" "cmp ?s = 0" "ret_reads ?s = 1"
    "read_count ?s = 2" by code_simp+
  then show ?thesis by (intro exI [of _ ?es]) (simp add: Let_def counter_ops_def)
qed

end
