(* ===== verification/Readonly_Char.thy ===== *)
theory Readonly_Char
  imports Char_Module C_Decimal
begin

text \<open>
  The read-only device \<^verbatim>\<open>ReadonlyCharacter/char1.c\<close>: every open formats a message with a counter
  into an 80-byte buffer, and reads hand it out piece by piece until its terminating zero.
\<close>

section \<open>State and handlers\<close>

definition BUF_LEN :: nat where
  "BUF_LEN = 80"

text \<open>\<open>msg\<close> is the buffer with its terminating zero; \<open>msg_Ptr\<close> is a position in it.\<close>

record ro_world = cworld +
  Major :: int
  Device_Open :: int
  counter :: int
  msg :: "char list"
  msg_Ptr :: nat

abbreviation NUL :: char where
  "NUL \<equiv> CHR 0x00"

text \<open>The text \<^verbatim>\<open>sprintf\<close> produces, without the terminating zero.\<close>

definition hello :: "int \<Rightarrow> string" where
  "hello n = ''I already told you '' @ sprintf_d n @ '' times Hello world!'' @ [CHR 0x0A]"

definition ro_init :: "ccall kenv \<Rightarrow> (ro_world, int) state" where
  "ro_init E = do {
     m \<leftarrow> kint E (Register_chrdev 0 ''chardev'');
     modify (\<lambda>w. w\<lparr>Major := m\<rparr>);
     if m < 0 then ret m else ret 0 }"

definition ro_exit :: "(ro_world, unit) state" where
  "ro_exit = do { m \<leftarrow> gets Major; kvoid (Unregister_chrdev m ''chardev'') }"

text \<open>A message longer than the buffer would be a write outside it.\<close>

definition device_open :: "(ro_world, int) state" where
  "device_open = do {
     modify (\<lambda>w. w\<lparr>Device_Open := s32 (Device_Open w + 1)\<rparr>);
     n \<leftarrow> gets counter;
     m \<leftarrow> gets msg;
     (case poke m 0 (hello n @ [NUL]) of
        None \<Rightarrow> koops ''write beyond msg''
      | Some m' \<Rightarrow> modify (\<lambda>w. w\<lparr>msg := m'\<rparr>));
     modify (\<lambda>w. w\<lparr>counter := s32 (n + 1)\<rparr>);
     modify (\<lambda>w. w\<lparr>msg_Ptr := 0\<rparr>);
     ret 0 }"

definition device_release :: "(ro_world, int) state" where
  "device_release = do { modify (\<lambda>w. w\<lparr>Device_Open := s32 (Device_Open w - 1)\<rparr>); ret 0 }"

text \<open>
  The copy loop: the bytes handed to the user and the new position. Running past the end of
  the buffer is \<open>None\<close>.
\<close>

fun read_loop :: "char list \<Rightarrow> nat \<Rightarrow> nat \<Rightarrow> (string \<times> nat) option" where
  "read_loop m p 0 = Some ([], p)"
| "read_loop m p (Suc n) =
     (if length m \<le> p then None
      else if m ! p = NUL then Some ([], p)
      else map_option (\<lambda>(s, q). (m ! p # s, q)) (read_loop m (Suc p) n))"

definition device_read :: "nat \<Rightarrow> (ro_world, int \<times> string) state" where
  "device_read len = do {
     m \<leftarrow> gets msg;
     p \<leftarrow> gets msg_Ptr;
     if length m \<le> p then do { koops ''read beyond msg''; ret (0, []) }
     else if m ! p = NUL then ret (0, [])
     else (case read_loop m p len of
        None \<Rightarrow> do { koops ''read beyond msg''; ret (0, []) }
      | Some (s, q) \<Rightarrow> do {
          modify (\<lambda>w. w\<lparr>msg_Ptr := q\<rparr>);
          ret (int (length s), s) }) }"

definition device_write :: "nat \<Rightarrow> (ro_world, int) state" where
  "device_write len = do { kvoid (Printk ''Sorry, this operation is not supported.''); ret (- EINVAL) }"

definition ro_fops :: "ro_world file_ops" where
  "ro_fops = \<lparr>fop_open = device_open, fop_release = device_release,
     fop_read = (\<lambda>len. do { r \<leftarrow> device_read len; ret (fst r) }), fop_write = device_write\<rparr>"

section \<open>The module in use\<close>

text \<open>A number that \<^verbatim>\<open>register_chrdev\<close> chooses is not 0.\<close>

definition chooses_major :: "ccall kenv \<Rightarrow> bool" where
  "chooses_major E \<longleftrightarrow> (\<forall>tr nm. ret_int E tr (Register_chrdev 0 nm) \<noteq> 0)"

lemma ro_init_acquires:
  assumes "chooses_major E" and "run_state (ro_init E) w = (0, w')"
  shows "c_ledger (trace w') = (c_ledger (trace w))\<lparr>owned := owned (c_ledger (trace w)) + {#Chrdev (Major w')#}\<rparr>"
proof -
  have "ret_int E (trace w) (Register_chrdev 0 ''chardev'') \<noteq> 0" using assms(1) by (simp add: chooses_major_def)
  then show ?thesis
    using assms(2) by (auto simp: ro_init_def krun ledger_of_append tables split: if_splits)
qed

lemma ro_exit_releases:
  assumes "owned (c_ledger (trace w)) = M + {#Chrdev (Major w)#}"
  shows "c_ledger (trace (final_world ro_exit w)) = (c_ledger (trace w))\<lparr>owned := M\<rparr>"
  using assms by (simp add: ro_exit_def final_world_def krun ledger_of_append tables)

lemma ro_fops_keep: "m \<in> range (file_do ro_fops) \<Longrightarrow> keeps c_acq c_rel (\<lambda>w. {#Chrdev (Major w)#}) m"
  by (rule keeps_file_do)
    (auto simp: keeps_def ro_fops_def device_open_def device_release_def device_read_def device_write_def final_world_def krun
      ledger_of_append tables split: option.split)

interpretation rom: served_module ro_init "\<lambda>E. ro_exit" c_acq c_rel "\<lambda>w. {#Chrdev (Major w)#}" chooses_major "range (file_do ro_fops)"
  by unfold_locales (rule ro_init_acquires, assumption+, rule ro_exit_releases, assumption, rule ro_fops_keep, assumption)

section \<open>The message fits the buffer\<close>

lemma hello_length:
  assumes "- (2 ^ 31) \<le> n" "n < 2 ^ 31"
  shows "length (hello n @ [NUL]) \<le> 51"
  using sprintf_length [OF assms] by (simp add: hello_def)

lemma is_digit_NUL [simp]: "\<not> is_digit NUL"
  by code_simp

lemma hello_no_NUL: "NUL \<notin> set (hello n)"
proof -
  have "NUL \<notin> set (nat_dec k)" for k using nat_dec_digits [of k] by (auto simp: list_all_iff)
  then show ?thesis by (auto simp: hello_def sprintf_d_def)
qed

text \<open>The buffer holds message \<open>n\<close> and the position is inside it.\<close>

definition ro_holds :: "int \<Rightarrow> nat \<Rightarrow> ro_world \<Rightarrow> bool" where
  "ro_holds n p w \<longleftrightarrow> p \<le> length (hello n) \<and> msg_Ptr w = p \<and>
     (\<exists>rest. msg w = hello n @ NUL # rest)"

lemma open_holds:
  assumes "length (msg w) = BUF_LEN" and "- (2 ^ 31) \<le> counter w" and "counter w < 2 ^ 31"
  shows "ro_holds (counter w) 0 (final_world device_open w) \<and> result device_open w = 0 \<and>
    trace (final_world device_open w) = trace w \<and> length (msg (final_world device_open w)) = BUF_LEN \<and>
    counter (final_world device_open w) = s32 (counter w + 1)"
proof -
  let ?h = "hello (counter w) @ [NUL]"
  have "length ?h \<le> length (msg w)" using hello_length [OF assms(2,3)] assms(1) by (simp add: BUF_LEN_def)
  then have "poke (msg w) 0 ?h = Some (?h @ drop (length ?h) (msg w))" by (simp add: poke_def)
  then show ?thesis
    using \<open>length ?h \<le> length (msg w)\<close> assms(1)
    by (simp add: device_open_def final_world_def result_def krun ro_holds_def)
qed

lemma read_loop_holds:
  assumes "NUL \<notin> set h" and "m = h @ NUL # rest" and "p \<le> length h"
  shows "read_loop m p n = Some (take n (drop p h), min (p + n) (length h))"
  using assms(3)
proof (induction n arbitrary: p)
  case (Suc n)
  show ?case
  proof (cases "p < length h")
    case True
    then have "m ! p = h ! p" "h ! p \<noteq> NUL" using assms(1,2) by (auto simp: nth_append dest: nth_mem)
    moreover have "drop p h = h ! p # drop (Suc p) h" using True by (rule Cons_nth_drop_Suc [symmetric])
    ultimately show ?thesis using Suc True assms(2) by simp
  next
    case False
    then show ?thesis using Suc.prems assms(2) by (simp add: nth_append)
  qed
qed simp

lemma read_holds:
  assumes "ro_holds n p w"
  shows "result (device_read len) w = (int (length (take len (drop p (hello n)))), take len (drop p (hello n))) \<and>
    ro_holds n (min (p + len) (length (hello n))) (final_world (device_read len) w) \<and>
    trace (final_world (device_read len) w) = trace w"
proof -
  obtain rest where m: "msg w = hello n @ NUL # rest" and p: "p \<le> length (hello n)" "msg_Ptr w = p"
    using assms by (auto simp: ro_holds_def)
  note loop = read_loop_holds [OF hello_no_NUL m p(1), of len]
  show ?thesis
  proof (cases "p < length (hello n)")
    case True
    then have "msg w ! p \<noteq> NUL" using hello_no_NUL [of n] m by (auto simp: nth_append dest: nth_mem)
    then show ?thesis
      using True m p loop by (simp add: device_read_def result_def final_world_def krun ro_holds_def)
  next
    case False
    then show ?thesis
      using m p by (simp add: device_read_def result_def final_world_def krun ro_holds_def nth_append)
  qed
qed

section \<open>Properties\<close>

text \<open>A sequence of reads with the given lengths.\<close>

fun reads :: "nat list \<Rightarrow> ro_world \<Rightarrow> string list \<times> ro_world" where
  "reads [] w = ([], w)"
| "reads (n # ns) w = (case run_state (device_read n) w of (x, w') \<Rightarrow>
     (case reads ns w' of (ss, w'') \<Rightarrow> (snd x # ss, w'')))"

lemma reads_holds:
  assumes "ro_holds n p w"
  shows "concat (fst (reads ns w)) = take (sum_list ns) (drop p (hello n)) \<and>
    ro_holds n (min (p + sum_list ns) (length (hello n))) (snd (reads ns w)) \<and>
    trace (snd (reads ns w)) = trace w"
  using assms
proof (induction ns arbitrary: p w)
  case Nil
  then show ?case by (auto simp: ro_holds_def min_def)
next
  case (Cons k ns)
  obtain x w' where r: "run_state (device_read k) w = (x, w')" by fastforce
  have h: "snd x = take k (drop p (hello n))" "ro_holds n (min (p + k) (length (hello n))) w'" "trace w' = trace w"
    using read_holds [OF Cons.prems, of k] r by (auto simp: result_def final_world_def)
  have "drop (min (p + k) (length (hello n))) (hello n) = drop k (drop p (hello n))"
    by (simp add: min_def add.commute)
  then show ?case
    using Cons.IH [OF h(2)] h(1,3) r
    by (simp add: case_prod_beta take_add min.commute min.left_commute add.assoc min_def split: if_splits)
qed

text \<open>
  C25. After an open, reads of any lengths hand out the message piece by piece: what they
  return, concatenated, is the beginning of the message of that open, a read behind its end
  returns 0, and neither the formatting nor the reading leaves the 80-byte buffer.
\<close>

theorem ro_reads_message:
  assumes "length (msg w) = BUF_LEN" and "- (2 ^ 31) \<le> counter w" and "counter w < 2 ^ 31"
  shows "let w1 = final_world device_open w; r = reads ns w1 in
    concat (fst r) = take (sum_list ns) (hello (counter w)) \<and>
    (length (hello (counter w)) \<le> sum_list ns \<longrightarrow> result (device_read k) (snd r) = (0, [])) \<and>
    trace (snd r) = trace w"
proof -
  let ?w1 = "final_world device_open w"
  have o: "ro_holds (counter w) 0 ?w1" "trace ?w1 = trace w" using open_holds [OF assms] by simp_all
  have h: "ro_holds (counter w) (min (sum_list ns) (length (hello (counter w)))) (snd (reads ns ?w1))"
    using reads_holds [OF o(1), of ns] by simp
  show ?thesis
    using reads_holds [OF o(1), of ns] o(2) read_holds [OF h, of k] by (simp add: Let_def)
qed

definition ro0 :: ro_world where
  "ro0 = \<lparr>trace = [], dev = 0, dev_class = Null, test_thread1 = Null, test_thread2 = Null, parent = Null,
     kobj_ref = Null, Major = 250, Device_Open = 0, counter = 7, msg = replicate 80 NUL, msg_Ptr = 0\<rparr>"

theorem ro_reads_message_witness:
  "concat (fst (reads [12, 9, 4] (final_world device_open ro0))) = ''I already told you 7 time''"
proof -
  have "take 25 (hello 7) = ''I already told you 7 time''" by code_simp
  then show ?thesis
    using ro_reads_message [of ro0 "[12, 9, 4]" 0] by (simp add: ro0_def BUF_LEN_def Let_def)
qed

end
