(* ===== verification/USB_Bulk.thy ===== *)
theory USB_Bulk
  imports Kernel_Prelude
begin

text \<open>
  The bulk-transfer driver \<^verbatim>\<open>USB/usbdrv4.c\<close>. The data path (\<^verbatim>\<open>test_usb1_read\<close>,
  \<^verbatim>\<open>test_usb1_write\<close>) works on the device structure alone; what the bus and the user copies
  answer is passed in. Probing and disconnecting run in the monad of kernel calls, and the
  pair is an instance of the module interface of the prelude.
\<close>

section \<open>The device structure\<close>

record test_usb1_device =
  in_ep :: int
  out_ep :: int
  in_buf_size :: nat
  out_buf_size :: nat
  in_buf :: kptr
  out_buf :: kptr
  in_mem :: "byte list"
  in_buf_left_over :: nat
  dev_locked :: bool

section \<open>Reading\<close>

text \<open>
  The answer of \<^verbatim>\<open>usb_bulk_msg\<close> for a read: its result and the bytes that arrived at the start of
  the buffer.
\<close>

type_synonym bulk_in = "int \<times> byte list"

text \<open>
  The loop \<^verbatim>\<open>for (i = cnt; i < read_size; i++) in_buf[i - cnt] = in_buf[i]\<close>.
\<close>

fun shift_loop :: "nat \<Rightarrow> nat \<Rightarrow> nat \<Rightarrow> byte list \<Rightarrow> byte list" where
  "shift_loop cnt 0 i m = m"
| "shift_loop cnt (Suc n) i m = shift_loop cnt n (Suc i) (m[i - cnt := m ! i])"

text \<open>
  The result is the return value, the bytes that reached the user, and the device
  afterwards. \<open>copy_res\<close> is the answer of \<^verbatim>\<open>copy_to_user\<close>. The kernel caps the length of a read below 2 to the 31, so that it fits the
  loop variable.
\<close>

definition test_usb1_read ::
  "bulk_in \<Rightarrow> int \<Rightarrow> nat \<Rightarrow> test_usb1_device \<Rightarrow> int \<times> byte list \<times> test_usb1_device" where
  "test_usb1_read bulk copy_res cnt d =
     (let (retval, data) = bulk;
          filled = (if in_buf_left_over d \<noteq> 0 then d\<lparr>in_buf_left_over := 0\<rparr>
                    else d\<lparr>in_mem := data @ drop (length data) (in_mem d)\<rparr>);
          failed = (in_buf_left_over d = 0 \<and> retval < 0 \<and> retval \<noteq> - ETIMEDOUT);
          read_size = (if in_buf_left_over d \<noteq> 0 then in_buf_left_over d
                       else if retval < 0 then 0 else length data);
          read_cnt = (if read_size \<le> cnt then read_size else cnt)
      in if failed then (retval, [], filled)
         else if copy_res \<noteq> 0 then (- EFAULT, [], filled\<lparr>in_buf_left_over := read_size\<rparr>)
         else (int read_cnt, take read_cnt (in_mem filled),
               filled\<lparr>in_mem := shift_loop cnt (read_size - cnt) cnt (in_mem filled),
                      in_buf_left_over := (if cnt < read_size then read_size - cnt else 0)\<rparr>))"

text \<open>Data received and not yet handed out.\<close>

definition pending :: "test_usb1_device \<Rightarrow> byte list" where
  "pending d = take (in_buf_left_over d) (in_mem d)"

definition usb1_wf :: "test_usb1_device \<Rightarrow> bool" where
  "usb1_wf d \<longleftrightarrow> length (in_mem d) = in_buf_size d \<and> in_buf_left_over d \<le> in_buf_size d"

text \<open>The bus delivers at most the buffer size.\<close>

definition bulk_fits :: "test_usb1_device \<Rightarrow> bulk_in \<Rightarrow> bool" where
  "bulk_fits d b \<longleftrightarrow> length (snd b) \<le> in_buf_size d"

lemma shift_loop_length [simp]: "length (shift_loop cnt n i m) = length m"
  by (induction cnt n i m rule: shift_loop.induct) simp_all

lemma shift_loop_nth:
  assumes "cnt \<le> i" and "i + n \<le> length m" and "k < length m"
  shows "shift_loop cnt n i m ! k =
    (if i - cnt \<le> k \<and> k < i - cnt + n then m ! (k + cnt) else m ! k)"
  using assms
proof (induction cnt n i m rule: shift_loop.induct)
  case (2 cnt n i m)
  let ?m = "m[i - cnt := m ! i]"
  have ih: "shift_loop cnt n (Suc i) ?m ! k =
      (if Suc i - cnt \<le> k \<and> k < Suc i - cnt + n then ?m ! (k + cnt) else ?m ! k)"
    using 2 by simp
  then show ?case
  proof (cases "k = i - cnt")
    case True
    then have "?m ! k = m ! (k + cnt)" "\<not> Suc i - cnt \<le> k" "i - cnt < Suc (i + n - cnt)"
      using 2(2-4) by simp_all
    then show ?thesis using ih True by simp
  next
    case False
    then have "?m ! k = m ! k" by simp
    moreover have "?m ! (k + cnt) = m ! (k + cnt)" if "i - cnt \<le> k"
    proof -
      have "i - cnt \<noteq> k + cnt" using that False by linarith
      then show ?thesis by simp
    qed
    moreover have "Suc i - cnt \<le> k \<and> k < Suc i - cnt + n \<longleftrightarrow> i - cnt \<le> k \<and> k < i - cnt + Suc n"
      using False 2(2) by linarith
    ultimately show ?thesis using ih by simp
  qed
qed auto

lemma shift_loop_take:
  assumes "cnt \<le> r" and "r \<le> length m"
  shows "take (r - cnt) (shift_loop cnt (r - cnt) cnt m) = drop cnt (take r m)"
  using assms by (intro nth_equalityI) (auto simp: shift_loop_nth add.commute)

text \<open>
  The transfer a read makes, if nothing is left over: the result of \<^verbatim>\<open>usb_bulk_msg\<close> and every byte it stored, which can be some even
  when the result is an error. What a read adds to the stream are the bytes of a transfer without an error.
\<close>

definition transfer_of :: "bulk_in \<Rightarrow> test_usb1_device \<Rightarrow> bulk_in list" where
  "transfer_of b d = (if in_buf_left_over d \<noteq> 0 then [] else [b])"

definition bytes_of :: "bulk_in list \<Rightarrow> byte list" where
  "bytes_of ts = concat (map snd ts)"

definition successful :: "bulk_in list \<Rightarrow> bulk_in list" where
  "successful ts = filter (\<lambda>t. 0 \<le> fst t) ts"

lemma bytes_of_append [simp]:
  "bytes_of (xs @ ys) = bytes_of xs @ bytes_of ys" "successful (xs @ ys) = successful xs @ successful ys"
  "bytes_of [] = []" "successful [] = []"
  by (simp_all add: bytes_of_def successful_def)

lemma successful_all:
  assumes "\<forall>t\<in>set ts. fst t < 0 \<longrightarrow> snd t = []"
  shows "bytes_of (successful ts) = bytes_of ts"
  using assms by (induction ts) (auto simp: bytes_of_def successful_def)

lemma read_step:
  assumes "usb1_wf d" and "bulk_fits d b"
  shows "case test_usb1_read b cr cnt d of (r, sent, d') \<Rightarrow>
    sent @ pending d' = pending d @ bytes_of (successful (transfer_of b d)) \<and> usb1_wf d' \<and> in_buf_size d' = in_buf_size d \<and>
    length sent \<le> cnt \<and> (0 \<le> r \<longrightarrow> r = int (length sent)) \<and> (r < 0 \<longrightarrow> sent = [])"
proof -
  obtain rv data where b: "b = (rv, data)" by fastforce
  define r where "r = (if in_buf_left_over d \<noteq> 0 then in_buf_left_over d else if rv < 0 then 0 else length data)"
  define m where "m = (if in_buf_left_over d \<noteq> 0 then in_mem d else data @ drop (length data) (in_mem d))"
  have len: "length m = in_buf_size d" "r \<le> in_buf_size d"
    using assms by (auto simp: m_def r_def usb1_wf_def bulk_fits_def b)
  have tk: "take r m = pending d @ bytes_of (successful (transfer_of b d))"
    using assms by (auto simp: r_def m_def pending_def transfer_of_def bytes_of_def successful_def b)
  have sh: "take (r - cnt) (shift_loop cnt (r - cnt) cnt m) = drop cnt (take r m)" if "cnt < r"
    using shift_loop_take [of cnt r m] that len by simp
  have "take cnt m @ drop cnt (take r m) = take r m" if "cnt < r"
    using that by (metis append_take_drop_id min.absorb1 less_imp_le take_take)
  then show ?thesis
    using tk sh len assms
    by (simp add: test_usb1_read_def b Let_def r_def [symmetric] m_def [symmetric])
       (auto simp: pending_def usb1_wf_def transfer_of_def bytes_of_def successful_def r_def m_def split: if_splits)
qed

text \<open>A session of reads; \<open>reads\<close> gives the bytes that reached the user and the device.\<close>

type_synonym read_call = "bulk_in \<times> int \<times> nat"

fun reads :: "read_call list \<Rightarrow> test_usb1_device \<Rightarrow> byte list \<times> test_usb1_device" where
  "reads [] d = ([], d)"
| "reads ((b, cr, cnt) # cs) d =
     (case test_usb1_read b cr cnt d of (r, sent, d') \<Rightarrow>
        (case reads cs d' of (rest, d'') \<Rightarrow> (sent @ rest, d'')))"

text \<open>The transfers of a session.\<close>

fun transfers :: "read_call list \<Rightarrow> test_usb1_device \<Rightarrow> bulk_in list" where
  "transfers [] d = []"
| "transfers ((b, cr, cnt) # cs) d = transfer_of b d @ transfers cs (snd (snd (test_usb1_read b cr cnt d)))"

lemma reads_stream:
  assumes "usb1_wf d" and "\<forall>c\<in>set cs. length (snd (fst c)) \<le> in_buf_size d"
  shows "fst (reads cs d) @ pending (snd (reads cs d)) = pending d @ bytes_of (successful (transfers cs d)) \<and>
    usb1_wf (snd (reads cs d))"
  using assms
proof (induction cs arbitrary: d)
  case (Cons c cs)
  obtain b cr cnt where c: "c = (b, cr, cnt)" by (cases c) auto
  obtain r sent d' where t: "test_usb1_read b cr cnt d = (r, sent, d')" by (metis prod_cases3)
  have "bulk_fits d b" using Cons.prems(2) by (simp add: c bulk_fits_def)
  then have s: "sent @ pending d' = pending d @ bytes_of (successful (transfer_of b d))" "usb1_wf d'" "in_buf_size d' = in_buf_size d"
    using read_step [OF Cons.prems(1), where b = b and cr = cr and cnt = cnt] by (simp_all add: t)
  then have "fst (reads cs d') @ pending (snd (reads cs d')) = pending d' @ bytes_of (successful (transfers cs d')) \<and>
      usb1_wf (snd (reads cs d'))"
    using Cons by (intro Cons.IH) auto
  moreover have "sent @ pending d' @ ys = pending d @ bytes_of (successful (transfer_of b d)) @ ys" for ys
    using s(1) by (metis append.assoc)
  ultimately show ?case by (simp add: c t case_prod_beta)
qed simp

text \<open>
  C5. Reading is a byte stream: over any sequence of reads with any buffer lengths, failed user copies and bus errors included, the
  bytes that reached the user followed by the bytes still kept are the bytes kept at the start followed by the bytes of the transfers
  that succeeded, in order and without repetition. If the transfers that fail bring no bytes, nothing the bus delivered is lost.
\<close>

theorem usb1_reads_are_stream:
  assumes "usb1_wf d" and "\<forall>c\<in>set cs. length (snd (fst c)) \<le> in_buf_size d"
  shows "fst (reads cs d) @ pending (snd (reads cs d)) = pending d @ bytes_of (successful (transfers cs d)) \<and>
    usb1_wf (snd (reads cs d)) \<and>
    ((\<forall>t\<in>set (transfers cs d). fst t < 0 \<longrightarrow> snd t = []) \<longrightarrow>
      fst (reads cs d) @ pending (snd (reads cs d)) = pending d @ bytes_of (transfers cs d))"
  using reads_stream [OF assms] successful_all [of "transfers cs d"] by simp

definition usb0 :: test_usb1_device where
  "usb0 = \<lparr>in_ep = 1, out_ep = 1, in_buf_size = 4, out_buf_size = 4, in_buf = Ptr 1, out_buf = Ptr 2,
     in_mem = replicate 4 0, in_buf_left_over = 0, dev_locked = False\<rparr>"

theorem usb1_reads_are_stream_witness:
  "fst (reads [((0, [1, 2, 3]), 0, 2), ((0, [9]), 0, 2), ((- 110, []), 0, 5), ((0, [4]), 1, 5), ((0, [8]), 0, 5)] usb0) = [1, 2, 3, 4]"
proof -
  let ?cs = "[((0, [1, 2, 3]), 0, 2), ((0, [9]), 0, 2), ((- 110, []), 0, 5), ((0, [4]), 1, 5), ((0, [8]), 0, 5)] :: read_call list"
  have b: "bytes_of (transfers ?cs usb0) = [1, 2, 3, 4]" and p: "pending (snd (reads ?cs usb0)) = []" "pending usb0 = []"
    and "list_all (\<lambda>t. fst t < 0 \<longrightarrow> snd t = []) (transfers ?cs usb0)" by code_simp+
  then have l: "\<forall>t\<in>set (transfers ?cs usb0). fst t < 0 \<longrightarrow> snd t = []" by (simp only: list_all_iff)
  have "usb1_wf usb0" "\<forall>c\<in>set ?cs. length (snd (fst c)) \<le> in_buf_size usb0" by (simp_all add: usb1_wf_def usb0_def)
  from usb1_reads_are_stream [OF this] have "fst (reads ?cs usb0) @ pending (snd (reads ?cs usb0)) = pending usb0 @ bytes_of (transfers ?cs usb0)"
    using l by blast
  then show ?thesis unfolding b p by simp
qed

text \<open>A transfer that times out after some bytes loses them: the user is told that there was nothing.\<close>

lemma usb1_timeout_drops:
  assumes "in_buf_left_over d = 0"
  shows "fst (test_usb1_read (- ETIMEDOUT, data) 0 cnt d) = 0 \<and> pending (snd (snd (test_usb1_read (- ETIMEDOUT, data) 0 cnt d))) = []"
  using assms by (simp add: test_usb1_read_def pending_def)

section \<open>Writing\<close>

text \<open>
  One round of the write loop needs three answers: of \<^verbatim>\<open>copy_from_user\<close>, and the result and
  the length written of \<^verbatim>\<open>usb_bulk_msg\<close>. The loop runs as long as there are rounds; \<open>None\<close>:
  after these rounds it is still running. \<open>sent\<close> collects what the bus took.
\<close>

type_synonym round = "int \<times> int \<times> nat"

fun write_loop :: "nat \<Rightarrow> byte list \<Rightarrow> round list \<Rightarrow> nat \<Rightarrow> byte list \<Rightarrow> (int \<times> byte list) option" where
  "write_loop osz buf rs wrote_cnt sent =
     (if \<not> wrote_cnt < length buf then Some (int wrote_cnt, sent)
      else (case rs of
         [] \<Rightarrow> None
       | (copy_res, retval, wrote_size) # rs' \<Rightarrow>
           (let write_size = min osz (length buf - wrote_cnt) in
            if copy_res \<noteq> 0 then Some (- EFAULT, sent)
            else if retval < 0 then Some (retval, sent)
            else write_loop osz buf rs' (wrote_cnt + wrote_size)
                   (sent @ take wrote_size (take write_size (drop wrote_cnt buf))))))"

declare write_loop.simps [simp del]

definition test_usb1_write :: "test_usb1_device \<Rightarrow> byte list \<Rightarrow> round list \<Rightarrow> (int \<times> byte list) option" where
  "test_usb1_write d buf rs = write_loop (out_buf_size d) buf rs 0 []"

text \<open>In every round the bus takes something, but no more than it is offered.\<close>

fun bus_ok :: "nat \<Rightarrow> nat \<Rightarrow> round list \<Rightarrow> nat \<Rightarrow> bool" where
  "bus_ok osz len [] p = True"
| "bus_ok osz len ((cr, rv, n) # rs) p =
     (p < len \<longrightarrow> cr = 0 \<and> 0 \<le> rv \<and> 0 < n \<and> n \<le> min osz (len - p) \<and> bus_ok osz len rs (p + n))"

lemma write_loop_done:
  assumes "bus_ok osz (length buf) rs p" and "length buf - p \<le> length rs" and "p \<le> length buf"
  shows "write_loop osz buf rs p (take p buf) = Some (int (length buf), buf)"
  using assms
proof (induction rs arbitrary: p)
  case Nil
  then show ?case by (subst write_loop.simps) simp
next
  case (Cons r rs)
  show ?case
  proof (cases "p < length buf")
    case False
    then show ?thesis using Cons.prems(3) by (subst write_loop.simps) simp
  next
    case True
    obtain cr rv n where r: "r = (cr, rv, n)" by (cases r) auto
    have n: "cr = 0" "0 \<le> rv" "0 < n" "n \<le> min osz (length buf - p)" "bus_ok osz (length buf) rs (p + n)"
      using Cons.prems(1) True by (auto simp: r)
    have t: "take p buf @ take n (take (min osz (length buf - p)) (drop p buf)) = take (p + n) buf"
      using n(4) by (simp add: take_add min_absorb1)
    have "write_loop osz buf rs (p + n) (take (p + n) buf) = Some (int (length buf), buf)"
      using Cons.prems n True by (intro Cons.IH) auto
    then show ?thesis
      using True n(1,2) t by (subst write_loop.simps) (simp add: r Let_def)
  qed
qed

lemma write_loop_stuck:
  assumes "\<forall>r\<in>set rs. r = (0, 0, 0)" and "p < length buf"
  shows "write_loop osz buf rs p sent = None"
  using assms by (induction rs) (subst write_loop.simps, simp add: Let_def)+

text \<open>
  C19. The write loop: if every transfer takes at least one byte and no more than offered, the
  call returns the length of the buffer after at most that many rounds and the bus has
  taken exactly the user's bytes in order. If the bus accepts transfers without taking
  anything (as for a device without an OUT endpoint, whose buffer size is 0), the loop
  never ends, whatever the number of rounds.
\<close>

theorem usb1_write_complete:
  shows "(bus_ok (out_buf_size d) (length buf) rs 0 \<and> length buf \<le> length rs \<longrightarrow>
      test_usb1_write d buf rs = Some (int (length buf), buf)) \<and>
    (buf \<noteq> [] \<longrightarrow> test_usb1_write d buf (replicate k (0, 0, 0)) = None)"
  using write_loop_done [of "out_buf_size d" buf rs 0] write_loop_stuck [of "replicate k (0, 0, 0)" 0 buf]
  by (auto simp: test_usb1_write_def)

theorem usb1_write_complete_witness:
  "test_usb1_write usb0 [1, 2, 3, 4, 5, 6] [(0, 0, 4), (0, 0, 1), (0, 0, 1), (0, 0, 1), (0, 0, 1), (0, 0, 1)]
     = Some (6, [1, 2, 3, 4, 5, 6]) \<and> test_usb1_write usb0 [1] (replicate 9 (0, 0, 0)) = None"
  using usb1_write_complete [of usb0 "[1, 2, 3, 4, 5, 6]"
      "[(0, 0, 4), (0, 0, 1), (0, 0, 1), (0, 0, 1), (0, 0, 1), (0, 0, 1)]" 9]
    usb1_write_complete [of usb0 "[1]" "[]" 9]
  by (simp add: usb0_def)

end
