(* ===== verification/USB_Bulk_Probe.thy ===== *)
theory USB_Bulk_Probe
  imports USB_Bulk
begin

text \<open>
  Opening and closing, probing and disconnecting of the bulk driver \<^verbatim>\<open>USB/usbdrv4.c\<close>.
\<close>

unbundle bit_operations_syntax

section \<open>Kernel calls\<close>

datatype ucall =
    Kzalloc_dev
  | Kmalloc nat
  | Kfree kptr
  | Usb_register_dev
  | Usb_deregister_dev
  | Usb_find_interface int
  | Usb_register
  | Usb_deregister
  | Mutex_lock
  | Mutex_unlock

record uworld = "ucall kworld" +
  devp :: kptr
  udev :: test_usb1_device
  intfdata :: kptr

definition zeroed :: test_usb1_device where
  "zeroed = \<lparr>in_ep = 0, out_ep = 0, in_buf_size = 0, out_buf_size = 0, in_buf = Null, out_buf = Null,
     in_mem = [], in_buf_left_over = 0, dev_locked = False\<rparr>"

lemma zeroed_simps [simp]: "in_buf zeroed = Null" "out_buf zeroed = Null"
  by (simp_all add: zeroed_def)

section \<open>Open and close\<close>

definition test_usb1_open :: "ucall kenv \<Rightarrow> int \<Rightarrow> (uworld, int) state" where
  "test_usb1_open E minor = do {
     i \<leftarrow> kptr_call E (Usb_find_interface minor);
     if i = Null then ret (- ENODEV)
     else do {
       p \<leftarrow> gets intfdata;
       if p = Null then ret (- ENODEV)
       else do {
         l \<leftarrow> gets (dev_locked \<circ> udev);
         if l then ret (- EBUSY)
         else do {
           modify (\<lambda>w. w\<lparr>udev := (udev w)\<lparr>dev_locked := True\<rparr>\<rparr>);
           modify (\<lambda>w. w\<lparr>udev := (udev w)\<lparr>in_buf_left_over := 0\<rparr>\<rparr>);
           ret 0 } } } }"

definition test_usb1_close :: "(uworld, int) state" where
  "test_usb1_close = do {
     modify (\<lambda>w. w\<lparr>udev := (udev w)\<lparr>dev_locked := False\<rparr>\<rparr>);
     ret 0 }"

section \<open>Probe and disconnect\<close>

definition EP_IN :: int where "EP_IN = 0x81"
definition EP_OUT :: int where "EP_OUT = 0x01"

text \<open>An endpoint descriptor: its address and its maximal packet size.\<close>

type_synonym endpoint = "int \<times> nat"

text \<open>The label \<^verbatim>\<open>probe_err\<close>. Reading a field through a null pointer is a fault.\<close>

definition probe_err :: "int \<Rightarrow> (uworld, int) state" where
  "probe_err retval = do {
     p \<leftarrow> gets devp;
     if p = Null then do { koops ''probe_err: test_usb1_dev is NULL''; ret retval }
     else do {
       o' \<leftarrow> gets (out_buf \<circ> udev);
       (if o' \<noteq> Null then kvoid (Kfree o') else ret ());
       i \<leftarrow> gets (in_buf \<circ> udev);
       (if i \<noteq> Null then kvoid (Kfree i) else ret ());
       kvoid (Kfree p);
       ret retval } }"

text \<open>
  The two halves of the endpoint loop's body and the loop; \<open>None\<close> means that it goes on
  normally, \<open>Some r\<close> that the probe was left with \<open>r\<close>.
\<close>

definition in_endpoint :: "ucall kenv \<Rightarrow> int \<Rightarrow> nat \<Rightarrow> (uworld, int option) state" where
  "in_endpoint E addr sz =
     (if addr = EP_IN then do {
        modify (\<lambda>w. w\<lparr>udev := (udev w)\<lparr>in_ep := addr AND 0xF, in_buf_size := sz\<rparr>\<rparr>);
        b \<leftarrow> kptr_call E (Kmalloc sz);
        modify (\<lambda>w. w\<lparr>udev := (udev w)\<lparr>in_buf := b, in_mem := replicate sz 0\<rparr>\<rparr>);
        if b = Null then do { e \<leftarrow> probe_err (- ENOMEM); ret (Some e) }
        else do {
          modify (\<lambda>w. w\<lparr>udev := (udev w)\<lparr>in_buf_left_over := 0\<rparr>\<rparr>);
          ret None } }
      else ret None)"

definition out_endpoint :: "ucall kenv \<Rightarrow> int \<Rightarrow> nat \<Rightarrow> (uworld, int option) state" where
  "out_endpoint E addr sz =
     (if addr = EP_OUT then do {
        modify (\<lambda>w. w\<lparr>udev := (udev w)\<lparr>out_ep := addr AND 0xF, out_buf_size := sz\<rparr>\<rparr>);
        b \<leftarrow> kptr_call E (Kmalloc sz);
        modify (\<lambda>w. w\<lparr>udev := (udev w)\<lparr>out_buf := b\<rparr>\<rparr>);
        if b = Null then do { e \<leftarrow> probe_err (- ENOMEM); ret (Some e) } else ret None }
      else ret None)"

fun endpoint_loop :: "ucall kenv \<Rightarrow> endpoint list \<Rightarrow> (uworld, int option) state" where
  "endpoint_loop E [] = ret None"
| "endpoint_loop E ((addr, sz) # eps) = do {
     r \<leftarrow> in_endpoint E addr sz;
     case r of Some e \<Rightarrow> ret (Some e)
     | None \<Rightarrow> do {
         q \<leftarrow> out_endpoint E addr sz;
         case q of Some e \<Rightarrow> ret (Some e) | None \<Rightarrow> endpoint_loop E eps } }"

definition test_usb1_probe :: "endpoint list \<Rightarrow> ucall kenv \<Rightarrow> (uworld, int) state" where
  "test_usb1_probe eps E = do {
     p \<leftarrow> kptr_call E Kzalloc_dev;
     modify (\<lambda>w. w\<lparr>devp := p\<rparr>);
     if p = Null then probe_err (- ENOMEM)
     else do {
       modify (\<lambda>w. w\<lparr>udev := zeroed\<rparr>);
       r \<leftarrow> endpoint_loop E eps;
       (case r of
          Some e \<Rightarrow> ret e
        | None \<Rightarrow> do {
            g \<leftarrow> kint E Usb_register_dev;
            if g \<noteq> 0 then probe_err g
            else do { modify (\<lambda>w. w\<lparr>intfdata := p\<rparr>); ret 0 } }) } }"

text \<open>
  \<^verbatim>\<open>kfree\<close> of a null pointer does nothing. \<^verbatim>\<open>mutex_lock\<close> returns once no file holds the mutex; the wait for it is modelled with the
  files that are open.
\<close>

definition test_usb1_disconnect :: "ucall kenv \<Rightarrow> (uworld, unit) state" where
  "test_usb1_disconnect E = do {
     p \<leftarrow> gets intfdata;
     modify (\<lambda>w. w\<lparr>intfdata := Null\<rparr>);
     kvoid Usb_deregister_dev;
     kvoid Mutex_lock;
     o' \<leftarrow> gets (out_buf \<circ> udev);
     kvoid (Kfree o');
     i \<leftarrow> gets (in_buf \<circ> udev);
     kvoid (Kfree i);
     kvoid Mutex_unlock;
     kvoid (Kfree p) }"

definition test_usb1_init :: "ucall kenv \<Rightarrow> (uworld, int) state" where
  "test_usb1_init E = kint E Usb_register"

definition test_usb1_exit :: "(uworld, unit) state" where
  "test_usb1_exit = kvoid Usb_deregister"

section \<open>The ledger\<close>

datatype ures = Mem kptr | Minor

definition u_acq :: "ucall kevent \<Rightarrow> ures option" where
  "u_acq ev = (case ev of
     RetP Kzalloc_dev p \<Rightarrow> if is_addr p then Some (Mem p) else None
   | RetP (Kmalloc _) p \<Rightarrow> if is_addr p then Some (Mem p) else None
   | RetI Usb_register_dev r \<Rightarrow> if r = 0 then Some Minor else None
   | _ \<Rightarrow> None)"

definition u_rel :: "ucall kevent \<Rightarrow> ures option" where
  "u_rel ev = (case ev of
     Void (Kfree p) \<Rightarrow> if p = Null then None else Some (Mem p)
   | Void Usb_deregister_dev \<Rightarrow> Some Minor
   | _ \<Rightarrow> None)"

declare u_acq_def [tables] u_rel_def [tables]

abbreviation u_ledger :: "ucall ktrace \<Rightarrow> ures ledger" where
  "u_ledger \<equiv> ledger_of u_acq u_rel"

definition buf_held :: "kptr \<Rightarrow> ures multiset" where
  "buf_held p = (if p = Null then {#} else {#Mem p#})"

definition usb_held :: "uworld \<Rightarrow> ures multiset" where
  "usb_held w = {#Minor#} + buf_held (intfdata w) + buf_held (in_buf (udev w)) + buf_held (out_buf (udev w))"

lemma disconnect_releases:
  assumes "owned (u_ledger (trace w)) = M + usb_held w"
  shows "u_ledger (trace (final_world (test_usb1_disconnect E) w)) = (u_ledger (trace w))\<lparr>owned := M\<rparr>"
proof -
  obtain B where "u_ledger (trace w) = \<lparr>owned = M + usb_held w, misused = B\<rparr>"
    using ledger_cases [OF assms] by blast
  then show ?thesis
    by (simp add: test_usb1_disconnect_def final_world_def krun ledger_of_append tables
        usb_held_def buf_held_def)
qed

text \<open>
  The endpoint loop: as long as the endpoint addresses are distinct, it holds a buffer for
  each side at most once, and on failure everything is given back.
\<close>

definition loop_state :: "kptr \<Rightarrow> ures multiset \<Rightarrow> ures multiset \<Rightarrow> uworld \<Rightarrow> bool" where
  "loop_state p M B w \<longleftrightarrow> p \<noteq> Null \<and> devp w = p \<and>
     u_ledger (trace w) = \<lparr>owned = M + {#Mem p#} + buf_held (in_buf (udev w)) + buf_held (out_buf (udev w)),
       misused = B\<rparr>"

lemma probe_err_clean:
  assumes "loop_state p M B w"
  shows "u_ledger (trace (snd (run_state (probe_err r) w))) = \<lparr>owned = M, misused = B\<rparr> \<and>
    fst (run_state (probe_err r) w) = r"
  using assms by (simp add: loop_state_def probe_err_def krun ledger_of_append tables buf_held_def)

text \<open>What a part of the probe guarantees: it goes on with the ledger in step, or has undone everything.\<close>

definition keeps :: "kptr \<Rightarrow> ures multiset \<Rightarrow> ures multiset \<Rightarrow> int option \<times> uworld \<Rightarrow> bool" where
  "keeps p M B x \<longleftrightarrow> (case fst x of
     None \<Rightarrow> loop_state p M B (snd x)
   | Some e \<Rightarrow> e \<noteq> 0 \<and> u_ledger (trace (snd x)) = \<lparr>owned = M, misused = B\<rparr>)"

lemma in_endpoint_keeps:
  assumes "no_err_ptr E" and "loop_state p M B w" and "addr = EP_IN \<longrightarrow> in_buf (udev w) = Null"
  shows "keeps p M B (run_state (in_endpoint E addr sz) w) \<and>
    (fst (run_state (in_endpoint E addr sz) w) = None \<longrightarrow>
      out_buf (udev (snd (run_state (in_endpoint E addr sz) w))) = out_buf (udev w) \<and>
      (addr \<noteq> EP_IN \<longrightarrow> in_buf (udev (snd (run_state (in_endpoint E addr sz) w))) = in_buf (udev w)))"
proof (cases "addr = EP_IN")
  case True
  let ?b = "ret_ptr E (trace w) (Kmalloc sz)"
  have e: "\<not> IS_ERR ?b" using assms(1) by (simp add: no_err_ptr_def)
  let ?v = "w\<lparr>trace := trace w @ [RetP (Kmalloc sz) ?b],
    udev := (udev w)\<lparr>in_ep := addr AND 0xF, in_buf_size := sz, in_buf := ?b, in_mem := replicate sz 0\<rparr>\<rparr>"
  have v: "loop_state p M B ?v"
    using assms(2,3) True e
    by (simp add: loop_state_def ledger_of_append tables buf_held_def)
  show ?thesis
  proof (cases "?b = Null")
    case b: True
    then show ?thesis
      using probe_err_clean [OF v, of "- ENOMEM"] True
      by (simp add: in_endpoint_def krun keeps_def case_prod_beta)
  next
    case False
    then show ?thesis
      using v True by (simp add: in_endpoint_def krun keeps_def loop_state_def)
  qed
next
  case False
  then show ?thesis using assms(2) by (simp add: in_endpoint_def keeps_def)
qed

lemma out_endpoint_keeps:
  assumes "no_err_ptr E" and "loop_state p M B w" and "addr = EP_OUT \<longrightarrow> out_buf (udev w) = Null"
  shows "keeps p M B (run_state (out_endpoint E addr sz) w) \<and>
    (fst (run_state (out_endpoint E addr sz) w) = None \<longrightarrow>
      in_buf (udev (snd (run_state (out_endpoint E addr sz) w))) = in_buf (udev w) \<and>
      (addr \<noteq> EP_OUT \<longrightarrow> out_buf (udev (snd (run_state (out_endpoint E addr sz) w))) = out_buf (udev w)))"
proof (cases "addr = EP_OUT")
  case True
  let ?b = "ret_ptr E (trace w) (Kmalloc sz)"
  have e: "\<not> IS_ERR ?b" using assms(1) by (simp add: no_err_ptr_def)
  let ?v = "w\<lparr>trace := trace w @ [RetP (Kmalloc sz) ?b],
    udev := (udev w)\<lparr>out_ep := addr AND 0xF, out_buf_size := sz, out_buf := ?b\<rparr>\<rparr>"
  have v: "loop_state p M B ?v"
    using assms(2,3) True e
    by (simp add: loop_state_def ledger_of_append tables buf_held_def)
  show ?thesis
  proof (cases "?b = Null")
    case b: True
    then show ?thesis
      using probe_err_clean [OF v, of "- ENOMEM"] True
      by (simp add: out_endpoint_def krun keeps_def case_prod_beta)
  next
    case False
    then show ?thesis
      using v True by (simp add: out_endpoint_def krun keeps_def loop_state_def)
  qed
next
  case False
  then show ?thesis using assms(2) by (simp add: out_endpoint_def keeps_def)
qed

lemma endpoint_loop_keeps:
  assumes "no_err_ptr E" and "loop_state p M B w" and "distinct (map fst eps)"
    and "EP_IN \<in> fst ` set eps \<longrightarrow> in_buf (udev w) = Null"
    and "EP_OUT \<in> fst ` set eps \<longrightarrow> out_buf (udev w) = Null"
  shows "keeps p M B (run_state (endpoint_loop E eps) w)"
  using assms(2-5)
proof (induction eps arbitrary: w)
  case Nil
  then show ?case by (simp add: keeps_def)
next
  case (Cons ep eps)
  obtain addr sz where ep: "ep = (addr, sz)" by fastforce
  obtain r w1 where r: "run_state (in_endpoint E addr sz) w = (r, w1)" by fastforce
  have i: "keeps p M B (r, w1)" "r = None \<Longrightarrow> out_buf (udev w1) = out_buf (udev w) \<and>
      (addr \<noteq> EP_IN \<longrightarrow> in_buf (udev w1) = in_buf (udev w))"
    using in_endpoint_keeps [OF assms(1) Cons.prems(1), of addr sz] Cons.prems(3) by (auto simp: ep r)
  show ?case
  proof (cases r)
    case (Some e)
    then show ?thesis using i(1) by (simp add: ep r)
  next
    case None
    then have l1: "loop_state p M B w1" using i(1) by (simp add: keeps_def)
    obtain q w2 where q: "run_state (out_endpoint E addr sz) w1 = (q, w2)" by fastforce
    have o: "keeps p M B (q, w2)" "q = None \<Longrightarrow> in_buf (udev w2) = in_buf (udev w1) \<and>
        (addr \<noteq> EP_OUT \<longrightarrow> out_buf (udev w2) = out_buf (udev w1))"
      using out_endpoint_keeps [OF assms(1) l1, of addr sz] Cons.prems(4) i(2) None by (auto simp: ep q)
    show ?thesis
    proof (cases q)
      case (Some e)
      then show ?thesis using o(1) None by (simp add: ep r q)
    next
      case n2: None
      have "keeps p M B (run_state (endpoint_loop E eps) w2)"
      proof (rule Cons.IH)
        show "loop_state p M B w2" using o(1) n2 by (simp add: keeps_def)
        show "distinct (map fst eps)" using Cons.prems(2) by simp
        show "EP_IN \<in> fst ` set eps \<longrightarrow> in_buf (udev w2) = Null"
          using Cons.prems(2,3) o(2) [OF n2] i(2) [OF None] by (auto simp: ep)
        show "EP_OUT \<in> fst ` set eps \<longrightarrow> out_buf (udev w2) = Null"
          using Cons.prems(2,4) o(2) [OF n2] i(2) [OF None] by (auto simp: ep)
      qed
      then show ?thesis using None n2 by (simp add: ep r q)
    qed
  qed
qed

lemma probe_ledger_allocated:
  assumes "no_err_ptr E" and "distinct (map fst eps)"
    and "ret_ptr E (trace w) Kzalloc_dev \<noteq> Null"
    and l: "u_ledger (trace w) = \<lparr>owned = M, misused = B\<rparr>"
    and run: "run_state (test_usb1_probe eps E) w = (r, w')"
  shows "u_ledger (trace w') = \<lparr>owned = (if r = 0 then M + usb_held w' else M), misused = B\<rparr>"
proof -
  let ?p = "ret_ptr E (trace w) Kzalloc_dev"
  let ?w1 = "w\<lparr>trace := trace w @ [RetP Kzalloc_dev ?p], devp := ?p, udev := zeroed\<rparr>"
  have e: "\<not> IS_ERR ?p" using assms(1) by (simp add: no_err_ptr_def)
  have l1: "loop_state ?p M B ?w1"
    using l e assms(3) by (simp add: loop_state_def ledger_of_append tables buf_held_def)
  obtain x w2 where x: "run_state (endpoint_loop E eps) ?w1 = (x, w2)" by fastforce
  have k: "keeps ?p M B (x, w2)"
    using endpoint_loop_keeps [OF assms(1) l1 assms(2)] by (simp add: x)
  show ?thesis
  proof (cases x)
    case (Some e)
    then show ?thesis using k run assms(3) by (auto simp: test_usb1_probe_def krun x keeps_def)
  next
    case None
    then have l2: "loop_state ?p M B w2" using k by (simp add: keeps_def)
    let ?g = "ret_int E (trace w2) Usb_register_dev"
    let ?w3 = "w2\<lparr>trace := trace w2 @ [RetI Usb_register_dev ?g]\<rparr>"
    show ?thesis
    proof (cases "?g = 0")
      case True
      show ?thesis
        using True None l2 run assms(3)
        by (auto simp: test_usb1_probe_def krun x loop_state_def ledger_of_append tables usb_held_def
            buf_held_def)
    next
      case False
      then have "loop_state ?p M B ?w3" using l2 by (simp add: loop_state_def ledger_of_append tables)
      then show ?thesis
        using False None run assms(3) probe_err_clean [of ?p M B ?w3 ?g]
        by (auto simp: test_usb1_probe_def krun x)
    qed
  qed
qed

text \<open>Without the structure nothing is acquired; the label then reads through the null pointer.\<close>

lemma probe_unallocated:
  assumes "ret_ptr E (trace w) Kzalloc_dev = Null"
  shows "run_state (test_usb1_probe eps E) w = (- ENOMEM, w\<lparr>trace := trace w @
    [RetP Kzalloc_dev Null, Oops ''probe_err: test_usb1_dev is NULL''], devp := Null\<rparr>)"
  using assms by (simp add: test_usb1_probe_def probe_err_def krun)

lemma probe_ledger:
  assumes "no_err_ptr E" and "distinct (map fst eps)"
    and l: "u_ledger (trace w) = \<lparr>owned = M, misused = B\<rparr>"
    and run: "run_state (test_usb1_probe eps E) w = (r, w')"
  shows "u_ledger (trace w') = \<lparr>owned = (if r = 0 then M + usb_held w' else M), misused = B\<rparr>"
proof (cases "ret_ptr E (trace w) Kzalloc_dev = Null")
  case True
  then show ?thesis using probe_unallocated [OF True, of eps] run l by (auto simp: ledger_of_append tables)
qed (use probe_ledger_allocated [OF assms(1,2) _ l run] in simp)

text \<open>Nothing else in the probe faults.\<close>

lemma probe_err_quiet:
  assumes "devp w \<noteq> Null"
  shows "never_faults (trace (final_world (probe_err r) w)) = never_faults (trace w)"
  using assms by (simp add: probe_err_def final_world_def krun)

lemma endpoint_quiet:
  assumes "devp w \<noteq> Null"
  shows "never_faults (trace (final_world (in_endpoint E addr sz) w)) = never_faults (trace w)"
    and "never_faults (trace (final_world (out_endpoint E addr sz) w)) = never_faults (trace w)"
    and "devp (final_world (in_endpoint E addr sz) w) = devp w" and "devp (final_world (out_endpoint E addr sz) w) = devp w"
  using assms by (simp_all add: in_endpoint_def out_endpoint_def probe_err_def final_world_def krun)

lemma endpoint_loop_quiet:
  assumes "devp w \<noteq> Null"
  shows "never_faults (trace (final_world (endpoint_loop E eps) w)) = never_faults (trace w) \<and>
    devp (final_world (endpoint_loop E eps) w) = devp w"
  using assms
proof (induction eps arbitrary: w)
  case (Cons ep eps)
  obtain addr sz where ep: "ep = (addr, sz)" by fastforce
  obtain r w1 where r: "run_state (in_endpoint E addr sz) w = (r, w1)" by fastforce
  obtain q w2 where q: "run_state (out_endpoint E addr sz) w1 = (q, w2)" by fastforce
  have i: "never_faults (trace w1) = never_faults (trace w)" "devp w1 = devp w"
    using endpoint_quiet(1,3) [OF Cons.prems, of E addr sz] by (simp_all add: final_world_def r)
  have o: "never_faults (trace w2) = never_faults (trace w1)" "devp w2 = devp w1"
    using endpoint_quiet(2,4) [of w1 E addr sz] Cons.prems i(2) by (simp_all add: final_world_def q)
  show ?case
    using Cons.IH [of w2] Cons.prems i o by (cases r; cases q) (simp_all add: ep final_world_def r q)
qed (simp add: final_world_def)

lemma probe_faults:
  "never_faults (trace (final_world (test_usb1_probe eps E) w)) \<longleftrightarrow>
   never_faults (trace w) \<and> ret_ptr E (trace w) Kzalloc_dev \<noteq> Null"
proof (cases "ret_ptr E (trace w) Kzalloc_dev = Null")
  case True
  then show ?thesis using probe_unallocated [OF True, of eps] by (simp add: final_world_def)
next
  case False
  let ?w1 = "w\<lparr>trace := trace w @ [RetP Kzalloc_dev (ret_ptr E (trace w) Kzalloc_dev)], devp := ret_ptr E (trace w) Kzalloc_dev,
    udev := zeroed\<rparr>"
  obtain x w2 where x: "run_state (endpoint_loop E eps) ?w1 = (x, w2)" by fastforce
  have k: "never_faults (trace w2) = never_faults (trace w)" "devp w2 \<noteq> Null"
    using endpoint_loop_quiet [of ?w1 E eps] False by (simp_all add: final_world_def x)
  let ?w3 = "w2\<lparr>trace := trace w2 @ [RetI Usb_register_dev (ret_int E (trace w2) Usb_register_dev)]\<rparr>"
  show ?thesis
    using k False probe_err_quiet [of ?w3]
    by (cases x) (simp_all add: test_usb1_probe_def final_world_def krun x)
qed

lemma probe_module:
  assumes "distinct (map fst eps)"
  shows "kernel_module (test_usb1_probe eps) test_usb1_disconnect u_acq u_rel usb_held no_err_ptr"
proof unfold_locales
  fix E and w w' :: uworld
  assume g: "no_err_ptr E" and run: "run_state (test_usb1_probe eps E) w = (0, w')"
  obtain M B where l: "u_ledger (trace w) = \<lparr>owned = M, misused = B\<rparr>"
    by (cases "u_ledger (trace w)") auto
  show "u_ledger (trace w') = (u_ledger (trace w))\<lparr>owned := owned (u_ledger (trace w)) + usb_held w'\<rparr>"
    using probe_ledger [OF g assms l run] by (simp add: l)
next
  fix E M and w :: uworld
  assume "owned (u_ledger (trace w)) = M + usb_held w"
  then show "u_ledger (trace (final_world (test_usb1_disconnect E) w)) = (u_ledger (trace w))\<lparr>owned := M\<rparr>"
    by (rule disconnect_releases)
qed

text \<open>The device of the repository: one bulk endpoint in each direction.\<close>

definition loopback_eps :: "endpoint list" where
  "loopback_eps = [(EP_IN, 512), (EP_OUT, 512)]"

interpretation usb1: kernel_module "test_usb1_probe loopback_eps" test_usb1_disconnect u_acq u_rel usb_held no_err_ptr
  by (rule probe_module) (simp add: loopback_eps_def EP_IN_def EP_OUT_def)

section \<open>Properties\<close>

text \<open>
  C20. Probing keeps its books: for any device whose endpoint addresses are distinct, and whichever allocation fails (an allocation
  that fails answers with a null pointer, never with an error pointer), a probe that fails has given back everything, and a probe
  that succeeds followed by a disconnect has too, with nothing freed twice. The probe faults exactly when the device structure
  itself cannot be allocated.
\<close>

theorem usb1_probe_balanced:
  assumes "distinct (map fst eps)" and "no_err_ptr E"
  shows "let w' = final_world (test_usb1_probe eps E) w in
    u_ledger (trace (if result (test_usb1_probe eps E) w = 0 then final_world (test_usb1_disconnect E) w' else w'))
      = u_ledger (trace w) \<and>
    (never_faults (trace w') \<longleftrightarrow> never_faults (trace w) \<and> ret_ptr E (trace w) Kzalloc_dev \<noteq> Null)"
proof -
  obtain r w' where r: "run_state (test_usb1_probe eps E) w = (r, w')" by fastforce
  obtain M B where l: "u_ledger (trace w) = \<lparr>owned = M, misused = B\<rparr>"
    by (cases "u_ledger (trace w)") auto
  show ?thesis
    using probe_ledger [OF assms(2,1) l r] probe_faults [of eps E w]
      kernel_module.load_unload_balanced [OF probe_module [OF assms(1)] assms(2), of w w'] r l
    by (cases "r = 0") (simp_all add: result_def final_world_def Let_def)
qed

definition uw0 :: uworld where
  "uw0 = \<lparr>trace = [], devp = Null, udev = zeroed, intfdata = Null\<rparr>"

definition no_out_env :: "ucall kenv" where
  "no_out_env = \<lparr>ret_int = (\<lambda>_ _. 0),
     ret_ptr = (\<lambda>tr c. if c = Kmalloc 512 \<and> 2 \<le> length tr then Null else Ptr (length tr))\<rparr>"

theorem usb1_probe_balanced_witness:
  "result (test_usb1_probe loopback_eps no_out_env) uw0 = - ENOMEM \<and>
   u_ledger (trace (final_world (test_usb1_probe loopback_eps no_out_env) uw0)) = u_ledger (trace uw0)"
proof -
  have r: "result (test_usb1_probe loopback_eps no_out_env) uw0 = - ENOMEM"
    by (simp add: test_usb1_probe_def loopback_eps_def in_endpoint_def out_endpoint_def probe_err_def
        result_def krun no_out_env_def uw0_def EP_IN_def EP_OUT_def)
  have "distinct (map fst loopback_eps)" by (simp add: loopback_eps_def EP_IN_def EP_OUT_def)
  moreover have "no_err_ptr no_out_env" by (simp add: no_err_ptr_def no_out_env_def)
  ultimately show ?thesis using usb1_probe_balanced [of loopback_eps no_out_env uw0] r by (simp add: Let_def)
qed

text \<open>
  If the device structure itself cannot be allocated, the error path reads its fields
  through the null pointer.
\<close>

theorem usb1_probe_null_fault:
  assumes "ret_ptr E (trace w) Kzalloc_dev = Null"
  shows "\<not> never_faults (trace (final_world (test_usb1_probe eps E) w))"
  using assms by (simp add: test_usb1_probe_def probe_err_def final_world_def krun)

theorem usb1_probe_null_fault_witness:
  "\<not> never_faults (trace (final_world
     (test_usb1_probe [] \<lparr>ret_int = \<lambda>_ _. 0, ret_ptr = \<lambda>_ _. Null\<rparr>) uw0))"
  using usb1_probe_null_fault [of "\<lparr>ret_int = \<lambda>_ _. 0, ret_ptr = \<lambda>_ _. Null\<rparr>" uw0 "[]"] by simp

text \<open>
  The device is opened by one user at a time: while it is open every further open is
  refused with \<^verbatim>\<open>-EBUSY\<close>, closing it makes it available again, a fresh open starts with an
  empty read buffer, and after the disconnect every open is refused with \<^verbatim>\<open>-ENODEV\<close>.
\<close>

theorem usb1_open_exclusive:
  assumes "\<forall>tr m. ret_ptr E tr (Usb_find_interface m) \<noteq> Null" and "intfdata w \<noteq> Null"
    and "\<not> dev_locked (udev w)"
  shows "let w1 = final_world (test_usb1_open E m) w in
    result (test_usb1_open E m) w = 0 \<and> pending (udev w1) = [] \<and>
    result (test_usb1_open E n) w1 = - EBUSY \<and>
    result (test_usb1_open E n) (final_world test_usb1_close w1) = 0 \<and>
    result (test_usb1_open E n) (final_world (test_usb1_disconnect E) (final_world test_usb1_close w1)) = - ENODEV"
  using assms
  by (simp add: test_usb1_open_def test_usb1_close_def test_usb1_disconnect_def result_def final_world_def
      krun Let_def pending_def)

theorem usb1_open_exclusive_witness:
  "result (test_usb1_open no_out_env 1) (final_world (test_usb1_open no_out_env 0) (uw0\<lparr>intfdata := Ptr 5\<rparr>))
     = - EBUSY"
  using usb1_open_exclusive [of no_out_env "uw0\<lparr>intfdata := Ptr 5\<rparr>" 0 1]
  by (simp add: no_out_env_def uw0_def zeroed_def Let_def)

end
