(* ===== verification/USB_Bulk_Life.thy ===== *)
theory USB_Bulk_Life
  imports USB_Bulk_Probe
begin

text \<open>
  Opens, uses, closes and the disconnect of the bulk driver \<^verbatim>\<open>USB/usbdrv4.c\<close>, interleaved statement by statement for any number
  of files. The disconnect frees the device structure and its buffers while files may be open; what keeps it apart from
  them is the mutex, which an open file holds until it is closed, and the rule of the USB core that \<^verbatim>\<open>open\<close> runs only while the
  minor is registered and that \<^verbatim>\<open>usb_deregister_dev\<close> waits for opens that are under way.
\<close>

section \<open>The machine\<close>

text \<open>
  A file: the core has called \<^verbatim>\<open>open\<close>; \<^verbatim>\<open>open\<close> has the device structure; it has the mutex. The disconnect: before each of its
  statements.
\<close>

datatype file_pc = Closed | Opening | Got_dev | Opened

datatype disc_pc = Connected | Unlinked | Deregistered | Holding | Bufs_freed | Unlocked | Gone

datatype holder = By_file nat | By_disconnect

record bulk_life =
  fpc :: "nat \<Rightarrow> file_pc"
  dpc :: disc_pc
  linked :: bool
  minor_live :: bool
  mutex_m :: "holder option"
  bufs_gone :: bool
  dev_gone :: bool
  used_freed :: bool

definition move :: "nat \<Rightarrow> file_pc \<Rightarrow> bulk_life \<Rightarrow> bulk_life" where
  "move i pc s = s\<lparr>fpc := (fpc s)(i := pc)\<rparr>"

text \<open>A statement works on the device structure.\<close>

definition touch_dev :: "bulk_life \<Rightarrow> bulk_life" where
  "touch_dev s = s\<lparr>used_freed := (used_freed s \<or> dev_gone s)\<rparr>"

text \<open>\<open>found\<close>: the answer of \<^verbatim>\<open>usb_find_interface\<close>. A file that is not opened stays closed, with an error.\<close>

definition open_step :: "bool \<Rightarrow> nat \<Rightarrow> bulk_life \<Rightarrow> bulk_life" where
  "open_step found i s =
     (case fpc s i of
        Closed \<Rightarrow> if minor_live s then move i Opening s else s
      | Opening \<Rightarrow> if \<not> found then move i Closed s
                  else if \<not> linked s then move i Closed s else move i Got_dev s
      | Got_dev \<Rightarrow> if mutex_m s \<noteq> None then move i Closed (touch_dev s)
                  else move i Opened ((touch_dev s)\<lparr>mutex_m := Some (By_file i)\<rparr>)
      | Opened \<Rightarrow> s)"

text \<open>A read or a write works on the device structure and on a buffer.\<close>

definition use_step :: "nat \<Rightarrow> bulk_life \<Rightarrow> bulk_life" where
  "use_step i s = (if fpc s i = Opened then s\<lparr>used_freed := (used_freed s \<or> dev_gone s \<or> bufs_gone s)\<rparr> else s)"

definition close_step :: "nat \<Rightarrow> bulk_life \<Rightarrow> bulk_life" where
  "close_step i s = (if fpc s i = Opened then move i Closed ((touch_dev s)\<lparr>mutex_m := None\<rparr>) else s)"

text \<open>The files are numbered below \<open>N\<close>.\<close>

definition opens_under_way :: "nat \<Rightarrow> bulk_life \<Rightarrow> bool" where
  "opens_under_way N s \<longleftrightarrow> list_ex (\<lambda>i. fpc s i \<in> {Opening, Got_dev}) [0..<N]"

definition disconnect_step :: "nat \<Rightarrow> bulk_life \<Rightarrow> bulk_life" where
  "disconnect_step N s =
     (case dpc s of
        Connected \<Rightarrow> s\<lparr>linked := False, dpc := Unlinked\<rparr>
      | Unlinked \<Rightarrow> if opens_under_way N s then s else s\<lparr>minor_live := False, dpc := Deregistered\<rparr>
      | Deregistered \<Rightarrow> if mutex_m s \<noteq> None then s else s\<lparr>mutex_m := Some By_disconnect, dpc := Holding\<rparr>
      | Holding \<Rightarrow> s\<lparr>bufs_gone := True, dpc := Bufs_freed\<rparr>
      | Bufs_freed \<Rightarrow> s\<lparr>mutex_m := None, dpc := Unlocked\<rparr>
      | Unlocked \<Rightarrow> s\<lparr>dev_gone := True, dpc := Gone\<rparr>
      | Gone \<Rightarrow> s)"

datatype life_event = Open bool nat | Use nat | Close nat | Disconnect

definition bulk_step :: "nat \<Rightarrow> life_event \<Rightarrow> bulk_life \<Rightarrow> bulk_life" where
  "bulk_step N e s =
     (case e of Open found i \<Rightarrow> open_step found i s | Use i \<Rightarrow> use_step i s | Close i \<Rightarrow> close_step i s
      | Disconnect \<Rightarrow> disconnect_step N s)"

definition bulk_run :: "nat \<Rightarrow> life_event list \<Rightarrow> bulk_life \<Rightarrow> bulk_life" where
  "bulk_run N es s = fold (bulk_step N) es s"

text \<open>The files an event belongs to are below \<open>N\<close>.\<close>

fun event_file :: "life_event \<Rightarrow> nat option" where
  "event_file (Open found i) = Some i"
| "event_file (Use i) = Some i"
| "event_file (Close i) = Some i"
| "event_file Disconnect = None"

definition by_files :: "nat \<Rightarrow> life_event list \<Rightarrow> bool" where
  "by_files N es \<longleftrightarrow> list_all (\<lambda>e. case event_file e of None \<Rightarrow> True | Some i \<Rightarrow> i < N) es"

text \<open>After a probe that succeeded.\<close>

definition bulk_start :: bulk_life where
  "bulk_start = \<lparr>fpc = (\<lambda>_. Closed), dpc = Connected, linked = True, minor_live = True, mutex_m = None, bufs_gone = False,
     dev_gone = False, used_freed = False\<rparr>"

text \<open>
  Run without interruption, the steps of an open are \<^const>\<open>test_usb1_open\<close>: it succeeds in the same states.
\<close>

lemma open_steps_agree:
  assumes "found \<longleftrightarrow> ret_ptr E (trace w) (Usb_find_interface minor) \<noteq> Null"
    and "s = bulk_start\<lparr>linked := (intfdata w \<noteq> Null), mutex_m := (if dev_locked (udev w) then Some (By_file 1) else None)\<rparr>"
  shows "fpc (bulk_run 2 (replicate 3 (Open found 0)) s) 0 = Opened \<longleftrightarrow> result (test_usb1_open E minor) w = 0"
  by (simp add: assms bulk_run_def bulk_step_def open_step_def move_def touch_dev_def bulk_start_def numeral_eq_Suc
      test_usb1_open_def result_def krun)

section \<open>The invariant\<close>

definition freed_phase :: "disc_pc \<Rightarrow> bool" where
  "freed_phase d \<longleftrightarrow> d \<in> {Bufs_freed, Unlocked, Gone}"

definition bulk_inv :: "nat \<Rightarrow> bulk_life \<Rightarrow> bool" where
  "bulk_inv N s \<longleftrightarrow>
     (\<forall>i. fpc s i \<noteq> Closed \<longrightarrow> i < N) \<and>
     (\<forall>i. mutex_m s = Some (By_file i) \<longleftrightarrow> fpc s i = Opened) \<and>
     (mutex_m s = Some By_disconnect \<longleftrightarrow> dpc s \<in> {Holding, Bufs_freed}) \<and>
     (minor_live s \<longleftrightarrow> dpc s \<in> {Connected, Unlinked}) \<and> (linked s \<longleftrightarrow> dpc s = Connected) \<and>
     (\<not> minor_live s \<longrightarrow> (\<forall>i. fpc s i \<in> {Closed, Opened})) \<and>
     (dpc s \<in> {Unlocked, Gone} \<longrightarrow> (\<forall>i. fpc s i = Closed)) \<and>
     (bufs_gone s \<longleftrightarrow> freed_phase (dpc s)) \<and> (dev_gone s \<longleftrightarrow> dpc s = Gone) \<and> \<not> used_freed s"

lemmas bulk_inv_defs = bulk_inv_def freed_phase_def move_def touch_dev_def

lemma bulk_open_inv:
  assumes "bulk_inv N s" and "i < N"
  shows "bulk_inv N (open_step found i s)"
proof (cases "fpc s i")
  case Closed
  then show ?thesis using assms by (cases "minor_live s") (auto simp: bulk_inv_defs open_step_def)
next
  case Opening
  then show ?thesis using assms by (auto simp: bulk_inv_defs open_step_def)
next
  case Got_dev
  then show ?thesis using assms by (cases "dpc s") (auto simp: bulk_inv_defs open_step_def)
qed (use assms in \<open>simp add: open_step_def\<close>)

lemma bulk_use_inv: "bulk_inv N s \<Longrightarrow> bulk_inv N (use_step i s)"
  by (cases "dpc s") (auto simp: bulk_inv_defs use_step_def)

lemma opened_holds: "bulk_inv N s \<Longrightarrow> fpc s i = Opened \<Longrightarrow> mutex_m s = Some (By_file i)"
  by (simp add: bulk_inv_def)

lemma opened_alone:
  assumes "bulk_inv N s" and "fpc s i = Opened"
  shows "fpc s j = Opened \<longleftrightarrow> j = i" and "dpc s \<in> {Connected, Unlinked, Deregistered}"
proof -
  note m = opened_holds [OF assms]
  show "fpc s j = Opened \<longleftrightarrow> j = i" using m opened_holds [OF assms(1), of j] assms(2) by auto
  have "dpc s \<notin> {Holding, Bufs_freed}" using assms(1) m unfolding bulk_inv_def by simp
  moreover have "dpc s \<notin> {Unlocked, Gone}" using assms unfolding bulk_inv_def by force
  ultimately show "dpc s \<in> {Connected, Unlinked, Deregistered}" by (cases "dpc s") simp_all
qed

lemma bulk_close_inv:
  assumes "bulk_inv N s"
  shows "bulk_inv N (close_step i s)"
proof (cases "fpc s i = Opened")
  case True
  note o = opened_alone [OF assms True]
  have f: "fpc s j \<noteq> Closed \<Longrightarrow> j < N" "\<not> minor_live s \<Longrightarrow> fpc s j \<in> {Closed, Opened}" for j
    using assms unfolding bulk_inv_def by blast+
  have r: "minor_live s \<longleftrightarrow> dpc s \<in> {Connected, Unlinked}" "linked s \<longleftrightarrow> dpc s = Connected" "bufs_gone s \<longleftrightarrow> freed_phase (dpc s)"
    "dev_gone s \<longleftrightarrow> dpc s = Gone" "\<not> used_freed s"
    using assms unfolding bulk_inv_def by blast+
  show ?thesis
    using o(2) f r True by (auto simp: bulk_inv_defs close_step_def o(1))
qed (use assms in \<open>simp add: close_step_def\<close>)

lemma opens_under_wayD:
  assumes "bulk_inv N s" and "\<not> opens_under_way N s"
  shows "fpc s i \<in> {Closed, Opened}"
proof (rule ccontr)
  assume "fpc s i \<notin> {Closed, Opened}"
  then have p: "fpc s i \<in> {Opening, Got_dev}" "fpc s i \<noteq> Closed" by (cases "fpc s i"; simp)+
  have "i < N" using assms(1) p(2) unfolding bulk_inv_def by blast
  then have "opens_under_way N s" using p(1) unfolding opens_under_way_def list_ex_iff by fastforce
  then show False using assms(2) by simp
qed

lemma bulk_disconnect_inv: "bulk_inv N s \<Longrightarrow> bulk_inv N (disconnect_step N s)"
  using opens_under_wayD [of N s]
  by (cases "dpc s") (auto simp: bulk_inv_defs disconnect_step_def)

lemma bulk_run_inv:
  assumes "bulk_inv N s" and "by_files N es"
  shows "bulk_inv N (bulk_run N es s)"
  using assms
proof (induction es arbitrary: s)
  case (Cons e es)
  have "bulk_inv N (bulk_step N e s)"
    using Cons.prems bulk_open_inv bulk_use_inv bulk_close_inv bulk_disconnect_inv by (cases e) (auto simp: bulk_step_def by_files_def)
  then show ?case using Cons by (simp add: bulk_run_def by_files_def)
qed (simp add: bulk_run_def)

lemma bulk_start_inv: "bulk_inv N bulk_start"
  by (simp add: bulk_inv_def freed_phase_def bulk_start_def)

section \<open>The end of a disconnect\<close>

fun disc_left :: "disc_pc \<Rightarrow> nat" where
  "disc_left Connected = 6"
| "disc_left Unlinked = 5"
| "disc_left Deregistered = 4"
| "disc_left Holding = 3"
| "disc_left Bufs_freed = 2"
| "disc_left Unlocked = 1"
| "disc_left Gone = 0"

lemma disconnect_progress:
  assumes "bulk_inv N s" and "\<forall>i. fpc s i = Closed"
  shows "disc_left (dpc (disconnect_step N s)) = disc_left (dpc s) - 1 \<and> fpc (disconnect_step N s) = fpc s"
proof -
  have "mutex_m s = None \<or> mutex_m s = Some By_disconnect"
  proof (cases "mutex_m s")
    case (Some h)
    then show ?thesis using assms by (cases h) (auto simp: bulk_inv_def)
  qed simp
  then show ?thesis
    using assms by (cases "dpc s") (auto simp: disconnect_step_def opens_under_way_def list_ex_iff bulk_inv_def)
qed

lemma disconnect_ends:
  assumes "bulk_inv N s" and "\<forall>i. fpc s i = Closed" and "disc_left (dpc s) \<le> n"
  shows "dpc (bulk_run N (replicate n Disconnect) s) = Gone"
  using assms
proof (induction n arbitrary: s)
  case 0
  then show ?case by (cases "dpc s") (simp_all add: bulk_run_def)
next
  case (Suc n)
  then show ?case
    using disconnect_progress [OF Suc.prems(1,2)] bulk_disconnect_inv [OF Suc.prems(1)]
    by (simp add: bulk_run_def bulk_step_def)
qed

text \<open>As long as a file is open the disconnect does not get past the mutex.\<close>

lemma usb1_disconnect_waits:
  assumes "by_files N es" and "fpc (bulk_run N es bulk_start) i = Opened"
  shows "dpc (bulk_run N es bulk_start) \<in> {Connected, Unlinked, Deregistered}"
proof -
  have "bulk_inv N (bulk_run N es bulk_start)" using bulk_start_inv assms(1) by (rule bulk_run_inv)
  then show ?thesis using assms(2) by (rule opened_alone(2))
qed

section \<open>Properties\<close>

text \<open>
  C8. The disconnect of the bulk driver and its files: in every interleaving of any number of files that are opened, used and closed
  with the disconnect, no statement of the driver works on memory that has been freed; at most one file is open; and once all files
  are closed, six statements finish the disconnect.
\<close>

theorem usb1_life_safe:
  assumes "by_files N es"
  shows "let s = bulk_run N es bulk_start in
    \<not> used_freed s \<and> (\<forall>i j. fpc s i = Opened \<longrightarrow> fpc s j = Opened \<longrightarrow> i = j) \<and>
    ((\<forall>i. fpc s i = Closed) \<longrightarrow> dpc (bulk_run N (es @ replicate 6 Disconnect) bulk_start) = Gone)"
proof -
  let ?s = "bulk_run N es bulk_start"
  have i: "bulk_inv N ?s" using bulk_start_inv assms by (rule bulk_run_inv)
  have "fpc ?s i = Opened \<Longrightarrow> fpc ?s j = Opened \<Longrightarrow> i = j" for i j
    using opened_holds [OF i, of i] opened_holds [OF i, of j] by simp
  moreover have "dpc (bulk_run N (es @ replicate 6 Disconnect) bulk_start) = Gone" if "\<forall>i. fpc ?s i = Closed"
  proof -
    have "disc_left (dpc ?s) \<le> 6" by (cases "dpc ?s") simp_all
    then show ?thesis using disconnect_ends [OF i that] by (simp add: bulk_run_def)
  qed
  ultimately show ?thesis using i by (auto simp: Let_def bulk_inv_def)
qed

theorem usb1_life_safe_witness:
  "let s = bulk_run 2 [Open True 0, Open True 1, Open True 0, Disconnect, Open True 0, Disconnect, Open True 1, Disconnect, Use 0,
      Disconnect, Close 0, Disconnect, Disconnect, Disconnect, Disconnect] bulk_start
   in \<not> used_freed s \<and> dpc s = Gone"
proof -
  let ?es = "[Open True 0, Open True 1, Open True 0, Disconnect, Open True 0, Disconnect, Open True 1, Disconnect, Use 0,
      Disconnect, Close 0, Disconnect, Disconnect, Disconnect, Disconnect]"
  have "by_files 2 ?es" "dpc (bulk_run 2 ?es bulk_start) = Gone" by code_simp+
  then show ?thesis using usb1_life_safe [of 2 ?es] by (simp add: Let_def)
qed

text \<open>
  Without the rule of the core the driver would not be safe: an open that has found the device before the disconnect took it away would
  lock a mutex in freed memory. The comment in the driver claims that the mutex prevents this.
\<close>

lemma usb1_life_needs_core:
  "used_freed (bulk_run 0 [Open True 0, Open True 0, Disconnect, Disconnect, Disconnect, Disconnect, Disconnect, Disconnect,
     Open True 0] bulk_start)"
  by code_simp

end
