(* ===== verification/USB_Skel.thy ===== *)
theory USB_Skel
  imports Kernel_Prelude
begin

text \<open>
  Input and output of the USB skeleton driver \<^verbatim>\<open>USB/usbdrv3.c\<close>: the write path with its limited
  number of transfers in flight, the completion callbacks, the blocking read with its
  retry loop, and the flush. Its life cycle is in \<^verbatim>\<open>USB_Skel_Life\<close>.
\<close>

section \<open>State\<close>

definition MAX_TRANSFER :: nat where "MAX_TRANSFER = 4096 - 512"
definition WRITES_IN_FLIGHT :: nat where "WRITES_IN_FLIGHT = 8"

record usb_skel =
  bulk_in_size :: nat
  bulk_in_filled :: nat
  bulk_in_copied :: nat
  bulk_in_buffer :: "byte list"
  errors :: int
  ongoing_read :: bool
  disconnected :: bool

datatype scall =
    Down_interruptible
  | Down_trylock
  | Up
  | Spin_lock_irq
  | Spin_unlock_irq
  | Mutex_lock
  | Mutex_unlock
  | Usb_alloc_urb
  | Usb_free_urb kptr
  | Usb_alloc_coherent nat
  | Usb_free_coherent nat kptr
  | Copy_from_user nat
  | Usb_anchor_urb kptr
  | Usb_unanchor_urb kptr
  | Usb_submit_urb kptr nat
  | Core_unanchor kptr
  | Usb_wait_anchor_empty_timeout
  | Usb_kill_anchored_urbs
  | Usb_kill_urb
  | Wake_up_interruptible

record sworld = "scall kworld" +
  skel :: usb_skel

definition set_errors :: "int \<Rightarrow> (sworld, unit) state" where
  "set_errors e = modify (\<lambda>w. w\<lparr>skel := (skel w)\<lparr>errors := e\<rparr>\<rparr>)"

text \<open>How an error is reported: a stall is kept, everything else becomes an I/O error.\<close>

definition reported :: "int \<Rightarrow> int" where
  "reported e = (if e = - EPIPE then e else - EIO)"

section \<open>Writing\<close>

text \<open>The label \<^verbatim>\<open>error\<close>.\<close>

definition write_error :: "nat \<Rightarrow> kptr \<Rightarrow> kptr \<Rightarrow> int \<Rightarrow> (sworld, int) state" where
  "write_error writesize urb buf retval = do {
     (if urb \<noteq> Null then do { kvoid (Usb_free_coherent writesize buf); kvoid (Usb_free_urb urb) } else ret ());
     kvoid Up;
     ret retval }"

text \<open>From the allocation of the buffer on.\<close>

definition write_submit :: "scall kenv \<Rightarrow> nat \<Rightarrow> kptr \<Rightarrow> (sworld, int) state" where
  "write_submit E writesize urb = do {
     buf \<leftarrow> kptr_call E (Usb_alloc_coherent writesize);
     if buf = Null then write_error writesize urb Null (- ENOMEM)
     else do {
       c \<leftarrow> kint E (Copy_from_user writesize);
       if c \<noteq> 0 then write_error writesize urb buf (- EFAULT)
       else do {
         kvoid Mutex_lock;
         gone \<leftarrow> gets (disconnected \<circ> skel);
         if gone then do { kvoid Mutex_unlock; write_error writesize urb buf (- ENODEV) }
         else do {
           kvoid (Usb_anchor_urb urb);
           r \<leftarrow> kint E (Usb_submit_urb urb writesize);
           kvoid Mutex_unlock;
           if r \<noteq> 0 then do { kvoid (Usb_unanchor_urb urb); write_error writesize urb buf r }
           else do { kvoid (Usb_free_urb urb); ret (int writesize) } } } } }"

definition skel_write :: "scall kenv \<Rightarrow> bool \<Rightarrow> nat \<Rightarrow> (sworld, int) state" where
  "skel_write E nonblock cnt =
     (let writesize = min cnt MAX_TRANSFER in
      if cnt = 0 then ret 0
      else do {
        d \<leftarrow> (if \<not> nonblock then kint E Down_interruptible else kint E Down_trylock);
        if d \<noteq> 0 then ret (if \<not> nonblock then - ERESTARTSYS else - EAGAIN)
        else do {
          kvoid Spin_lock_irq;
          e \<leftarrow> gets (errors \<circ> skel);
          (if e < 0 then set_errors 0 else ret ());
          kvoid Spin_unlock_irq;
          if e < 0 then write_error writesize Null Null (reported e)
          else do {
            urb \<leftarrow> kptr_call E Usb_alloc_urb;
            if urb = Null then write_error writesize Null Null (- ENOMEM)
            else write_submit E writesize urb } } })"

definition skel_write_bulk_callback :: "int \<Rightarrow> nat \<Rightarrow> kptr \<Rightarrow> (sworld, unit) state" where
  "skel_write_bulk_callback status len buf = do {
     (if status \<noteq> 0 then do { kvoid Spin_lock_irq; set_errors status; kvoid Spin_unlock_irq } else ret ());
     kvoid (Usb_free_coherent len buf);
     kvoid Up }"

text \<open>The USB core removes a finished transfer from its anchor and calls the driver.\<close>

definition giveback :: "kptr \<Rightarrow> int \<Rightarrow> nat \<Rightarrow> kptr \<Rightarrow> (sworld, unit) state" where
  "giveback urb status len buf = do { kvoid (Core_unanchor urb); skel_write_bulk_callback status len buf }"

section \<open>Flush\<close>

definition skel_draw_down :: "scall kenv \<Rightarrow> (sworld, unit) state" where
  "skel_draw_down E = do {
     t \<leftarrow> kint E Usb_wait_anchor_empty_timeout;
     (if t = 0 then kvoid Usb_kill_anchored_urbs else ret ());
     kvoid Usb_kill_urb }"

definition skel_flush :: "scall kenv \<Rightarrow> bool \<Rightarrow> (sworld, int) state" where
  "skel_flush E has_dev =
     (if \<not> has_dev then ret (- ENODEV)
      else do {
        kvoid Mutex_lock;
        skel_draw_down E;
        kvoid Spin_lock_irq;
        e \<leftarrow> gets (errors \<circ> skel);
        set_errors 0;
        kvoid Spin_unlock_irq;
        kvoid Mutex_unlock;
        ret (if e \<noteq> 0 then reported e else 0) })"

section \<open>What a transfer holds\<close>

datatype sres = Permit | Urb kptr | Coherent kptr | Anchored kptr

definition s_acq :: "scall kevent \<Rightarrow> sres option" where
  "s_acq ev = (case ev of
     RetI Down_interruptible r \<Rightarrow> if r = 0 then Some Permit else None
   | RetI Down_trylock r \<Rightarrow> if r = 0 then Some Permit else None
   | RetP Usb_alloc_urb p \<Rightarrow> if is_addr p then Some (Urb p) else None
   | RetP (Usb_alloc_coherent _) p \<Rightarrow> if is_addr p then Some (Coherent p) else None
   | Void (Usb_anchor_urb p) \<Rightarrow> Some (Anchored p)
   | _ \<Rightarrow> None)"

text \<open>\<^verbatim>\<open>usb_free_coherent\<close> of a null buffer does nothing.\<close>

definition s_rel :: "scall kevent \<Rightarrow> sres option" where
  "s_rel ev = (case ev of
     Void Up \<Rightarrow> Some Permit
   | Void (Usb_free_urb p) \<Rightarrow> Some (Urb p)
   | Void (Usb_free_coherent _ p) \<Rightarrow> if p = Null then None else Some (Coherent p)
   | Void (Usb_unanchor_urb p) \<Rightarrow> Some (Anchored p)
   | Void (Core_unanchor p) \<Rightarrow> Some (Anchored p)
   | _ \<Rightarrow> None)"

declare s_acq_def [tables] s_rel_def [tables]

abbreviation s_ledger :: "scall ktrace \<Rightarrow> sres ledger" where
  "s_ledger \<equiv> ledger_of s_acq s_rel"

text \<open>A transfer in flight.\<close>

definition flight :: "kptr \<Rightarrow> kptr \<Rightarrow> sres multiset" where
  "flight urb buf = {#Permit, Coherent buf, Anchored urb#}"

lemma write_submit_ledger:
  assumes e: "no_err_ptr E" and neg: "\<forall>tr u n. ret_int E tr (Usb_submit_urb u n) \<le> 0" and u: "urb \<noteq> Null"
    and l: "s_ledger (trace w) = \<lparr>owned = M + {#Permit, Urb urb#}, misused = B\<rparr>"
  shows "case run_state (write_submit E ws urb) w of (r, w') \<Rightarrow>
    (\<exists>buf. r = int ws \<and> buf \<noteq> Null \<and> s_ledger (trace w') = \<lparr>owned = M + flight urb buf, misused = B\<rparr>)
    \<or> r < 0 \<and> s_ledger (trace w') = \<lparr>owned = M, misused = B\<rparr>"
proof -
  have ne: "\<not> IS_ERR (ret_ptr E tr c)" for tr c using e by (simp add: no_err_ptr_def)
  have sub: "ret_int E tr (Usb_submit_urb v n) < 0 \<longleftrightarrow> ret_int E tr (Usb_submit_urb v n) \<noteq> 0" for tr v n
    using neg by (simp add: less_le)
  let ?b = "ret_ptr E (trace w) (Usb_alloc_coherent ws)"
  show ?thesis
  proof (cases "?b = Null")
    case True
    then show ?thesis
      using l u by (simp add: write_submit_def write_error_def krun ledger_of_append tables)
  next
    case False
    then show ?thesis
      using l u by (auto simp: write_submit_def write_error_def krun ledger_of_append tables ne flight_def sub)
  qed
qed

text \<open>A write either leaves a transfer in flight and reports its length, or leaves nothing behind.\<close>

lemma skel_write_ledger:
  assumes e: "no_err_ptr E" and neg: "\<forall>tr u n. ret_int E tr (Usb_submit_urb u n) \<le> 0" and l: "s_ledger (trace w) = \<lparr>owned = M, misused = B\<rparr>"
  shows "case run_state (skel_write E nonblock cnt) w of (r, w') \<Rightarrow>
    (\<exists>urb buf. r = int (min cnt MAX_TRANSFER) \<and> buf \<noteq> Null \<and>
       s_ledger (trace w') = \<lparr>owned = M + flight urb buf, misused = B\<rparr>)
    \<or> (cnt = 0 \<and> r = 0 \<or> r < 0) \<and> s_ledger (trace w') = \<lparr>owned = M, misused = B\<rparr>"
proof -
  have ne: "\<not> IS_ERR (ret_ptr E tr c)" for tr c using e by (simp add: no_err_ptr_def)
  let ?D = "if nonblock then Down_trylock else Down_interruptible"
  let ?d = "ret_int E (trace w) ?D"
  let ?ws = "min cnt MAX_TRANSFER"
  have down: "(if \<not> nonblock then kint E Down_interruptible else kint E Down_trylock) = kint E ?D" by simp
  show ?thesis
  proof (cases "cnt = 0 \<or> ?d \<noteq> 0")
    case True
    then show ?thesis
      using l by (auto simp: skel_write_def Let_def krun down ledger_of_append tables split: if_splits)
  next
    case False
    then have d: "cnt \<noteq> 0" "?d = 0" by auto
    let ?t = "trace w @ [RetI ?D 0, Void Spin_lock_irq, Void Spin_unlock_irq]"
    have l1: "s_ledger ?t = \<lparr>owned = add_mset Permit M, misused = B\<rparr>"
      using l by (simp add: ledger_of_append tables)
    show ?thesis
    proof (cases "errors (skel w) < 0")
      case True
      then have "reported (errors (skel w)) < 0" by (simp add: reported_def)
      then show ?thesis
        using True d l l1
        by (simp add: skel_write_def Let_def krun down set_errors_def write_error_def ledger_of_append tables)
    next
      case ok: False
      let ?u = "ret_ptr E ?t Usb_alloc_urb"
      show ?thesis
      proof (cases "?u = Null")
        case True
        then show ?thesis
          using ok d l by (simp add: skel_write_def Let_def krun down write_error_def ledger_of_append tables)
      next
        case u: False
        let ?w1 = "w\<lparr>trace := ?t @ [RetP Usb_alloc_urb ?u]\<rparr>"
        have "s_ledger (trace ?w1) = \<lparr>owned = M + {#Permit, Urb ?u#}, misused = B\<rparr>"
          using l u ne by (simp add: ledger_of_append tables)
        note sub = write_submit_ledger [OF e neg u this, of ?ws]
        obtain r w' where rw: "run_state (write_submit E ?ws ?u) ?w1 = (r, w')" by fastforce
        have run: "run_state (skel_write E nonblock cnt) w = (r, w')"
          using ok d u rw by (simp add: skel_write_def Let_def krun down)
        show ?thesis using sub unfolding rw run prod.case by blast
      qed
    qed
  qed
qed

lemma giveback_ledger:
  assumes "s_ledger (trace w) = \<lparr>owned = M + flight urb buf, misused = B\<rparr>" and "buf \<noteq> Null"
  shows "s_ledger (trace (final_world (giveback urb status len buf) w)) = \<lparr>owned = M, misused = B\<rparr>"
  using assms by (simp add: giveback_def skel_write_bulk_callback_def set_errors_def final_world_def krun
      ledger_of_append tables flight_def)

text \<open>
  C9. The write path keeps its books: a call that fails, for whatever reason, has given back
  the semaphore, the request block and the buffer; a call that succeeds leaves exactly one
  transfer in flight, which holds one permit of the semaphore and its buffer, and the
  completion of that transfer, with any status, gives both back.
\<close>

theorem skel_write_balanced:
  assumes "no_err_ptr E" and "0 < cnt" and "\<forall>tr u n. ret_int E tr (Usb_submit_urb u n) \<le> 0"
  shows "let r = result (skel_write E nonblock cnt) w; w' = final_world (skel_write E nonblock cnt) w in
    (r \<le> 0 \<longrightarrow> s_ledger (trace w') = s_ledger (trace w)) \<and>
    (0 < r \<longrightarrow> r = int (min cnt MAX_TRANSFER) \<and> (\<exists>urb buf.
       s_ledger (trace w') = (s_ledger (trace w))\<lparr>owned := owned (s_ledger (trace w)) + flight urb buf\<rparr> \<and>
       (\<forall>status len. s_ledger (trace (final_world (giveback urb status len buf) w')) = s_ledger (trace w))))"
proof -
  obtain M B where l: "s_ledger (trace w) = \<lparr>owned = M, misused = B\<rparr>" by (cases "s_ledger (trace w)") auto
  obtain r w' where run: "run_state (skel_write E nonblock cnt) w = (r, w')" by fastforce
  have pos: "0 < min cnt MAX_TRANSFER" using assms(2) by (simp add: MAX_TRANSFER_def)
  from skel_write_ledger [OF assms(1,3) l, where nonblock = nonblock and cnt = cnt]
  consider urb buf where "r = int (min cnt MAX_TRANSFER)" "buf \<noteq> Null"
      "s_ledger (trace w') = \<lparr>owned = M + flight urb buf, misused = B\<rparr>"
    | "r < 0" "s_ledger (trace w') = \<lparr>owned = M, misused = B\<rparr>"
    unfolding run prod.case using assms(2) by blast
  then show ?thesis
  proof cases
    case 1
    then show ?thesis
      using pos giveback_ledger [OF 1(3,2)] by (auto simp: result_def final_world_def run l Let_def)
  next
    case 2
    then show ?thesis by (simp add: result_def final_world_def run l Let_def)
  qed
qed

definition skel0 :: usb_skel where
  "skel0 = \<lparr>bulk_in_size = 512, bulk_in_filled = 0, bulk_in_copied = 0, bulk_in_buffer = replicate 512 0,
     errors = 0, ongoing_read = False, disconnected = False\<rparr>"

definition sw0 :: sworld where
  "sw0 = \<lparr>trace = [], skel = skel0\<rparr>"

definition skel_env :: "scall kenv" where
  "skel_env = \<lparr>ret_int = (\<lambda>tr c. case c of Usb_submit_urb _ _ \<Rightarrow> - EIO | _ \<Rightarrow> 0), ret_ptr = (\<lambda>tr c. Ptr (length tr))\<rparr>"

theorem skel_write_balanced_witness:
  "result (skel_write skel_env False 10) sw0 = - EIO \<and>
   s_ledger (trace (final_world (skel_write skel_env False 10) sw0)) = s_ledger (trace sw0)"
proof -
  have "no_err_ptr skel_env" "\<forall>tr u n. ret_int skel_env tr (Usb_submit_urb u n) \<le> 0"
    by (simp_all add: no_err_ptr_def skel_env_def)
  moreover have "result (skel_write skel_env False 10) sw0 = - EIO"
    by (simp add: skel_write_def write_submit_def write_error_def result_def krun skel_env_def sw0_def skel0_def Let_def)
  ultimately show ?thesis using skel_write_balanced [of skel_env 10 False sw0] by (simp add: Let_def)
qed

section \<open>Reading\<close>

text \<open>The completion of the read transfer: its status and the bytes received.\<close>

definition skel_read_bulk_callback :: "int \<Rightarrow> byte list \<Rightarrow> usb_skel \<Rightarrow> usb_skel" where
  "skel_read_bulk_callback status data d =
     (let d1 = d\<lparr>bulk_in_buffer := data @ drop (length data) (bulk_in_buffer d)\<rparr>;
          d2 = (if status \<noteq> 0 then d1\<lparr>errors := status\<rparr> else d1\<lparr>bulk_in_filled := length data\<rparr>)
      in d2\<lparr>ongoing_read := False\<rparr>)"

text \<open>\<open>rv\<close> is the answer of \<^verbatim>\<open>usb_submit_urb\<close>.\<close>

definition skel_do_read_io :: "int \<Rightarrow> usb_skel \<Rightarrow> int \<times> usb_skel" where
  "skel_do_read_io rv d =
     (let d1 = d\<lparr>ongoing_read := True, bulk_in_filled := 0, bulk_in_copied := 0\<rparr>
      in if rv < 0 then (if rv = - ENOMEM then rv else - EIO, d1\<lparr>ongoing_read := False\<rparr>) else (rv, d1))"

text \<open>
  The answers one pass from the label \<^verbatim>\<open>retry\<close> on may need: of the wait, the completion that
  ended it, of the submission and of the copy to the user.
\<close>

record read_answer =
  wait_rv :: int
  done_status :: int
  done_data :: "byte list"
  submit_rv :: int
  copy_rv :: int

text \<open>
  One pass: \<open>Inl\<close> with the result, the bytes that reached the user and the device when the call
  leaves the loop, \<open>Inr\<close> with the device when it goes back to \<^verbatim>\<open>retry\<close>.
\<close>

definition start_io :: "int \<Rightarrow> usb_skel \<Rightarrow> (int \<times> byte list \<times> usb_skel) + usb_skel" where
  "start_io submit d = (case skel_do_read_io submit d of (rv, d') \<Rightarrow> if rv < 0 then Inl (rv, [], d') else Inr d')"

definition read_pass :: "bool \<Rightarrow> nat \<Rightarrow> read_answer \<Rightarrow> usb_skel \<Rightarrow> (int \<times> byte list \<times> usb_skel) + usb_skel" where
  "read_pass nonblock cnt a d =
     (if ongoing_read d \<and> nonblock then Inl (- EAGAIN, [], d)
      else if ongoing_read d \<and> wait_rv a < 0 then Inl (wait_rv a, [], d)
      else (let d1 = (if ongoing_read d then skel_read_bulk_callback (done_status a) (done_data a) d else d) in
        if errors d1 < 0 then Inl (reported (errors d1), [], d1\<lparr>errors := 0\<rparr>)
        else if bulk_in_filled d1 \<noteq> 0 then
          (let available = bulk_in_filled d1 - bulk_in_copied d1; chunk = min available cnt in
           if available = 0 then start_io (submit_rv a) d1
           else (let sent = (if copy_rv a \<noteq> 0 then [] else take chunk (drop (bulk_in_copied d1) (bulk_in_buffer d1)));
                     rv = (if copy_rv a \<noteq> 0 then - EFAULT else int chunk);
                     d2 = d1\<lparr>bulk_in_copied := bulk_in_copied d1 + chunk\<rparr>;
                     d3 = (if available < cnt then snd (skel_do_read_io (submit_rv a) d2) else d2)
                 in Inl (rv, sent, d3)))
        else start_io (submit_rv a) d1))"

text \<open>The loop over \<^verbatim>\<open>retry\<close>: \<open>None\<close> when it is still running after the given passes.\<close>

fun read_retry :: "bool \<Rightarrow> nat \<Rightarrow> read_answer list \<Rightarrow> usb_skel \<Rightarrow> (int \<times> byte list \<times> usb_skel) option" where
  "read_retry nonblock cnt [] d = None"
| "read_retry nonblock cnt (a # as) d =
     (case read_pass nonblock cnt a d of Inl x \<Rightarrow> Some x | Inr d' \<Rightarrow> read_retry nonblock cnt as d')"

text \<open>\<open>lock_rv\<close> is the answer of \<^verbatim>\<open>mutex_lock_interruptible\<close>.\<close>

definition skel_read ::
  "int \<Rightarrow> bool \<Rightarrow> nat \<Rightarrow> read_answer list \<Rightarrow> usb_skel \<Rightarrow> (int \<times> byte list \<times> usb_skel) option" where
  "skel_read lock_rv nonblock cnt as d =
     (if cnt = 0 then Some (0, [], d)
      else if lock_rv < 0 then Some (lock_rv, [], d)
      else if disconnected d then Some (- ENODEV, [], d)
      else read_retry nonblock cnt as d)"

section \<open>The stream of bytes read\<close>

definition skel_wf :: "usb_skel \<Rightarrow> bool" where
  "skel_wf d \<longleftrightarrow> length (bulk_in_buffer d) = bulk_in_size d \<and> bulk_in_copied d \<le> bulk_in_filled d \<and>
     bulk_in_filled d \<le> bulk_in_size d \<and>
     (ongoing_read d \<longrightarrow> bulk_in_filled d = 0 \<and> bulk_in_copied d = 0)"

text \<open>Received and not yet copied to the user.\<close>

definition unread :: "usb_skel \<Rightarrow> byte list" where
  "unread d = take (bulk_in_filled d - bulk_in_copied d) (drop (bulk_in_copied d) (bulk_in_buffer d))"

text \<open>What arrived in the passes a call executes.\<close>

definition pass_data :: "bool \<Rightarrow> read_answer \<Rightarrow> usb_skel \<Rightarrow> byte list" where
  "pass_data nonblock a d =
     (if ongoing_read d \<and> \<not> nonblock \<and> 0 \<le> wait_rv a \<and> done_status a = 0 then done_data a else [])"

fun arrived :: "bool \<Rightarrow> nat \<Rightarrow> read_answer list \<Rightarrow> usb_skel \<Rightarrow> byte list" where
  "arrived nonblock cnt [] d = []"
| "arrived nonblock cnt (a # as) d = pass_data nonblock a d @
     (case read_pass nonblock cnt a d of Inl _ \<Rightarrow> [] | Inr d' \<Rightarrow> arrived nonblock cnt as d')"

definition answer_ok :: "usb_skel \<Rightarrow> read_answer \<Rightarrow> bool" where
  "answer_ok d a \<longleftrightarrow> length (done_data a) \<le> bulk_in_size d \<and> copy_rv a = 0"

lemma do_read_io_wf:
  assumes "skel_wf d"
  shows "skel_wf (snd (skel_do_read_io rv d)) \<and> unread (snd (skel_do_read_io rv d)) = [] \<and>
    bulk_in_size (snd (skel_do_read_io rv d)) = bulk_in_size d"
  using assms by (simp add: skel_do_read_io_def skel_wf_def unread_def Let_def)

lemma callback_wf:
  assumes "skel_wf d" and "ongoing_read d" and "length data \<le> bulk_in_size d"
  shows "skel_wf (skel_read_bulk_callback st data d) \<and>
    unread (skel_read_bulk_callback st data d) = (if st = 0 then data else []) \<and> unread d = [] \<and>
    bulk_in_size (skel_read_bulk_callback st data d) = bulk_in_size d \<and>
    \<not> ongoing_read (skel_read_bulk_callback st data d)"
  using assms by (simp add: skel_read_bulk_callback_def skel_wf_def unread_def Let_def)

text \<open>The part of a pass after the wait.\<close>

lemma unread_chunk:
  assumes "skel_wf d" and "\<not> ongoing_read d" and "chunk = min (bulk_in_filled d - bulk_in_copied d) cnt"
  shows "take chunk (drop (bulk_in_copied d) (bulk_in_buffer d)) @ unread (d\<lparr>bulk_in_copied := bulk_in_copied d + chunk\<rparr>)
      = unread d \<and> skel_wf (d\<lparr>bulk_in_copied := bulk_in_copied d + chunk\<rparr>)"
proof -
  let ?a = "bulk_in_filled d - bulk_in_copied d" and ?b = "drop (bulk_in_copied d) (bulk_in_buffer d)"
  have "take ?a ?b = take chunk ?b @ take (?a - chunk) (drop chunk ?b)"
    using assms(3) by (metis le_add_diff_inverse min.cobounded1 take_add)
  then show ?thesis
    using assms by (auto simp: unread_def skel_wf_def add.commute)
qed

lemma read_pass_stream:
  assumes wf: "skel_wf d" and ok: "answer_ok d a"
  shows "case read_pass nonblock cnt a d of
    Inl (r, sent, d') \<Rightarrow> sent @ unread d' = unread d @ pass_data nonblock a d \<and> skel_wf d' \<and>
      bulk_in_size d' = bulk_in_size d \<and> (sent \<noteq> [] \<longrightarrow> r = int (length sent))
  | Inr d' \<Rightarrow> unread d @ pass_data nonblock a d = [] \<and> unread d' = [] \<and> skel_wf d' \<and>
      bulk_in_size d' = bulk_in_size d"
proof (cases "ongoing_read d \<and> (nonblock \<or> wait_rv a < 0)")
  case True
  then show ?thesis using wf by (auto simp: read_pass_def pass_data_def)
next
  case False
  define d1 where "d1 = (if ongoing_read d then skel_read_bulk_callback (done_status a) (done_data a) d else d)"
  have d1: "skel_wf d1" "unread d1 = unread d @ pass_data nonblock a d" "bulk_in_size d1 = bulk_in_size d"
    "\<not> ongoing_read d1"
    using callback_wf [OF wf, of "done_data a" "done_status a"] wf ok False
    by (auto simp: d1_def pass_data_def answer_ok_def)
  let ?chunk = "min (bulk_in_filled d1 - bulk_in_copied d1) cnt"
  note ch = unread_chunk [OF d1(1,4) refl, of cnt]
  have io: "case start_io (submit_rv a) d1 of
      Inl (r, sent, d') \<Rightarrow> sent = [] \<and> unread d' = [] \<and> skel_wf d' \<and> bulk_in_size d' = bulk_in_size d
    | Inr d' \<Rightarrow> unread d' = [] \<and> skel_wf d' \<and> bulk_in_size d' = bulk_in_size d"
    using do_read_io_wf [OF d1(1), of "submit_rv a"] d1(3) by (simp add: start_io_def case_prod_beta)
  have pass: "read_pass nonblock cnt a d =
      (if errors d1 < 0 then Inl (reported (errors d1), [], d1\<lparr>errors := 0\<rparr>)
       else if bulk_in_filled d1 \<noteq> 0 \<and> bulk_in_filled d1 - bulk_in_copied d1 \<noteq> 0
       then (let d2 = d1\<lparr>bulk_in_copied := bulk_in_copied d1 + ?chunk\<rparr> in
         Inl (int ?chunk, take ?chunk (drop (bulk_in_copied d1) (bulk_in_buffer d1)),
           if bulk_in_filled d1 - bulk_in_copied d1 < cnt then snd (skel_do_read_io (submit_rv a) d2) else d2))
       else start_io (submit_rv a) d1)"
    using False ok by (auto simp: read_pass_def d1_def [symmetric] Let_def answer_ok_def)
  consider (err) "errors d1 < 0"
    | (data) "\<not> errors d1 < 0" "bulk_in_filled d1 \<noteq> 0" "bulk_in_filled d1 - bulk_in_copied d1 \<noteq> 0"
    | (none) "\<not> errors d1 < 0" "bulk_in_filled d1 = 0 \<or> bulk_in_filled d1 - bulk_in_copied d1 = 0"
    by (cases "errors d1 < 0"; cases "bulk_in_filled d1 = 0"; cases "bulk_in_filled d1 - bulk_in_copied d1 = 0") simp_all
  then show ?thesis
  proof cases
    case err
    then show ?thesis using pass d1 by (simp add: unread_def skel_wf_def)
  next
    case data
    let ?d2 = "d1\<lparr>bulk_in_copied := bulk_in_copied d1 + ?chunk\<rparr>"
    have "unread ?d2 = []" if "bulk_in_filled d1 - bulk_in_copied d1 < cnt"
      using that by (simp add: unread_def)
    moreover have "length (take ?chunk (drop (bulk_in_copied d1) (bulk_in_buffer d1))) = ?chunk"
      using d1(1) by (auto simp: skel_wf_def)
    ultimately show ?thesis
      using data pass ch do_read_io_wf [of ?d2 "submit_rv a"] d1(2,3)
      by (auto simp: Let_def)
  next
    case none
    then have e: "unread d1 = []" using d1(1) by (auto simp: unread_def skel_wf_def)
    have p: "read_pass nonblock cnt a d = start_io (submit_rv a) d1" using pass none by auto
    show ?thesis
      using io e d1(2) unfolding p by (auto split: sum.splits)
  qed
qed

lemma read_retry_stream:
  assumes "skel_wf d" and "\<forall>a\<in>set as. answer_ok d a" and "read_retry nonblock cnt as d = Some (r, sent, d')"
  shows "sent @ unread d' = unread d @ arrived nonblock cnt as d \<and> skel_wf d' \<and> bulk_in_size d' = bulk_in_size d"
  using assms
proof (induction as arbitrary: d)
  case (Cons a as)
  note pass = read_pass_stream [OF Cons.prems(1), of a nonblock cnt]
  have ok: "answer_ok d a" using Cons.prems(2) by simp
  show ?case
  proof (cases "read_pass nonblock cnt a d")
    case (Inl x)
    then show ?thesis using pass [OF ok] Cons.prems(3) by (cases x) auto
  next
    case (Inr d2)
    then have p: "unread d @ pass_data nonblock a d = []" "unread d2 = []" "skel_wf d2" "bulk_in_size d2 = bulk_in_size d"
      using pass [OF ok] by auto
    have "\<forall>b\<in>set as. answer_ok d2 b" using Cons.prems(2) p(4) by (auto simp: answer_ok_def)
    then have "sent @ unread d' = unread d2 @ arrived nonblock cnt as d2 \<and> skel_wf d' \<and> bulk_in_size d' = bulk_in_size d2"
      using Cons.IH [OF p(3)] Cons.prems(3) Inr by auto
    then show ?thesis using p Inr by auto
  qed
qed simp

text \<open>Events of a session: a read call, or the completion of a transfer between two calls.\<close>

datatype skel_event = Call int bool nat "read_answer list" | Completed int "byte list"

text \<open>The bytes that reached the user, the bytes that arrived, and the device. A completion without a transfer does nothing.\<close>

fun session :: "skel_event list \<Rightarrow> usb_skel \<Rightarrow> (byte list \<times> byte list \<times> usb_skel) option" where
  "session [] d = Some ([], [], d)"
| "session (Call lock nb cnt as # es) d =
     (case skel_read lock nb cnt as d of
        None \<Rightarrow> None
      | Some (r, sent, d') \<Rightarrow>
          map_option (\<lambda>(s, t, d''). (sent @ s,
            (if cnt = 0 \<or> lock < 0 \<or> disconnected d then [] else arrived nb cnt as d) @ t, d'')) (session es d'))"
| "session (Completed st data # es) d =
     (if ongoing_read d
      then map_option (\<lambda>(s, t, d''). (s, (if st = 0 then data else []) @ t, d''))
             (session es (skel_read_bulk_callback st data d))
      else session es d)"

fun event_ok :: "usb_skel \<Rightarrow> skel_event \<Rightarrow> bool" where
  "event_ok d (Call lock nb cnt as) = list_all (answer_ok d) as"
| "event_ok d (Completed st data) = (length data \<le> bulk_in_size d)"

text \<open>
  C6. Reading is a byte stream: over any sequence of read calls (blocking or not, interrupted,
  with errors, with transfers that complete during or between calls) the bytes that reached
  the user followed by the bytes still in the buffer are the bytes that were in the buffer at
  the start followed by the bytes that arrived, provided the copies to the user succeed.
\<close>

theorem skel_reads_are_stream:
  assumes "skel_wf d" and "list_all (event_ok d) es" and "session es d = Some (sent, came, d')"
  shows "sent @ unread d' = unread d @ came \<and> skel_wf d'"
  using assms
proof (induction es arbitrary: d sent came)
  case (Cons e es)
  show ?case
  proof (cases e)
    case (Call lock nb cnt as)
    obtain r s1 d1 where r: "skel_read lock nb cnt as d = Some (r, s1, d1)"
      using Cons.prems(3) Call by (cases "skel_read lock nb cnt as d") auto
    let ?t1 = "if cnt = 0 \<or> lock < 0 \<or> disconnected d then [] else arrived nb cnt as d"
    have st: "s1 @ unread d1 = unread d @ ?t1" "skel_wf d1" "bulk_in_size d1 = bulk_in_size d"
      using r read_retry_stream [OF Cons.prems(1), of as nb cnt r s1 d1] Cons.prems(1,2) Call
      by (auto simp: skel_read_def list_all_iff split: if_splits)
    obtain s2 t2 where rest: "session es d1 = Some (s2, t2, d')" "sent = s1 @ s2" "came = ?t1 @ t2"
      using Cons.prems(3) Call r by (auto split: if_splits)
    have "event_ok d1 = event_ok d" using st(3) by (auto simp: fun_eq_iff answer_ok_def list_all_iff elim!: event_ok.elims)
    then have "s2 @ unread d' = unread d1 @ t2 \<and> skel_wf d'"
      using Cons.IH [OF st(2) _ rest(1)] Cons.prems(2) by simp
    then show ?thesis using st(1) rest by (metis append.assoc)
  next
    case (Completed st data)
    show ?thesis
    proof (cases "ongoing_read d")
      case False
      then show ?thesis using Cons Completed by auto
    next
      case True
      let ?d1 = "skel_read_bulk_callback st data d"
      have c: "skel_wf ?d1" "unread ?d1 = (if st = 0 then data else [])" "unread d = []" "bulk_in_size ?d1 = bulk_in_size d"
        using callback_wf [OF Cons.prems(1) True, of data st] Cons.prems(2) Completed by auto
      obtain s2 t2 where rest: "session es ?d1 = Some (sent, t2, d')" "came = unread ?d1 @ t2"
        using Cons.prems(3) Completed True c(2) by auto
      have "event_ok ?d1 = event_ok d" using c(4) by (auto simp: fun_eq_iff answer_ok_def list_all_iff elim!: event_ok.elims)
      then show ?thesis
        using Cons.IH [OF c(1) _ rest(1)] Cons.prems(2) c(3) rest(2) by simp
    qed
  qed
qed simp

definition ans :: "byte list \<Rightarrow> read_answer" where
  "ans bs = \<lparr>wait_rv = 0, done_status = 0, done_data = bs, submit_rv = 0, copy_rv = 0\<rparr>"

definition skel_demo :: "skel_event list" where
  "skel_demo = [Call 0 False 2 [ans [], ans [1, 2, 3]], Call 0 False 5 [ans []], Completed 0 [4, 5],
     Call 0 True 1 [ans []]]"

theorem skel_reads_are_stream_witness:
  "\<exists>d'. session skel_demo skel0 = Some ([1, 2, 3, 4], [1, 2, 3, 4, 5], d') \<and> unread d' = [5]"
proof -
  have s: "map_option (\<lambda>(a, b, _). (a, b)) (session skel_demo skel0) = Some ([1, 2, 3, 4], [1, 2, 3, 4, 5])"
    by code_simp
  then obtain d' where d': "session skel_demo skel0 = Some ([1, 2, 3, 4], [1, 2, 3, 4, 5], d')" by auto
  have "skel_wf skel0" "list_all (event_ok skel0) skel_demo" "unread skel0 = []"
    by (simp_all add: skel_wf_def skel0_def skel_demo_def answer_ok_def ans_def unread_def)
  then have "[1, 2, 3, 4] @ unread d' = [1, 2, 3, 4, 5]"
    using skel_reads_are_stream [OF _ _ d'] by simp
  then show ?thesis using d' by auto
qed

text \<open>
  C38. A blocking read of a connected, idle device returns: if the device accepts the transfer
  and answers with data, the call ends in its second pass with as much of the data as was
  asked for; a transfer that fails ends it with an error; but a device that only sends empty
  packets keeps it going for ever.
\<close>

theorem skel_read_returns:
  assumes "skel_wf d" and "\<not> disconnected d" and "\<not> ongoing_read d" and "errors d = 0" and "unread d = []"
    and "0 < cnt" and "0 \<le> lock" and "submit_rv a = 0"
    and "0 \<le> wait_rv b" and "copy_rv b = 0" and "length (done_data b) \<le> bulk_in_size d"
  shows "(done_status b = 0 \<and> done_data b \<noteq> [] \<longrightarrow> (\<exists>d'. skel_read lock False cnt [a, b] d =
      Some (int (min (length (done_data b)) cnt), take cnt (done_data b), d'))) \<and>
    (done_status b < 0 \<longrightarrow> (\<exists>d'. skel_read lock False cnt [a, b] d = Some (reported (done_status b), [], d'))) \<and>
    skel_read lock False cnt (a # replicate n (ans [])) d = None"
proof -
  let ?d1 = "d\<lparr>ongoing_read := True, bulk_in_filled := 0, bulk_in_copied := 0\<rparr>"
  have e: "bulk_in_filled d - bulk_in_copied d = 0"
    using assms(1,5) by (auto simp: unread_def skel_wf_def)
  have p1: "read_pass False cnt a d = Inr ?d1"
    using assms(3,4,8) e by (simp add: read_pass_def start_io_def skel_do_read_io_def Let_def)
  have "read_retry False cnt (replicate n (ans [])) ?d1 = None" for n
  proof (induction n)
    case (Suc n)
    have "read_pass False cnt (ans []) ?d1 = Inr ?d1"
      using assms(4) by (simp add: read_pass_def start_io_def skel_do_read_io_def skel_read_bulk_callback_def
          ans_def Let_def)
    then show ?case using Suc by simp
  qed simp
  moreover have "\<exists>d'. read_pass False cnt b ?d1 = Inl (int (min (length (done_data b)) cnt), take cnt (done_data b), d')"
    if "done_status b = 0" "done_data b \<noteq> []"
    using assms(4,9,10) that by (auto simp: read_pass_def skel_read_bulk_callback_def Let_def min_def)
  moreover have "\<exists>d'. read_pass False cnt b ?d1 = Inl (reported (done_status b), [], d')" if "done_status b < 0"
    using assms(9) that by (auto simp: read_pass_def skel_read_bulk_callback_def Let_def)
  ultimately show ?thesis
    using assms(2,6,7) p1 by (auto simp: skel_read_def)
qed

theorem skel_read_returns_witness:
  "\<exists>d'. skel_read 0 False 2 [ans [], ans [7, 8, 9]] skel0 = Some (2, [7, 8], d')"
  using skel_read_returns [of skel0 2 0 "ans []" "ans [7, 8, 9]" 0]
  by (simp add: skel_wf_def skel0_def unread_def ans_def)

text \<open>
  An error is reported once: after a transfer failed with some status, the next write, read
  or flush that looks at it returns \<^verbatim>\<open>-EPIPE\<close> for a stall and \<^verbatim>\<open>-EIO\<close> for anything else, and clears
  it; a write that finds an error has given its permit back.
\<close>

theorem skel_error_reported_once:
  assumes "errors (skel w) = e" and "e < 0" and "0 < cnt" and "\<forall>tr c. ret_int E tr c = 0"
  shows "result (skel_write E nb cnt) w = reported e \<and> errors (skel (final_world (skel_write E nb cnt) w)) = 0 \<and>
    result (skel_flush E True) w = reported e \<and>
    result (skel_flush E True) (final_world (skel_flush E True) w) = 0 \<and>
    (\<not> ongoing_read (skel w) \<and> \<not> disconnected (skel w) \<longrightarrow>
      skel_read 0 nb cnt [a] (skel w) = Some (reported e, [], (skel w)\<lparr>errors := 0\<rparr>))"
  using assms
  by (auto simp: skel_write_def write_error_def set_errors_def skel_flush_def skel_draw_down_def result_def
      final_world_def krun Let_def skel_read_def read_pass_def)

theorem skel_error_reported_once_witness:
  "result (skel_flush \<lparr>ret_int = \<lambda>_ _. 0, ret_ptr = \<lambda>_ _. Ptr 1\<rparr> True)
     (final_world (skel_write_bulk_callback (- ESHUTDOWN) 4 (Ptr 1)) sw0) = - EIO"
proof -
  let ?w = "final_world (skel_write_bulk_callback (- ESHUTDOWN) 4 (Ptr 1)) sw0"
  have "errors (skel ?w) = - ESHUTDOWN"
    by (simp add: skel_write_bulk_callback_def set_errors_def final_world_def krun)
  then show ?thesis
    using skel_error_reported_once [of ?w "- ESHUTDOWN" 1 "\<lparr>ret_int = \<lambda>_ _. 0, ret_ptr = \<lambda>_ _. Ptr 1\<rparr>" False]
    by (simp add: reported_def)
qed

text \<open>
  A failed copy to the user still advances the position: the bytes of that chunk are lost.
\<close>

lemma skel_fault_skips_data:
  assumes "skel_wf d" and "\<not> ongoing_read d" and "errors d = 0" and "unread d \<noteq> []"
    and "copy_rv a \<noteq> 0" and "cnt \<le> length (unread d)"
  shows "\<exists>d'. read_pass nb cnt a d = Inl (- EFAULT, [], d') \<and> unread d' = drop cnt (unread d)"
proof -
  have l: "length (unread d) = bulk_in_filled d - bulk_in_copied d"
    using assms(1) by (auto simp: unread_def skel_wf_def)
  then have "bulk_in_filled d - bulk_in_copied d \<noteq> 0" "cnt \<le> bulk_in_filled d - bulk_in_copied d"
    using assms(4,6) by auto
  then show ?thesis
    using assms(2,3,5) by (auto simp: read_pass_def Let_def unread_def drop_take add.commute)
qed

end
