(* ===== verification/USB_Skel_Flight.thy ===== *)
theory USB_Skel_Flight
  imports USB_Skel
begin

text \<open>
  The limit on transfers in flight of the USB skeleton driver \<^verbatim>\<open>USB/usbdrv3.c\<close>: writes by any number of callers, the completions of
  what they submitted, and flushes, in any order.
\<close>

section \<open>Events\<close>

datatype skel_event =
    Write_call bool nat
  | Completed kptr int nat kptr
  | Flush_call bool

definition io_step :: "scall kenv \<Rightarrow> skel_event \<Rightarrow> sworld \<Rightarrow> int \<times> sworld" where
  "io_step E e w =
     (case e of
        Write_call nonblock cnt \<Rightarrow> run_state (skel_write E nonblock cnt) w
      | Completed urb status len buf \<Rightarrow> (0, final_world (giveback urb status len buf) w)
      | Flush_call has_dev \<Rightarrow> run_state (skel_flush E has_dev) w)"

text \<open>Only a transfer that is in flight completes.\<close>

definition io_enabled :: "skel_event \<Rightarrow> sworld \<Rightarrow> bool" where
  "io_enabled e w =
     (case e of
        Completed urb status len buf \<Rightarrow> buf \<noteq> Null \<and> flight urb buf \<subseteq># owned (s_ledger (trace w))
      | _ \<Rightarrow> True)"

text \<open>
  The documented behaviour of the semaphore \<^verbatim>\<open>limit_sem\<close>, initialised to \<^verbatim>\<open>WRITES_IN_FLIGHT\<close>: taking it succeeds only while a
  permit is left, and taking it without waiting fails only when none is.
\<close>

definition sem_ok :: "scall kenv \<Rightarrow> bool" where
  "sem_ok E \<longleftrightarrow> (\<forall>tr. (ret_int E tr Down_interruptible = 0 \<longrightarrow> count (owned (s_ledger tr)) Permit < WRITES_IN_FLIGHT) \<and>
     (ret_int E tr Down_trylock = 0 \<longleftrightarrow> count (owned (s_ledger tr)) Permit < WRITES_IN_FLIGHT))"

section \<open>The invariant\<close>

definition in_flight :: "nat \<Rightarrow> kptr multiset \<Rightarrow> kptr multiset \<Rightarrow> sres multiset" where
  "in_flight k U B = replicate_mset k Permit + image_mset Anchored U + image_mset Coherent B"

definition flight_inv :: "sworld \<Rightarrow> bool" where
  "flight_inv w \<longleftrightarrow> (\<exists>k U B. s_ledger (trace w) = \<lparr>owned = in_flight k U B, misused = {#}\<rparr> \<and> size U = k \<and> size B = k \<and>
     k \<le> WRITES_IN_FLIGHT)"

lemma in_flight_permits: "count (in_flight k U B) Permit = k"
  by (auto simp: in_flight_def count_image_mset)

lemma in_flight_add: "in_flight k U B + flight u b = in_flight (Suc k) (add_mset u U) (add_mset b B)"
  by (simp add: in_flight_def flight_def)

lemma in_flight_remove:
  assumes "flight u b \<subseteq># in_flight k U B" and "size U = k" and "size B = k"
  shows "\<exists>k' U' B'. in_flight k U B = in_flight k' U' B' + flight u b \<and> size U' = k' \<and> size B' = k' \<and> k = Suc k'"
proof -
  have "Anchored u \<in># in_flight k U B" "Coherent b \<in># in_flight k U B"
    using assms(1) by (auto simp: flight_def dest: mset_subset_eqD)
  then have "u \<in># U" "b \<in># B" by (auto simp: in_flight_def split: if_splits)
  then obtain U' B' where U: "U = add_mset u U'" and B: "B = add_mset b B'" by (meson mset_add)
  then obtain k' where k: "k = Suc k'" "size U' = k'" "size B' = k'" using assms(2,3) by auto
  then show ?thesis using in_flight_add [of k' U' B' u b] U B by metis
qed

text \<open>A write that fails at the semaphore or at all leaves the books as they were; one that succeeds had a permit.\<close>

lemma write_needs_permit:
  assumes "sem_ok E" and "0 < result (skel_write E nonblock cnt) w"
  shows "count (owned (s_ledger (trace w))) Permit < WRITES_IN_FLIGHT"
proof (rule ccontr)
  assume "\<not> ?thesis"
  then have "ret_int E (trace w) Down_interruptible \<noteq> 0" "ret_int E (trace w) Down_trylock \<noteq> 0"
    using assms(1) by (auto simp: sem_ok_def)
  then have "result (skel_write E nonblock cnt) w \<le> 0"
    by (cases nonblock) (simp_all add: skel_write_def result_def krun Let_def)
  then show False using assms(2) by simp
qed

lemma flush_ledger: "s_ledger (trace (snd (run_state (skel_flush E has_dev) w))) = s_ledger (trace w)"
  by (simp add: skel_flush_def skel_draw_down_def set_errors_def krun ledger_of_append tables case_prod_beta)

lemma write_inv:
  assumes e: "no_err_ptr E" "\<forall>tr u n. ret_int E tr (Usb_submit_urb u n) \<le> 0" "sem_ok E" and inv: "flight_inv w"
  shows "flight_inv (snd (run_state (skel_write E nonblock cnt) w))"
proof -
  obtain k U B where l: "s_ledger (trace w) = \<lparr>owned = in_flight k U B, misused = {#}\<rparr>"
    and s: "size U = k" "size B = k" "k \<le> WRITES_IN_FLIGHT"
    using inv by (auto simp: flight_inv_def)
  obtain r w' where run: "run_state (skel_write E nonblock cnt) w = (r, w')" by fastforce
  from skel_write_ledger [OF e(1,2) l, where nonblock = nonblock and cnt = cnt]
  consider urb buf where "r = int (min cnt MAX_TRANSFER)" "buf \<noteq> Null"
      "s_ledger (trace w') = \<lparr>owned = in_flight k U B + flight urb buf, misused = {#}\<rparr>"
    | "s_ledger (trace w') = \<lparr>owned = in_flight k U B, misused = {#}\<rparr>"
    unfolding run prod.case by blast
  then show ?thesis
  proof cases
    case 1
    show ?thesis
    proof (cases "cnt = 0")
      case True
      then have "w' = w" using run by (simp add: skel_write_def Let_def)
      then show ?thesis using inv run by simp
    next
      case False
      then have "0 < result (skel_write E nonblock cnt) w" using 1(1) by (simp add: result_def run MAX_TRANSFER_def)
      then have "k < WRITES_IN_FLIGHT" using write_needs_permit [OF e(3)] by (fastforce simp: l in_flight_permits)
      then show ?thesis
        using 1(3) s unfolding flight_inv_def in_flight_add run snd_conv
        by (intro exI [of _ "Suc k"] exI [of _ "add_mset urb U"] exI [of _ "add_mset buf B"]) simp
    qed
  next
    case 2
    then show ?thesis using s unfolding flight_inv_def run snd_conv by blast
  qed
qed

lemma completed_inv:
  assumes inv: "flight_inv w" and "buf \<noteq> Null" and "flight urb buf \<subseteq># owned (s_ledger (trace w))"
  shows "flight_inv (final_world (giveback urb status len buf) w)"
proof -
  obtain k U B where l: "s_ledger (trace w) = \<lparr>owned = in_flight k U B, misused = {#}\<rparr>"
    and s: "size U = k" "size B = k" "k \<le> WRITES_IN_FLIGHT"
    using inv by (auto simp: flight_inv_def)
  obtain k' U' B' where r: "in_flight k U B = in_flight k' U' B' + flight urb buf" "size U' = k'" "size B' = k'" "k = Suc k'"
    using in_flight_remove [of urb buf k U B] assms(3) s by (auto simp: l)
  have "s_ledger (trace (final_world (giveback urb status len buf) w)) = \<lparr>owned = in_flight k' U' B', misused = {#}\<rparr>"
    using giveback_ledger [OF _ assms(2)] l r(1) by simp
  moreover have "k' \<le> WRITES_IN_FLIGHT" using r(4) s(3) by simp
  ultimately show ?thesis using r(2,3) unfolding flight_inv_def by blast
qed

lemma io_step_inv:
  assumes "no_err_ptr E" and "\<forall>tr u n. ret_int E tr (Usb_submit_urb u n) \<le> 0" and "sem_ok E" and "flight_inv w" and "io_enabled e w"
  shows "flight_inv (snd (io_step E e w))"
proof (cases e)
  case (Flush_call h)
  then show ?thesis using assms(4) flush_ledger [of E h w] by (simp add: io_step_def flight_inv_def)
qed (use assms write_inv completed_inv in \<open>simp_all add: io_step_def io_enabled_def\<close>)

text \<open>
  C10. The limit holds: whatever the writers, the completions and the flushes do, the transfers in flight are never more than
  \<^verbatim>\<open>WRITES_IN_FLIGHT\<close>; each holds exactly one permit, one anchored request block and one buffer, nothing else is held and
  nothing is given back twice; and at the limit a write that must not wait is turned away with \<^verbatim>\<open>-EAGAIN\<close>.
\<close>

theorem skel_in_flight_bounded:
  assumes "no_err_ptr E" and "\<forall>tr u n. ret_int E tr (Usb_submit_urb u n) \<le> 0" and "sem_ok E" and "trace w = []"
    and "allowed io_enabled (io_step E) es w"
  shows "\<exists>k U B. s_ledger (trace (snd (replay (io_step E) es w))) = \<lparr>owned = in_flight k U B, misused = {#}\<rparr> \<and>
    size U = k \<and> size B = k \<and> k \<le> WRITES_IN_FLIGHT \<and>
    (k = WRITES_IN_FLIGHT \<longrightarrow> (\<forall>cnt. 0 < cnt \<longrightarrow> result (skel_write E True cnt) (snd (replay (io_step E) es w)) = - EAGAIN))"
proof -
  have "flight_inv w" using assms(4) by (auto simp: flight_inv_def in_flight_def)
  then have inv: "flight_inv (snd (replay (io_step E) es w))"
    using replay_invariant [where P = flight_inv and enabled = io_enabled, OF io_step_inv [OF assms(1-3)] _ assms(5)] by blast
  then obtain k U B where l: "s_ledger (trace (snd (replay (io_step E) es w))) = \<lparr>owned = in_flight k U B, misused = {#}\<rparr>"
    and s: "size U = k" "size B = k" "k \<le> WRITES_IN_FLIGHT"
    by (auto simp: flight_inv_def)
  have "result (skel_write E True cnt) (snd (replay (io_step E) es w)) = - EAGAIN" if "k = WRITES_IN_FLIGHT" "0 < cnt" for cnt
  proof -
    have "ret_int E (trace (snd (replay (io_step E) es w))) Down_trylock \<noteq> 0"
      using assms(3) that(1) by (auto simp: sem_ok_def l in_flight_permits)
    then show ?thesis using that(2) by (simp add: skel_write_def result_def krun Let_def)
  qed
  then show ?thesis using l s by blast
qed

text \<open>A kernel with a real semaphore, which counts the permits taken so far.\<close>

definition sem_env :: "scall kenv" where
  "sem_env = \<lparr>ret_int = (\<lambda>tr c. if c \<in> {Down_interruptible, Down_trylock}
       then (if count (owned (s_ledger tr)) Permit < WRITES_IN_FLIGHT then 0 else 1) else 0),
     ret_ptr = (\<lambda>tr c. Ptr (length tr))\<rparr>"

theorem skel_in_flight_bounded_witness:
  "\<exists>k U B. s_ledger (trace (snd (replay (io_step sem_env) (replicate 9 (Write_call True 100)) sw0))) =
     \<lparr>owned = in_flight k U B, misused = {#}\<rparr> \<and> size U = k \<and> k \<le> WRITES_IN_FLIGHT"
proof -
  have "no_err_ptr sem_env" "\<forall>tr u n. ret_int sem_env tr (Usb_submit_urb u n) \<le> 0" "sem_ok sem_env" "trace sw0 = []"
    by (simp_all add: no_err_ptr_def sem_env_def sem_ok_def sw0_def)
  moreover have "allowed io_enabled (io_step sem_env) (replicate n (Write_call True 100)) w" for n w
    by (induction n arbitrary: w) (simp_all add: io_enabled_def)
  ultimately show ?thesis using skel_in_flight_bounded by blast
qed

end
