(* ===== verification/USB_Skel_Life.thy ===== *)
theory USB_Skel_Life
  imports Kernel_Prelude
begin

text \<open>
  The life cycle of the USB skeleton driver \<^verbatim>\<open>USB/usbdrv3.c\<close>: probe, open, release, disconnect, and the
  reference count that decides when the device structure is freed. The reference count is the
  kernel's; its operations are a parameter with their documented behaviour \<open>kref_ok\<close>.
\<close>

section \<open>State and kernel calls\<close>

datatype lcall =
    Kzalloc_skel
  | Kmalloc_buf nat
  | Kfree kptr
  | Usb_get_dev
  | Usb_put_dev kptr
  | Usb_get_intf
  | Usb_put_intf kptr
  | Usb_find_common_endpoints
  | Bulk_in_maxp
  | Bulk_in_address
  | Bulk_out_address
  | Usb_alloc_urb
  | Usb_free_urb kptr
  | Usb_register_dev
  | Usb_deregister_dev
  | Usb_find_interface
  | Usb_autopm_get_interface
  | Usb_autopm_put_interface
  | Mutex_lock
  | Mutex_unlock
  | Usb_kill_urb
  | Usb_kill_anchored_urbs
  | Usb_wait_anchor_empty_timeout

record 'k kref_ops =
  kref_init :: 'k
  kref_get :: "'k \<Rightarrow> 'k"
  kref_dec :: "'k \<Rightarrow> bool \<times> 'k"

record 'k lworld = "lcall kworld" +
  kref :: 'k
  skel_p :: kptr
  udev_p :: kptr
  intf_p :: kptr
  buf_p :: kptr
  urb_p :: kptr
  intfdata :: kptr
  gone :: bool
  err :: int
  limit_sem :: nat
  bulk_in_size :: nat
  bulk_in_endpointAddr :: byte
  bulk_out_endpointAddr :: byte

section \<open>Operations\<close>

definition skel_delete :: "('k lworld, unit) state" where
  "skel_delete = do {
     u \<leftarrow> gets urb_p; kvoid (Usb_free_urb u);
     i \<leftarrow> gets intf_p; kvoid (Usb_put_intf i);
     d \<leftarrow> gets udev_p; kvoid (Usb_put_dev d);
     b \<leftarrow> gets buf_p; kvoid (Kfree b);
     p \<leftarrow> gets skel_p; kvoid (Kfree p) }"

text \<open>\<^verbatim>\<open>kref_put(&dev->kref, skel_delete)\<close>: the first component of \<open>kref_dec\<close> says that the count became zero.\<close>

definition kref_put :: "'k kref_ops \<Rightarrow> ('k lworld, unit) state" where
  "kref_put K = do {
     k \<leftarrow> gets kref;
     modify (\<lambda>w. w\<lparr>kref := snd (kref_dec K k)\<rparr>);
     if fst (kref_dec K k) then skel_delete else ret () }"

definition probe_error :: "'k kref_ops \<Rightarrow> int \<Rightarrow> ('k lworld, int) state" where
  "probe_error K retval = do { kref_put K; ret retval }"

text \<open>
  \<^verbatim>\<open>usb_find_common_endpoints\<close> answers with two descriptors, whose fields are further answers. \<^verbatim>\<open>kzalloc\<close> clears the structure; the mutex,
  the spinlock, the anchor and the wait queue start empty, the semaphore with \<^verbatim>\<open>WRITES_IN_FLIGHT\<close> (8) permits.
\<close>

definition probe_register :: "'k kref_ops \<Rightarrow> lcall kenv \<Rightarrow> kptr \<Rightarrow> ('k lworld, int) state" where
  "probe_register K E p = do {
     oa \<leftarrow> kint E Bulk_out_address;
     modify (\<lambda>w. w\<lparr>bulk_out_endpointAddr := word_of_int oa\<rparr>);
     modify (\<lambda>w. w\<lparr>intfdata := p\<rparr>);
     g \<leftarrow> kint E Usb_register_dev;
     if g \<noteq> 0 then do { modify (\<lambda>w. w\<lparr>intfdata := Null\<rparr>); probe_error K g }
     else ret 0 }"

definition probe_buffers :: "'k kref_ops \<Rightarrow> lcall kenv \<Rightarrow> kptr \<Rightarrow> ('k lworld, int) state" where
  "probe_buffers K E p = do {
     n \<leftarrow> kint E Bulk_in_maxp;
     ia \<leftarrow> kint E Bulk_in_address;
     modify (\<lambda>w. w\<lparr>bulk_in_size := nat n, bulk_in_endpointAddr := word_of_int ia\<rparr>);
     b \<leftarrow> kptr_call E (Kmalloc_buf (nat n));
     modify (\<lambda>w. w\<lparr>buf_p := b\<rparr>);
     if b = Null then probe_error K (- ENOMEM)
     else do {
       u \<leftarrow> kptr_call E Usb_alloc_urb;
       modify (\<lambda>w. w\<lparr>urb_p := u\<rparr>);
       if u = Null then probe_error K (- ENOMEM)
       else probe_register K E p } }"

definition skel_probe :: "'k kref_ops \<Rightarrow> lcall kenv \<Rightarrow> ('k lworld, int) state" where
  "skel_probe K E = do {
     p \<leftarrow> kptr_call E Kzalloc_skel;
     if p = Null then ret (- ENOMEM)
     else do {
       modify (\<lambda>w. w\<lparr>kref := kref_init K, skel_p := p, buf_p := Null, urb_p := Null, gone := False, err := 0,
         limit_sem := 8, bulk_in_size := 0, bulk_in_endpointAddr := 0, bulk_out_endpointAddr := 0\<rparr>);
       d \<leftarrow> kptr_call E Usb_get_dev;
       modify (\<lambda>w. w\<lparr>udev_p := d\<rparr>);
       i \<leftarrow> kptr_call E Usb_get_intf;
       modify (\<lambda>w. w\<lparr>intf_p := i\<rparr>);
       r \<leftarrow> kint E Usb_find_common_endpoints;
       if r \<noteq> 0 then probe_error K r else probe_buffers K E p } }"

definition skel_open :: "'k kref_ops \<Rightarrow> lcall kenv \<Rightarrow> ('k lworld, int) state" where
  "skel_open K E = do {
     i \<leftarrow> kptr_call E Usb_find_interface;
     if i = Null then ret (- ENODEV)
     else do {
       d \<leftarrow> gets intfdata;
       if d = Null then ret (- ENODEV)
       else do {
         r \<leftarrow> kint E Usb_autopm_get_interface;
         if r \<noteq> 0 then ret r
         else do {
           modify (\<lambda>w. w\<lparr>kref := kref_get K (kref w)\<rparr>);
           ret 0 } } } }"

definition skel_release :: "'k kref_ops \<Rightarrow> bool \<Rightarrow> ('k lworld, int) state" where
  "skel_release K has_dev =
     (if \<not> has_dev then ret (- ENODEV)
      else do { kvoid Usb_autopm_put_interface; kref_put K; ret 0 })"

definition skel_disconnect :: "'k kref_ops \<Rightarrow> ('k lworld, unit) state" where
  "skel_disconnect K = do {
     modify (\<lambda>w. w\<lparr>intfdata := Null\<rparr>);
     kvoid Usb_deregister_dev;
     kvoid Mutex_lock;
     modify (\<lambda>w. w\<lparr>gone := True\<rparr>);
     kvoid Mutex_unlock;
     kvoid Usb_kill_urb;
     kvoid Usb_kill_anchored_urbs;
     kref_put K }"

definition draw_down :: "lcall kenv \<Rightarrow> ('k lworld, unit) state" where
  "draw_down E = do {
     t \<leftarrow> kint E Usb_wait_anchor_empty_timeout;
     (if t = 0 then kvoid Usb_kill_anchored_urbs else ret ());
     kvoid Usb_kill_urb }"

definition skel_suspend :: "lcall kenv \<Rightarrow> ('k lworld, int) state" where
  "skel_suspend E = do {
     d \<leftarrow> gets intfdata;
     if d = Null then ret 0 else do { draw_down E; ret 0 } }"

definition skel_resume :: "('k lworld, int) state" where
  "skel_resume = ret 0"

definition skel_pre_reset :: "lcall kenv \<Rightarrow> ('k lworld, int) state" where
  "skel_pre_reset E = do { kvoid Mutex_lock; draw_down E; ret 0 }"

definition skel_post_reset :: "('k lworld, int) state" where
  "skel_post_reset = do { modify (\<lambda>w. w\<lparr>err := - EPIPE\<rparr>); kvoid Mutex_unlock; ret 0 }"

section \<open>The ledger\<close>

datatype lres = Mem kptr | UrbRef kptr | IntfRef kptr | DevRef kptr | Minor | Awake

definition l_acq :: "lcall kevent \<Rightarrow> lres option" where
  "l_acq ev = (case ev of
     RetP Kzalloc_skel p \<Rightarrow> if is_addr p then Some (Mem p) else None
   | RetP (Kmalloc_buf _) p \<Rightarrow> if is_addr p then Some (Mem p) else None
   | RetP Usb_alloc_urb p \<Rightarrow> if is_addr p then Some (UrbRef p) else None
   | RetP Usb_get_dev p \<Rightarrow> Some (DevRef p)
   | RetP Usb_get_intf p \<Rightarrow> Some (IntfRef p)
   | RetI Usb_register_dev r \<Rightarrow> if r = 0 then Some Minor else None
   | RetI Usb_autopm_get_interface r \<Rightarrow> if r = 0 then Some Awake else None
   | _ \<Rightarrow> None)"

text \<open>\<^verbatim>\<open>kfree\<close> and \<^verbatim>\<open>usb_free_urb\<close> of a null pointer do nothing.\<close>

definition l_rel :: "lcall kevent \<Rightarrow> lres option" where
  "l_rel ev = (case ev of
     Void (Kfree p) \<Rightarrow> if p = Null then None else Some (Mem p)
   | Void (Usb_free_urb p) \<Rightarrow> if p = Null then None else Some (UrbRef p)
   | Void (Usb_put_intf p) \<Rightarrow> Some (IntfRef p)
   | Void (Usb_put_dev p) \<Rightarrow> Some (DevRef p)
   | Void Usb_deregister_dev \<Rightarrow> Some Minor
   | Void Usb_autopm_put_interface \<Rightarrow> Some Awake
   | _ \<Rightarrow> None)"

declare l_acq_def [tables] l_rel_def [tables]

abbreviation l_ledger :: "lcall ktrace \<Rightarrow> lres ledger" where
  "l_ledger \<equiv> ledger_of l_acq l_rel"

definition if_set :: "kptr \<Rightarrow> lres \<Rightarrow> lres multiset" where
  "if_set p r = (if p = Null then {#} else {#r#})"

text \<open>What the device structure holds.\<close>

definition dev_parts :: "'k lworld \<Rightarrow> lres multiset" where
  "dev_parts w = {#DevRef (udev_p w), IntfRef (intf_p w)#} +
     if_set (skel_p w) (Mem (skel_p w)) + if_set (buf_p w) (Mem (buf_p w)) + if_set (urb_p w) (UrbRef (urb_p w))"

definition kref_ok :: "'k kref_ops \<Rightarrow> ('k \<Rightarrow> nat) \<Rightarrow> bool" where
  "kref_ok K refs \<longleftrightarrow> refs (kref_init K) = 1 \<and> (\<forall>k. refs (kref_get K k) = refs k + 1) \<and>
     (\<forall>k. 0 < refs k \<longrightarrow> refs (snd (kref_dec K k)) = refs k - 1 \<and> fst (kref_dec K k) = (refs k = 1))"

lemma kref_okD:
  assumes "kref_ok K refs"
  shows "refs (kref_init K) = 1" and "refs (kref_get K k) = refs k + 1"
    and "0 < refs k \<Longrightarrow> refs (snd (kref_dec K k)) = refs k - 1"
    and "0 < refs k \<Longrightarrow> fst (kref_dec K k) = (refs k = 1)"
  using assms unfolding kref_ok_def by blast+

lemma kref_put_ledger:
  assumes K: "kref_ok K refs" and c: "0 < refs (kref w)" and p: "skel_p w \<noteq> Null"
    and l: "l_ledger (trace w) = \<lparr>owned = M + dev_parts w, misused = B\<rparr>"
  shows "let w' = snd (run_state (kref_put K) w) in
    refs (kref w') = refs (kref w) - 1 \<and> skel_p w' = skel_p w \<and> udev_p w' = udev_p w \<and> intf_p w' = intf_p w \<and>
    buf_p w' = buf_p w \<and> urb_p w' = urb_p w \<and> intfdata w' = intfdata w \<and> gone w' = gone w \<and>
    l_ledger (trace w') = \<lparr>owned = (if refs (kref w) = 1 then M else M + dev_parts w), misused = B\<rparr>"
  using l p kref_okD(3,4) [OF K c]
  by (simp add: kref_put_def skel_delete_def krun ledger_of_append tables dev_parts_def if_set_def)

text \<open>A probe that succeeds holds the structure and the minor number; one that fails holds nothing.\<close>

definition probe_ends :: "('k \<Rightarrow> nat) \<Rightarrow> lres multiset \<Rightarrow> lres multiset \<Rightarrow> int \<Rightarrow> 'k lworld \<Rightarrow> bool" where
  "probe_ends refs M B r w' \<longleftrightarrow>
     (r = 0 \<longrightarrow> refs (kref w') = 1 \<and> skel_p w' \<noteq> Null \<and> intfdata w' = skel_p w' \<and> \<not> gone w' \<and>
        l_ledger (trace w') = \<lparr>owned = M + dev_parts w' + {#Minor#}, misused = B\<rparr>) \<and>
     (r \<noteq> 0 \<longrightarrow> l_ledger (trace w') = \<lparr>owned = M, misused = B\<rparr>)"

text \<open>Inside the probe: the structure with what it holds so far.\<close>

definition probing :: "('k \<Rightarrow> nat) \<Rightarrow> lres multiset \<Rightarrow> lres multiset \<Rightarrow> 'k lworld \<Rightarrow> bool" where
  "probing refs M B w \<longleftrightarrow> refs (kref w) = 1 \<and> skel_p w \<noteq> Null \<and> \<not> gone w \<and>
     l_ledger (trace w) = \<lparr>owned = M + dev_parts w, misused = B\<rparr>"

lemma probe_error_ends:
  assumes K: "kref_ok K refs" and "probing refs M B w" and "run_state (probe_error K e) w = (r, w')" and "e \<noteq> 0"
  shows "probe_ends refs M B r w'"
proof -
  have "fst (kref_dec K (kref w))" using kref_okD(4) [OF K, of "kref w"] assms(2) by (simp add: probing_def)
  then show ?thesis
    using assms(2-4) by (auto simp: probe_error_def kref_put_def skel_delete_def probing_def probe_ends_def krun ledger_of_append tables
        dev_parts_def if_set_def)
qed

lemma probe_register_ends:
  assumes K: "kref_ok K refs" and w: "probing refs M B w" and p: "p = skel_p w" and run: "run_state (probe_register K E p) w = (r, w')"
  shows "probe_ends refs M B r w'"
proof -
  let ?w1 = "w\<lparr>bulk_out_endpointAddr := word_of_int (ret_int E (trace w) Bulk_out_address)\<rparr>"
  let ?t = "trace w @ [RetI Bulk_out_address (ret_int E (trace w) Bulk_out_address)]"
  let ?g = "ret_int E ?t Usb_register_dev"
  let ?w2 = "?w1\<lparr>trace := ?t @ [RetI Usb_register_dev ?g]\<rparr>"
  show ?thesis
  proof (cases "?g = 0")
    case True
    then show ?thesis
      using run w p by (auto simp: probe_register_def probing_def probe_ends_def krun ledger_of_append tables dev_parts_def)
  next
    case False
    then have "run_state (probe_error K ?g) (?w2\<lparr>intfdata := Null\<rparr>) = (r, w')"
      using run by (simp add: probe_register_def krun)
    moreover have "probing refs M B (?w2\<lparr>intfdata := Null\<rparr>)"
      using w False by (simp add: probing_def ledger_of_append tables dev_parts_def)
    ultimately show ?thesis using False probe_error_ends [OF K] by blast
  qed
qed

lemma probe_buffers_ends:
  assumes K: "kref_ok K refs" and ne: "\<And>tr c. \<not> IS_ERR (ret_ptr E tr c)" and w: "probing refs M B w" and p: "p = skel_p w"
    and empty: "buf_p w = Null" "urb_p w = Null" and run: "run_state (probe_buffers K E p) w = (r, w')"
  shows "probe_ends refs M B r w'"
proof -
  define n where "n = ret_int E (trace w) Bulk_in_maxp"
  define t1 where "t1 = trace w @ [RetI Bulk_in_maxp n]"
  define a where "a = ret_int E t1 Bulk_in_address"
  define t2 where "t2 = t1 @ [RetI Bulk_in_address a]"
  define b where "b = ret_ptr E t2 (Kmalloc_buf (nat n))"
  define t3 where "t3 = t2 @ [RetP (Kmalloc_buf (nat n)) b]"
  define u where "u = ret_ptr E t3 Usb_alloc_urb"
  define t4 where "t4 = t3 @ [RetP Usb_alloc_urb u]"
  define w3 where "w3 = w\<lparr>trace := t2, bulk_in_size := nat n, bulk_in_endpointAddr := word_of_int a, trace := t3, buf_p := b\<rparr>"
  define w4 where "w4 = w3\<lparr>trace := t4, urb_p := u\<rparr>"
  note ts = t1_def t2_def t3_def t4_def
  have l2: "l_ledger t2 = l_ledger (trace w)" by (simp add: ts ledger_of_append tables)
  have run': "run_state (if b = Null then probe_error K (- ENOMEM) else do {
      u' \<leftarrow> kptr_call E Usb_alloc_urb; modify (\<lambda>w. w\<lparr>urb_p := u'\<rparr>);
      if u' = Null then probe_error K (- ENOMEM) else probe_register K E p }) w3 = (r, w')"
    using run by (simp add: probe_buffers_def krun w3_def b_def ts a_def n_def cong: if_cong)
  have w3: "probing refs M B w3"
    using w empty l2 ne [of t2 "Kmalloc_buf (nat n)"]
    by (auto simp: probing_def w3_def t3_def b_def [symmetric] ledger_of_append tables dev_parts_def if_set_def)
  show ?thesis
  proof (cases "b = Null")
    case True
    then show ?thesis using run' probe_error_ends [OF K w3] by simp
  next
    case False
    have "urb_p w3 = Null" "trace w3 = t3" using empty by (simp_all add: w3_def)
    then have w4: "probing refs M B w4" "p = skel_p w4"
      using w3 p ne [of t3 Usb_alloc_urb]
      by (auto simp: probing_def w4_def t4_def u_def [symmetric] ledger_of_append tables dev_parts_def if_set_def w3_def)
    have "run_state (if u = Null then probe_error K (- ENOMEM) else probe_register K E p) w4 = (r, w')"
      using run' False by (simp add: krun w4_def t4_def \<open>trace w3 = t3\<close> u_def)
    then show ?thesis
      using probe_error_ends [OF K w4(1)] probe_register_ends [OF K w4] by (simp split: if_splits)
  qed
qed

lemma skel_probe_ledger:
  assumes K: "kref_ok K refs" and e: "no_err_ptr E"
    and l: "l_ledger (trace w) = \<lparr>owned = M, misused = B\<rparr>"
    and run: "run_state (skel_probe K E) w = (r, w')"
  shows "(r = 0 \<longrightarrow> refs (kref w') = 1 \<and> skel_p w' \<noteq> Null \<and> intfdata w' = skel_p w' \<and> \<not> gone w' \<and>
      l_ledger (trace w') = \<lparr>owned = M + dev_parts w' + {#Minor#}, misused = B\<rparr>) \<and>
    (r \<noteq> 0 \<longrightarrow> l_ledger (trace w') = \<lparr>owned = M, misused = B\<rparr>)"
proof -
  have ne: "\<not> IS_ERR (ret_ptr E tr c)" for tr c using e by (simp add: no_err_ptr_def)
  define p where "p = ret_ptr E (trace w) Kzalloc_skel"
  define t1 where "t1 = trace w @ [RetP Kzalloc_skel p]"
  define d where "d = ret_ptr E t1 Usb_get_dev"
  define t2 where "t2 = t1 @ [RetP Usb_get_dev d]"
  define i where "i = ret_ptr E t2 Usb_get_intf"
  define t3 where "t3 = t2 @ [RetP Usb_get_intf i]"
  define f where "f = ret_int E t3 Usb_find_common_endpoints"
  define w3 where "w3 = w\<lparr>trace := t1, kref := kref_init K, skel_p := p, buf_p := Null,
    urb_p := Null, gone := False, err := 0, limit_sem := 8, bulk_in_size := 0, bulk_in_endpointAddr := 0, bulk_out_endpointAddr := 0,
    trace := t2, udev_p := d, trace := t3, intf_p := i, trace := t3 @ [RetI Usb_find_common_endpoints f]\<rparr>"
  note ts = t1_def t2_def t3_def
  show ?thesis
  proof (cases "p = Null")
    case True
    then show ?thesis using run l by (auto simp: skel_probe_def krun p_def ledger_of_append tables)
  next
    case False
    have r3: "run_state (if f \<noteq> 0 then probe_error K f else probe_buffers K E p) w3 = (r, w')"
      using run False by (simp add: skel_probe_def krun w3_def f_def i_def d_def p_def ts cong: if_cong)
    have p3: "probing refs M B w3"
      using False l ne [of "trace w" Kzalloc_skel] kref_okD(1) [OF K]
      by (simp add: probing_def w3_def ts p_def [symmetric] ledger_of_append tables dev_parts_def if_set_def)
    have q: "p = skel_p w3" "buf_p w3 = Null" "urb_p w3 = Null" by (simp_all add: w3_def)
    have "probe_ends refs M B r w'"
    proof (cases "f = 0")
      case True
      then show ?thesis using r3 by (intro probe_buffers_ends [OF K ne p3 q]) simp
    next
      case f: False
      then show ?thesis using r3 by (intro probe_error_ends [OF K p3 _ f]) simp
    qed
    then show ?thesis by (simp add: probe_ends_def)
  qed
qed

section \<open>Probe and disconnect as a module\<close>

text \<open>A reference count as a plain number.\<close>

definition nat_kref :: "nat kref_ops" where
  "nat_kref = \<lparr>kref_init = 1, kref_get = Suc, kref_dec = (\<lambda>k. (k = 1, k - 1))\<rparr>"

lemma nat_kref_ok: "kref_ok nat_kref id"
  by (simp add: kref_ok_def nat_kref_def)

definition skel_held :: "nat lworld \<Rightarrow> lres multiset" where
  "skel_held w = (if kref w = 1 then dev_parts w else {#}) + {#Minor#}"

interpretation skel_mod: kernel_module "skel_probe nat_kref" "\<lambda>_. skel_disconnect nat_kref" l_acq l_rel skel_held no_err_ptr
proof (unfold_locales, goal_cases)
  case (1 E w w')
  then show ?case
    using skel_probe_ledger [OF nat_kref_ok 1(1) _ 1(2), of "owned (l_ledger (trace w))" "misused (l_ledger (trace w))"]
    by (simp add: skel_held_def)
next
  case (2 w M E)
  then show ?case
    by (cases "l_ledger (trace w)")
      (simp add: final_world_def skel_held_def skel_disconnect_def kref_put_def skel_delete_def nat_kref_def krun ledger_of_append
        tables dev_parts_def if_set_def)
qed

section \<open>The life of a device\<close>

datatype life =
    Open "lcall kenv"
  | Release
  | Disconnect
  | Suspend "lcall kenv"
  | Resume
  | Reset "lcall kenv"

text \<open>
  One call of the kernel into the driver after a successful probe; the number counts the open files. A file whose open
  failed is not released.
\<close>

fun life_step :: "'k kref_ops \<Rightarrow> life \<Rightarrow> nat \<times> 'k lworld \<Rightarrow> nat \<times> 'k lworld" where
  "life_step K (Open E) (n, w) =
     (case run_state (skel_open K E) w of (r, w') \<Rightarrow> (if r = 0 then n + 1 else n, w'))"
| "life_step K Release (n, w) = (n - 1, snd (run_state (skel_release K True) w))"
| "life_step K Disconnect (n, w) = (n, snd (run_state (skel_disconnect K) w))"
| "life_step K (Suspend E) (n, w) = (n, snd (run_state (skel_suspend E) w))"
| "life_step K Resume (n, w) = (n, snd (run_state skel_resume w))"
| "life_step K (Reset E) (n, w) =
     (n, snd (run_state (do { _ \<leftarrow> skel_pre_reset E; skel_post_reset }) w))"

text \<open>The kernel releases only open files, disconnects once, and resets only a bound interface.\<close>

fun life_ok :: "life \<Rightarrow> nat \<times> 'k lworld \<Rightarrow> bool" where
  "life_ok Release (n, w) \<longleftrightarrow> 0 < n"
| "life_ok Disconnect (n, w) \<longleftrightarrow> \<not> gone w"
| "life_ok (Reset E) (n, w) \<longleftrightarrow> \<not> gone w"
| "life_ok _ _ \<longleftrightarrow> True"

fun life_run :: "'k kref_ops \<Rightarrow> life list \<Rightarrow> nat \<times> 'k lworld \<Rightarrow> (nat \<times> 'k lworld) option" where
  "life_run K [] s = Some s"
| "life_run K (e # es) s = (if life_ok e s then life_run K es (life_step K e s) else None)"

text \<open>What the driver holds with \<open>n\<close> open files.\<close>

definition life_held :: "nat \<Rightarrow> 'k lworld \<Rightarrow> lres multiset" where
  "life_held n w =
     (if gone w \<and> n = 0 then {#} else dev_parts w) + (if gone w then {#} else {#Minor#}) + replicate_mset n Awake"

definition life_inv :: "('k \<Rightarrow> nat) \<Rightarrow> lres multiset \<Rightarrow> lres multiset \<Rightarrow> nat \<times> 'k lworld \<Rightarrow> bool" where
  "life_inv refs M B s = (case s of (n, w) \<Rightarrow>
     refs (kref w) = n + (if gone w then 0 else 1) \<and> skel_p w \<noteq> Null \<and> (gone w \<longrightarrow> intfdata w = Null) \<and>
     l_ledger (trace w) = \<lparr>owned = M + life_held n w, misused = B\<rparr>)"

lemma open_inv:
  assumes K: "kref_ok K refs" and i: "life_inv refs M B (n, w)"
  shows "life_inv refs M B (life_step K (Open E) (n, w))"
  using i kref_okD(2) [OF K]
  by (auto simp: life_inv_def skel_open_def krun ledger_of_append tables life_held_def dev_parts_def)

lemma put_inv:
  assumes K: "kref_ok K refs" and c: "0 < refs (kref w)" and p: "skel_p w \<noteq> Null"
    and i: "gone w \<longrightarrow> intfdata w = Null" and r: "refs (kref w) = Suc (n + (if gone w then 0 else 1))"
    and l: "l_ledger (trace w) =
      \<lparr>owned = M + ((if gone w then {#} else {#Minor#}) + replicate_mset n Awake) + dev_parts w, misused = B\<rparr>"
  shows "life_inv refs M B (n, snd (run_state (kref_put K) w))"
  using kref_put_ledger [OF K c p l] i r p
  by (auto simp: life_inv_def life_held_def Let_def dev_parts_def split: if_splits)

lemma release_inv:
  assumes K: "kref_ok K refs" and i: "life_inv refs M B (n, w)" and n: "0 < n"
  shows "life_inv refs M B (life_step K Release (n, w))"
proof -
  obtain m where m: "n = Suc m" using n gr0_conv_Suc by blast
  let ?v = "snd (run_state (kvoid Usb_autopm_put_interface) w)"
  have "life_inv refs M B (m, snd (run_state (kref_put K) ?v))"
    by (rule put_inv [OF K])
      (use i m in \<open>auto simp: life_inv_def life_held_def dev_parts_def krun ledger_of_append tables\<close>)
  then show ?thesis by (simp add: skel_release_def krun case_prod_beta m)
qed

lemma disconnect_inv:
  fixes w :: "'k lworld"
  assumes K: "kref_ok K refs" and i: "life_inv refs M B (n, w)" and g: "\<not> gone w"
  shows "life_inv refs M B (life_step K Disconnect (n, w))"
proof -
  define pre :: "('k lworld, unit) state" where "pre = do {
     modify (\<lambda>w. w\<lparr>intfdata := Null\<rparr>);
     kvoid Usb_deregister_dev;
     kvoid Mutex_lock;
     modify (\<lambda>w. w\<lparr>gone := True\<rparr>);
     kvoid Mutex_unlock;
     kvoid Usb_kill_urb;
     kvoid Usb_kill_anchored_urbs }"
  let ?v = "snd (run_state pre w)"
  have "life_inv refs M B (n, snd (run_state (kref_put K) ?v))"
    by (rule put_inv [OF K])
      (use i g in \<open>auto simp: pre_def life_inv_def life_held_def dev_parts_def krun ledger_of_append tables\<close>)
  moreover have "skel_disconnect K = do { pre; kref_put K }"
    by (simp add: skel_disconnect_def pre_def)
  ultimately show ?thesis by (simp add: krun case_prod_beta)
qed

lemma power_inv:
  assumes "life_inv refs M B (n, w)"
  shows "life_inv refs M B (life_step K (Suspend E) (n, w))"
    and "life_inv refs M B (life_step K Resume (n, w))"
    and "life_inv refs M B (life_step K (Reset E) (n, w))"
  using assms
  by (auto simp: life_inv_def skel_suspend_def skel_resume_def skel_pre_reset_def skel_post_reset_def draw_down_def krun
      ledger_of_append tables life_held_def dev_parts_def)

lemma life_step_inv:
  assumes "kref_ok K refs" and "life_inv refs M B s" and "life_ok e s"
  shows "life_inv refs M B (life_step K e s)"
  using assms by (cases s; cases e) (auto simp only: life_ok.simps intro: open_inv release_inv disconnect_inv power_inv)

lemma life_run_inv:
  assumes "kref_ok K refs" and "life_inv refs M B s" and "life_run K es s = Some s'"
  shows "life_inv refs M B s'"
  using assms(2,3)
proof (induction es arbitrary: s)
  case (Cons e es)
  then have "life_ok e s" and "life_run K es (life_step K e s) = Some s'" by (auto split: if_splits)
  then show ?case using Cons.IH life_step_inv [OF assms(1) Cons.prems(1)] by blast
qed simp

text \<open>
  C7. The device structure of the skeleton driver lives exactly as long as somebody can use it. After a successful
  probe, and however opens, releases, suspends, resets and the one disconnect are interleaved, the reference count is the
  number of open files plus one for the bound interface; the structure, its buffer, its URB and its references to the USB
  device and interface are all held until the interface is disconnected and the last file is closed, and are
  then given back, each exactly once; the minor number is held until the disconnect, and every
  open file holds one wake reference. An open after the disconnect fails.
\<close>

theorem skel_lives_until_last_close:
  assumes "kref_ok K refs" and "no_err_ptr E"
    and "run_state (skel_probe K E) w0 = (0, w)"
    and "life_run K es (0, w) = Some (n, w')"
  shows "refs (kref w') = n + (if gone w' then 0 else 1) \<and>
    l_ledger (trace w') =
      (l_ledger (trace w0))
        \<lparr>owned := owned (l_ledger (trace w0)) + (if gone w' \<and> n = 0 then {#} else dev_parts w') +
           (if gone w' then {#} else {#Minor#}) + replicate_mset n Awake\<rparr> \<and>
    (gone w' \<longrightarrow> (\<forall>F. fst (run_state (skel_open K F) w') = - ENODEV))"
proof -
  let ?l = "l_ledger (trace w0)"
  have "life_inv refs (owned ?l) (misused ?l) (0, w)"
    using skel_probe_ledger [OF assms(1,2) _ assms(3), of "owned ?l" "misused ?l"]
    by (simp add: life_inv_def life_held_def)
  then have "life_inv refs (owned ?l) (misused ?l) (n, w')"
    using assms(1,4) life_run_inv by blast
  then show ?thesis
    by (auto simp: life_inv_def life_held_def skel_open_def krun add.assoc)
qed

definition life_env :: "lcall kenv" where
  "life_env = \<lparr>ret_int = (\<lambda>tr c. 0), ret_ptr = (\<lambda>tr c. Ptr (length tr))\<rparr>"

definition lw0 :: "nat lworld" where
  "lw0 = \<lparr>trace = [], kref = 0, skel_p = Null, udev_p = Null, intf_p = Null, buf_p = Null, urb_p = Null,
     intfdata = Null, gone = False, err = 0, limit_sem = 0, bulk_in_size = 0, bulk_in_endpointAddr = 0,
     bulk_out_endpointAddr = 0\<rparr>"

definition life_demo :: "life list" where
  "life_demo = [Open life_env, Suspend life_env, Open life_env, Release, Reset life_env, Disconnect, Open life_env, Release]"

theorem skel_lives_until_last_close_witness:
  "\<exists>w w'. run_state (skel_probe nat_kref life_env) lw0 = (0, w) \<and> life_run nat_kref life_demo (0, w) = Some (0, w') \<and>
     gone w' \<and> kref w' = 0 \<and> owned (l_ledger (trace w')) = {#}"
proof -
  obtain w where w: "run_state (skel_probe nat_kref life_env) lw0 = (0, w)"
    by (simp add: skel_probe_def probe_buffers_def probe_register_def life_env_def lw0_def nat_kref_def krun)
  then have "\<exists>w'. life_run nat_kref life_demo (0, w) = Some (0, w') \<and> gone w'"
    by (auto simp: skel_probe_def probe_buffers_def probe_register_def life_env_def lw0_def nat_kref_def krun life_demo_def skel_open_def skel_release_def
        skel_disconnect_def skel_suspend_def skel_pre_reset_def skel_post_reset_def draw_down_def kref_put_def
        skel_delete_def)
  then obtain w' where "life_run nat_kref life_demo (0, w) = Some (0, w')" "gone w'" by blast
  moreover have "no_err_ptr life_env" by (simp add: no_err_ptr_def life_env_def)
  ultimately show ?thesis
    using skel_lives_until_last_close [OF nat_kref_ok _ w] w by (auto simp: lw0_def)
qed

end
