(* ===== verification/USB_Ids.thy ===== *)
theory USB_Ids
  imports Kernel_Prelude
begin

text \<open>
  The device tables of the four USB drivers (\<^verbatim>\<open>USB/usbdrv1.c\<close> to \<^verbatim>\<open>USB/usbdrv4.c\<close>) and which driver claims which
  device. The comparison of a device with one entry is the kernel's; it is an argument, with the meaning
  the two macros have (\<open>match_ok\<close>).
\<close>

section \<open>The tables\<close>

datatype usb_device_id =
    USB_DEVICE "16 word" "16 word"
  | USB_DEVICE_AND_INTERFACE_INFO "16 word" "16 word" "8 word" "8 word" "8 word"

text \<open>The empty entry that ends a table in C is the end of the list.\<close>

definition dev_table :: "usb_device_id list" where
  "dev_table =
     [USB_DEVICE 0x05f9 0xffff,
      USB_DEVICE 0x067b 0x2303,
      USB_DEVICE 0x195d 0x1010,
      USB_DEVICE 0x04d9 0xfa31,
      USB_DEVICE 0x046d 0xc52b,
      USB_DEVICE 0x062a 0x4182,
      USB_DEVICE_AND_INTERFACE_INFO 0x0951 0x1665 8 6 0x50]"

definition TEST_USB_VENDOR_ID :: "16 word" where "TEST_USB_VENDOR_ID = 0x0781"
definition TEST_USB_PRODUCT_ID :: "16 word" where "TEST_USB_PRODUCT_ID = 0x5581"

definition test_usb_table :: "usb_device_id list" where
  "test_usb_table = [USB_DEVICE TEST_USB_VENDOR_ID TEST_USB_PRODUCT_ID]"

definition USB_SKEL_VENDOR_ID :: "16 word" where "USB_SKEL_VENDOR_ID = 0x0781"
definition USB_SKEL_PRODUCT_ID :: "16 word" where "USB_SKEL_PRODUCT_ID = 0x5581"

definition skel_table :: "usb_device_id list" where
  "skel_table = [USB_DEVICE USB_SKEL_VENDOR_ID USB_SKEL_PRODUCT_ID]"

definition TEST_USB1_VENDOR_ID :: "16 word" where "TEST_USB1_VENDOR_ID = 0x0781"
definition TEST_USB1_PRODUCT_ID :: "16 word" where "TEST_USB1_PRODUCT_ID = 0x5581"

definition test_usb1_table :: "usb_device_id list" where
  "test_usb1_table = [USB_DEVICE TEST_USB1_VENDOR_ID TEST_USB1_PRODUCT_ID]"

section \<open>Which driver claims a device\<close>

record usb_ident =
  vendor_id :: "16 word"
  product_id :: "16 word"
  if_class :: "8 word"
  if_subclass :: "8 word"
  if_protocol :: "8 word"

definition match_ok :: "(usb_ident \<Rightarrow> usb_device_id \<Rightarrow> bool) \<Rightarrow> bool" where
  "match_ok matches \<longleftrightarrow>
     (\<forall>d v p. matches d (USB_DEVICE v p) \<longleftrightarrow> vendor_id d = v \<and> product_id d = p) \<and>
     (\<forall>d v p c s i. matches d (USB_DEVICE_AND_INTERFACE_INFO v p c s i) \<longleftrightarrow>
        vendor_id d = v \<and> product_id d = p \<and> if_class d = c \<and> if_subclass d = s \<and> if_protocol d = i)"

text \<open>The drivers by the names they register under.\<close>

definition usb_drivers :: "(string \<times> usb_device_id list) list" where
  "usb_drivers = [(''usb-test'', dev_table), (''test_usb_vert'', test_usb_table), (''skeleton'', skel_table),
     (''test_usb1_bulk'', test_usb1_table)]"

definition claimants :: "(usb_ident \<Rightarrow> usb_device_id \<Rightarrow> bool) \<Rightarrow> usb_ident \<Rightarrow> string list" where
  "claimants matches d = map fst (filter (\<lambda>p. list_ex (matches d) (snd p)) usb_drivers)"

lemmas id_defs = dev_table_def test_usb_table_def skel_table_def test_usb1_table_def TEST_USB_VENDOR_ID_def TEST_USB_PRODUCT_ID_def
  USB_SKEL_VENDOR_ID_def USB_SKEL_PRODUCT_ID_def TEST_USB1_VENDOR_ID_def TEST_USB1_PRODUCT_ID_def

text \<open>
  Three of the drivers claim the same device, so it goes to the one that is loaded first; no device is claimed by these and by
  the mouse driver.
\<close>

lemma usb_same_device:
  assumes "match_ok matches" and "vendor_id d = 0x0781" and "product_id d = 0x5581"
  shows "claimants matches d = [''test_usb_vert'', ''skeleton'', ''test_usb1_bulk'']"
  using assms by (simp add: claimants_def usb_drivers_def id_defs match_ok_def)

lemma usb_one_claimant:
  assumes "match_ok matches" and "vendor_id d \<noteq> 0x0781 \<or> product_id d \<noteq> 0x5581"
  shows "claimants matches d = (if list_ex (matches d) dev_table then [''usb-test''] else [])"
  using assms by (auto simp: claimants_def usb_drivers_def id_defs match_ok_def)

text \<open>
  The table of the mouse driver names a storage interface of one stick next to the mice: its class is 8, mass storage, and
  its probe goes on only with an interrupt endpoint.
\<close>

lemma usb_storage_claimed:
  assumes "match_ok matches" and "vendor_id d = 0x0951" and "product_id d = 0x1665"
    and "if_class d = 8" and "if_subclass d = 6" and "if_protocol d = 0x50"
  shows "claimants matches d = [''usb-test'']"
  using assms by (simp add: claimants_def usb_drivers_def id_defs match_ok_def)

end
