(* ===== verification/USB_Mouse.thy ===== *)
theory USB_Mouse
  imports Kernel_Prelude
begin

text \<open>
  The USB mouse driver \<^verbatim>\<open>USB/usbdrv1.c\<close> (probe with its labels, disconnect, interrupt handler, open, close, load and
  unload) and the small USB driver \<^verbatim>\<open>USB/usbdrv2.c\<close>.
\<close>

unbundle bit_operations_syntax

section \<open>Strings of bounded size\<close>

text \<open>\<^verbatim>\<open>strlcpy\<close>, \<^verbatim>\<open>strlcat\<close> and \<^verbatim>\<open>snprintf\<close>: the content of the destination, without its zero.\<close>

definition strlcpy :: "nat \<Rightarrow> string \<Rightarrow> string" where
  "strlcpy n src = take (n - 1) src"

definition strlcat :: "nat \<Rightarrow> string \<Rightarrow> string \<Rightarrow> string" where
  "strlcat n dst src = dst @ take (n - 1 - length dst) src"

definition hex_digit :: "nat \<Rightarrow> char" where
  "hex_digit d = (if d < 10 then char_of (48 + d) else char_of (87 + d))"

text \<open>\<^verbatim>\<open>%04x\<close> of a 16-bit value.\<close>

definition hex4 :: "16 word \<Rightarrow> string" where
  "hex4 x = map (\<lambda>i. hex_digit (unat (drop_bit (4 * i) x AND 15))) [3, 2, 1, 0]"

section \<open>State\<close>

datatype mcall =
    Kzalloc_mouse
  | Input_allocate_device
  | Usb_alloc_coherent
  | Usb_alloc_urb
  | Input_register_device kptr
  | Register_chrdev int
  | Kfree kptr
  | Input_free_device kptr
  | Usb_free_coherent kptr
  | Usb_free_urb kptr
  | Unregister_chrdev int
  | Usb_deregister_dev
  | Usb_register_dev
  | Usb_submit_urb kptr
  | Usb_kill_urb kptr
  | Input_sync kptr
  | Usb_register
  | Usb_deregister
  | Printk string
  | Log_endpoint nat "8 word \<times> 8 word \<times> 16 word"
  | Log_report "int list"

record usb_mouse =
  name :: string
  phys :: string
  has_usbdev :: bool
  input :: kptr
  irq :: kptr
  data :: kptr

record input_dev =
  evbit :: "64 word"
  keybit :: "64 word"
  relbit :: "64 word"

text \<open>What the driver reads of the interface and of the device.\<close>

record usb_iface =
  bNumEndpoints :: nat
  int_in :: bool
  maxp :: int
  manufacturer :: "string option"
  product :: "string option"
  idVendor :: "16 word"
  idProduct :: "16 word"
  devpath :: string

record mworld = "mcall kworld" +
  registered :: bool
  current_data :: int
  mouse_p :: kptr
  mouse :: usb_mouse
  input_caps :: input_dev
  urb_len :: int
  intfdata :: kptr

definition MAJOR_no :: int where "MAJOR_no = 92"

section \<open>Probe\<close>

definition mouse_name :: "usb_iface \<Rightarrow> string" where
  "mouse_name d =
     (let n0 = (case manufacturer d of Some m \<Rightarrow> strlcpy 128 m | None \<Rightarrow> []);
          n1 = (case product d of
                  Some p \<Rightarrow> strlcat 128 (if manufacturer d \<noteq> None then strlcat 128 n0 '' '' else n0) p
                | None \<Rightarrow> n0)
      in if n1 = [] then take 127 (''USB HIDBP Mouse '' @ hex4 (idVendor d) @ '':'' @ hex4 (idProduct d)) else n1)"

definition mouse_phys :: "usb_iface \<Rightarrow> string" where
  "mouse_phys d = strlcat 64 (take 63 (devpath d)) ''/input0''"

definition BIT_MASK :: "nat \<Rightarrow> 64 word" where
  "BIT_MASK nr = push_bit (nr mod 64) 1"

text \<open>\<^verbatim>\<open>EV_KEY\<close>, \<^verbatim>\<open>EV_REL\<close>; \<^verbatim>\<open>BTN_LEFT\<close> to \<^verbatim>\<open>BTN_EXTRA\<close>; \<^verbatim>\<open>REL_X\<close>, \<^verbatim>\<open>REL_Y\<close>, \<^verbatim>\<open>REL_WHEEL\<close>.\<close>

definition mouse_caps :: input_dev where
  "mouse_caps =
     (let k = BIT_MASK 0x110 OR BIT_MASK 0x111 OR BIT_MASK 0x112; r = BIT_MASK 0 OR BIT_MASK 1
      in \<lparr>evbit = BIT_MASK 1 OR BIT_MASK 2, keybit = k OR (BIT_MASK 0x113 OR BIT_MASK 0x114), relbit = r OR BIT_MASK 8\<rparr>)"

text \<open>The labels \<^verbatim>\<open>fail1\<close>, \<^verbatim>\<open>fail2\<close> and \<^verbatim>\<open>fail3\<close>.\<close>

definition fail1 :: "kptr \<Rightarrow> kptr \<Rightarrow> int \<Rightarrow> (mworld, int) state" where
  "fail1 m i error = do { kvoid (Input_free_device i); kvoid (Kfree m); ret error }"

definition fail2 :: "kptr \<Rightarrow> kptr \<Rightarrow> kptr \<Rightarrow> int \<Rightarrow> (mworld, int) state" where
  "fail2 m i d error = do { kvoid (Usb_free_coherent d); fail1 m i error }"

definition fail3 :: "kptr \<Rightarrow> kptr \<Rightarrow> kptr \<Rightarrow> kptr \<Rightarrow> int \<Rightarrow> (mworld, int) state" where
  "fail3 m i d u error = do { kvoid (Usb_free_urb u); fail2 m i d error }"

text \<open>From the filling of the structure on.\<close>

definition mouse_register :: "mcall kenv \<Rightarrow> usb_iface \<Rightarrow> kptr \<Rightarrow> kptr \<Rightarrow> kptr \<Rightarrow> kptr \<Rightarrow> (mworld, int) state" where
  "mouse_register E d m i c u = do {
     modify (\<lambda>w. w\<lparr>mouse_p := m, mouse := \<lparr>name = mouse_name d, phys = mouse_phys d, has_usbdev = True,
       input = i, irq = u, data = c\<rparr>, input_caps := mouse_caps, urb_len := (if maxp d > 8 then 8 else maxp d)\<rparr>);
     error \<leftarrow> kint E (Input_register_device i);
     if error \<noteq> 0 then fail3 m i c u error
     else do {
       modify (\<lambda>w. w\<lparr>intfdata := m\<rparr>);
       t \<leftarrow> kint E (Register_chrdev MAJOR_no);
       (if t < 0 then do { kvoid (Printk ''mymouse registration failed''); modify (\<lambda>w. w\<lparr>registered := False\<rparr>) }
        else do { kvoid (Printk ''mymouse registration successful''); modify (\<lambda>w. w\<lparr>registered := True\<rparr>) });
       ret t } }"

text \<open>From the allocation of the buffer on.\<close>

definition mouse_alloc :: "mcall kenv \<Rightarrow> usb_iface \<Rightarrow> kptr \<Rightarrow> kptr \<Rightarrow> (mworld, int) state" where
  "mouse_alloc E d m i = do {
     c \<leftarrow> kptr_call E Usb_alloc_coherent;
     if c = Null then fail1 m i (- ENOMEM)
     else do {
       u \<leftarrow> kptr_call E Usb_alloc_urb;
       if u = Null then fail2 m i c (- ENOMEM) else mouse_register E d m i c u } }"

definition dev_probe :: "mcall kenv \<Rightarrow> usb_iface \<Rightarrow> (mworld, int) state" where
  "dev_probe E d = do {
     kvoid (Printk ''USB interface now probed'');
     kvoid (Printk ''Number of endpoints'');
     kvoid (Printk ''Interface class'');
     if bNumEndpoints d \<noteq> 1 then ret (- ENODEV)
     else if \<not> int_in d then ret (- ENODEV)
     else do {
       m \<leftarrow> kptr_call E Kzalloc_mouse;
       i \<leftarrow> kptr_call E Input_allocate_device;
       if m = Null \<or> i = Null then fail1 m i (- ENOMEM) else mouse_alloc E d m i } }"

definition dev_disconnect :: "(mworld, unit) state" where
  "dev_disconnect = do {
     kvoid (Printk ''USB disconnecting'');
     kvoid Usb_deregister_dev;
     r \<leftarrow> gets registered;
     (if r then kvoid (Unregister_chrdev MAJOR_no) else ret ());
     modify (\<lambda>w. w\<lparr>registered := False\<rparr>) }"

section \<open>The handlers\<close>

definition usb_mouse_open :: "mcall kenv \<Rightarrow> kptr \<Rightarrow> (mworld, int) state" where
  "usb_mouse_open E drvdata = do {
     kvoid (Printk ''usb mouse open'');
     m \<leftarrow> gets mouse;
     if drvdata = Null then do { kvoid (Printk ''no mouse''); ret (- 1) }
     else if \<not> has_usbdev m then do { kvoid (Printk ''no mouse->usbdev''); ret (- 1) }
     else if irq m = Null then do { kvoid (Printk ''No mouse->irq''); ret (- 1) }
     else do {
       kvoid (Printk ''Got +1'');
       kvoid (Printk ''Got +2'');
       r \<leftarrow> kint E (Usb_submit_urb (irq m));
       (if r \<noteq> 0 then kvoid (Printk ''Failed submiting urb'') else ret ());
       ret 0 } }"

definition usb_mouse_close :: "(mworld, unit) state" where
  "usb_mouse_close = do { m \<leftarrow> gets mouse; kvoid (Usb_kill_urb (irq m)) }"

definition usb_read :: "(mworld, int) state" where
  "usb_read = do { kvoid (Printk ''Reading device...''); ret 0 }"

text \<open>The message about the buttons, from the second and the sixth byte of the report.\<close>

definition button_message :: "int list \<Rightarrow> string option" where
  "button_message ds =
     (let b = (word_of_int (ds ! 1) :: 32 word) in
      if b AND 1 \<noteq> 0 then Some ''Left mouse button clicked!''
      else if b AND 2 \<noteq> 0 then Some ''Right mouse button clicked!''
      else if b AND 4 \<noteq> 0 then Some ''Wheel button clicked!''
      else if ds ! 5 \<noteq> 0 then Some ''Wheel moves!'' else None)"

text \<open>The completion of the interrupt transfer, with the eight signed bytes of the report.\<close>

definition usb_mouse_irq :: "mcall kenv \<Rightarrow> int \<Rightarrow> int list \<Rightarrow> (mworld, unit) state" where
  "usb_mouse_irq E status ds =
     (if status = - ECONNRESET \<or> status = - ENOENT \<or> status = - ESHUTDOWN then ret ()
      else do {
        m \<leftarrow> gets mouse;
        (if status = 0 then kvoid (Input_sync (input m)) else ret ());
        r \<leftarrow> kint E (Usb_submit_urb (irq m));
        (if r \<noteq> 0 then kvoid (Printk ''can't resubmit intr'') else ret ());
        kvoid (Log_report ds);
        modify (\<lambda>w. w\<lparr>current_data := ds ! 0\<rparr>);
        (case button_message ds of Some s \<Rightarrow> kvoid (Printk s) | None \<Rightarrow> ret ()) })"

definition usb_init :: "mcall kenv \<Rightarrow> (mworld, int) state" where
  "usb_init E = do {
     kvoid (Printk ''USB driver loaded into kernel tree'');
     err \<leftarrow> kint E Usb_register;
     (if err \<noteq> 0 then kvoid (Printk ''usb_register failed'') else ret ());
     ret err }"

definition usb_exit :: "(mworld, unit) state" where
  "usb_exit = kvoid Usb_deregister"

section \<open>The small driver \<^verbatim>\<open>usbdrv2.c\<close>\<close>

definition test_usb_open :: "(mworld, int) state" where "test_usb_open = ret 0"
definition test_usb_close :: "(mworld, int) state" where "test_usb_close = ret 0"

text \<open>The loop that logs the descriptors of the endpoints.\<close>

fun log_endpoints :: "nat \<Rightarrow> (8 word \<times> 8 word \<times> 16 word) list \<Rightarrow> (mworld, unit) state" where
  "log_endpoints i [] = ret ()"
| "log_endpoints i (ed # eds) = do { kvoid (Log_endpoint i ed); log_endpoints (Suc i) eds }"

definition test_usb_probe :: "(8 word \<times> 8 word \<times> 16 word) list \<Rightarrow> mcall kenv \<Rightarrow> (mworld, int) state" where
  "test_usb_probe eds E = do {
     kvoid (Printk ''TEST USB i/f now probed'');
     kvoid (Printk ''ID->bNumEndpoints'');
     kvoid (Printk ''ID->bInterfaceClass'');
     log_endpoints 0 eds;
     retval \<leftarrow> kint E Usb_register_dev;
     if retval \<noteq> 0 then do { kvoid (Printk ''Not able to get a minor for this device.''); ret retval }
     else do { kvoid (Printk ''Minor obtained''); ret 0 } }"

definition test_usb_disconnect :: "(mworld, unit) state" where
  "test_usb_disconnect = do {
     kvoid (Printk ''Releasing Minor'');
     kvoid Usb_deregister_dev;
     kvoid (Printk ''TEST USB i/f now disconnected'') }"

definition test_usb_init :: "mcall kenv \<Rightarrow> (mworld, int) state" where
  "test_usb_init E = do {
     result \<leftarrow> kint E Usb_register;
     (if result \<noteq> 0 then kvoid (Printk ''usb_register failed'') else ret ());
     kvoid (Printk ''TEST usb_registered'');
     ret result }"

definition test_usb_exit :: "(mworld, unit) state" where
  "test_usb_exit = do { kvoid Usb_deregister; kvoid (Printk ''TEST USB usb_deregistered'') }"

section \<open>The ledger\<close>

datatype mres = Mouse kptr | InputDev kptr | Coherent kptr | Urb kptr | Chrdev int | Minor | Driver

definition m_acq :: "mcall kevent \<Rightarrow> mres option" where
  "m_acq ev = (case ev of
     RetP Kzalloc_mouse p \<Rightarrow> if is_addr p then Some (Mouse p) else None
   | RetP Input_allocate_device p \<Rightarrow> if is_addr p then Some (InputDev p) else None
   | RetP Usb_alloc_coherent p \<Rightarrow> if is_addr p then Some (Coherent p) else None
   | RetP Usb_alloc_urb p \<Rightarrow> if is_addr p then Some (Urb p) else None
   | RetI (Register_chrdev n) r \<Rightarrow> if 0 \<le> r then Some (Chrdev n) else None
   | RetI Usb_register_dev r \<Rightarrow> if r = 0 then Some Minor else None
   | RetI Usb_register r \<Rightarrow> if r = 0 then Some Driver else None
   | _ \<Rightarrow> None)"

definition m_rel :: "mcall kevent \<Rightarrow> mres option" where
  "m_rel ev = (case ev of
     Void (Kfree p) \<Rightarrow> if p = Null then None else Some (Mouse p)
   | Void (Input_free_device p) \<Rightarrow> if p = Null then None else Some (InputDev p)
   | Void (Usb_free_coherent p) \<Rightarrow> Some (Coherent p)
   | Void (Usb_free_urb p) \<Rightarrow> if p = Null then None else Some (Urb p)
   | Void (Unregister_chrdev n) \<Rightarrow> Some (Chrdev n)
   | Void Usb_deregister \<Rightarrow> Some Driver
   | _ \<Rightarrow> None)"

declare m_acq_def [tables] m_rel_def [tables]

abbreviation m_ledger :: "mcall ktrace \<Rightarrow> mres ledger" where
  "m_ledger \<equiv> ledger_of m_acq m_rel"

text \<open>In \<^verbatim>\<open>usbdrv2.c\<close> the interface has a minor number, which \<^verbatim>\<open>usb_deregister_dev\<close> gives back.\<close>

definition t_rel :: "mcall kevent \<Rightarrow> mres option" where
  "t_rel ev = (case ev of Void Usb_deregister_dev \<Rightarrow> Some Minor | _ \<Rightarrow> m_rel ev)"

declare t_rel_def [tables]

lemma log_endpoints_run:
  "run_state (log_endpoints i eds) w = ((), w\<lparr>trace := trace w @ map (\<lambda>(j, ed). Void (Log_endpoint j ed)) (enumerate i eds)\<rparr>)"
  by (induction eds arbitrary: i w) (simp_all add: krun)

lemma log_endpoints_ledger:
  "fold (ledger_step m_acq t_rel) (map (\<lambda>(j, ed). Void (Log_endpoint j ed)) (enumerate i eds)) l = l"
  by (induction eds arbitrary: i l) (simp_all add: tables)

interpretation usb1_mod: kernel_module usb_init "\<lambda>_. usb_exit" m_acq m_rel "\<lambda>_. {#Driver#}" "\<lambda>_. True"
proof (unfold_locales, goal_cases)
  case (1 E w w')
  then show ?case by (auto simp: usb_init_def krun ledger_of_append tables split: if_splits)
next
  case (2 w M E)
  then show ?case
    by (cases "m_ledger (trace w)") (simp add: usb_exit_def final_world_def krun ledger_of_append tables)
qed

interpretation usb2_mod: kernel_module test_usb_init "\<lambda>_. test_usb_exit" m_acq t_rel "\<lambda>_. {#Driver#}" "\<lambda>_. True"
proof (unfold_locales, goal_cases)
  case (1 E w w')
  then show ?case by (auto simp: test_usb_init_def krun ledger_of_append tables split: if_splits)
next
  case (2 w M E)
  then show ?case
    by (cases "ledger_of m_acq t_rel (trace w)") (simp add: test_usb_exit_def final_world_def krun ledger_of_append tables)
qed

interpretation usb2_dev: kernel_module "test_usb_probe eds" "\<lambda>_. test_usb_disconnect" m_acq t_rel "\<lambda>_. {#Minor#}" "\<lambda>_. True"
  for eds
proof (unfold_locales, goal_cases)
  case (1 E w w')
  then show ?case
    by (auto simp: test_usb_probe_def log_endpoints_run krun ledger_of_append log_endpoints_ledger tables split: if_splits)
next
  case (2 w M E)
  then show ?case
    by (cases "ledger_of m_acq t_rel (trace w)")
      (simp add: test_usb_disconnect_def final_world_def krun ledger_of_append tables)
qed

section \<open>Properties of the mouse driver\<close>

definition mouse_parts :: "kptr \<Rightarrow> kptr \<Rightarrow> kptr \<Rightarrow> kptr \<Rightarrow> mres multiset" where
  "mouse_parts m i c u = {#Mouse m, InputDev i, Coherent c, Urb u#}"

lemma mouse_register_ledger:
  assumes "run_state (mouse_register E d m i c u) w = (r, w1)"
    and "m_ledger (trace w) = \<lparr>owned = M + mouse_parts m i c u, misused = B\<rparr>" and "m \<noteq> Null" "i \<noteq> Null" "u \<noteq> Null"
  shows "r \<noteq> 0 \<and> m_ledger (trace w1) = \<lparr>owned = M, misused = B\<rparr> \<or>
    m_ledger (trace w1) = \<lparr>owned = M + mouse_parts m i c u + (if 0 \<le> r then {#Chrdev MAJOR_no#} else {#}), misused = B\<rparr> \<and>
    registered w1 = (0 \<le> r)"
  using assms
  by (auto simp: mouse_register_def fail3_def fail2_def fail1_def mouse_parts_def krun ledger_of_append tables split: if_splits)

lemma disconnect_ledger:
  assumes "m_ledger (trace w) = \<lparr>owned = M + (if registered w then {#Chrdev MAJOR_no#} else {#}), misused = B\<rparr>"
  shows "m_ledger (trace (final_world dev_disconnect w)) = \<lparr>owned = M, misused = B\<rparr>"
  using assms by (simp add: dev_disconnect_def final_world_def krun ledger_of_append tables)

definition part :: "kptr \<Rightarrow> mres \<Rightarrow> mres multiset" where
  "part p r = (if p = Null then {#} else {#r#})"

lemma fail1_ledger:
  assumes "run_state (fail1 m i e) w = (r, w1)"
    and "m_ledger (trace w) = \<lparr>owned = M + part m (Mouse m) + part i (InputDev i), misused = B\<rparr>"
  shows "r = e \<and> m_ledger (trace w1) = \<lparr>owned = M, misused = B\<rparr>"
  using assms
  by (cases "m = Null"; cases "i = Null") (auto simp: fail1_def part_def krun ledger_of_append tables)

lemma mouse_alloc_ledger:
  assumes e: "no_err_ptr E" and run: "run_state (mouse_alloc E d m i) w = (r, w1)" and n: "m \<noteq> Null" "i \<noteq> Null"
    and l: "m_ledger (trace w) = \<lparr>owned = M + part m (Mouse m) + part i (InputDev i), misused = B\<rparr>"
  shows "r \<noteq> 0 \<and> m_ledger (trace w1) = \<lparr>owned = M, misused = B\<rparr> \<or>
    (\<exists>c u. m_ledger (trace w1) =
        \<lparr>owned = M + mouse_parts m i c u + (if 0 \<le> r then {#Chrdev MAJOR_no#} else {#}), misused = B\<rparr> \<and>
      registered w1 = (0 \<le> r))"
proof -
  let ?c = "ret_ptr E (trace w) Usb_alloc_coherent"
  let ?wc = "w\<lparr>trace := trace w @ [RetP Usb_alloc_coherent ?c]\<rparr>"
  let ?u = "ret_ptr E (trace ?wc) Usb_alloc_urb"
  let ?wu = "?wc\<lparr>trace := trace ?wc @ [RetP Usb_alloc_urb ?u]\<rparr>"
  have ne: "\<not> IS_ERR (ret_ptr E tr c)" for tr c using e by (simp add: no_err_ptr_def)
  consider (c) "?c = Null" | (u) "?c \<noteq> Null" "?u = Null" | (reg) "?c \<noteq> Null" "?u \<noteq> Null" by blast
  then show ?thesis
  proof cases
    case c
    have "run_state (fail1 m i (- ENOMEM)) ?wc = (r, w1)" using run c by (simp add: mouse_alloc_def krun)
    then show ?thesis
      using fail1_ledger [of m i "- ENOMEM" ?wc r w1 M B] l c by (simp add: ledger_of_append tables)
  next
    case u
    have "run_state (fail2 m i ?c (- ENOMEM)) ?wu = (r, w1)" using run u by (simp add: mouse_alloc_def krun)
    then have f: "run_state (fail1 m i (- ENOMEM)) (?wu\<lparr>trace := trace ?wu @ [Void (Usb_free_coherent ?c)]\<rparr>) = (r, w1)"
      by (simp add: fail2_def krun)
    show ?thesis
      using fail1_ledger [OF f, of M B] l u ne by (simp add: ledger_of_append tables)
  next
    case reg
    have "run_state (mouse_register E d m i ?c ?u) ?wu = (r, w1)" using run reg by (simp add: mouse_alloc_def krun)
    moreover have "m_ledger (trace ?wu) = \<lparr>owned = M + mouse_parts m i ?c ?u, misused = B\<rparr>"
      using l reg ne n by (simp add: ledger_of_append tables mouse_parts_def part_def)
    ultimately show ?thesis using mouse_register_ledger n reg(2) by blast
  qed
qed

lemma dev_probe_ledger:
  assumes e: "no_err_ptr E" and run: "run_state (dev_probe E d) w = (r, w1)"
    and l: "m_ledger (trace w) = \<lparr>owned = M, misused = B\<rparr>"
  shows "r \<noteq> 0 \<and> m_ledger (trace w1) = \<lparr>owned = M, misused = B\<rparr> \<or>
    (\<exists>m i c u. m_ledger (trace w1) =
        \<lparr>owned = M + mouse_parts m i c u + (if 0 \<le> r then {#Chrdev MAJOR_no#} else {#}), misused = B\<rparr> \<and>
      registered w1 = (0 \<le> r))"
proof (cases "bNumEndpoints d = 1 \<and> int_in d")
  case True
  let ?w0 = "w\<lparr>trace := trace w @ [Void (Printk ''USB interface now probed''), Void (Printk ''Number of endpoints''),
    Void (Printk ''Interface class'')]\<rparr>"
  let ?m = "ret_ptr E (trace ?w0) Kzalloc_mouse"
  let ?wm = "?w0\<lparr>trace := trace ?w0 @ [RetP Kzalloc_mouse ?m]\<rparr>"
  let ?i = "ret_ptr E (trace ?wm) Input_allocate_device"
  let ?wi = "?wm\<lparr>trace := trace ?wm @ [RetP Input_allocate_device ?i]\<rparr>"
  have ne: "\<not> IS_ERR (ret_ptr E tr c)" for tr c using e by (simp add: no_err_ptr_def)
  have k: "run_state (if ?m = Null \<or> ?i = Null then fail1 ?m ?i (- ENOMEM) else mouse_alloc E d ?m ?i) ?wi = (r, w1)"
    using run True by (simp add: dev_probe_def krun cong: if_cong)
  have li: "m_ledger (trace ?wi) = \<lparr>owned = M + part ?m (Mouse ?m) + part ?i (InputDev ?i), misused = B\<rparr>"
    using l ne by (cases "?m = Null"; cases "?i = Null") (simp_all add: ledger_of_append tables part_def)
  show ?thesis
  proof (cases "?m = Null \<or> ?i = Null")
    case True
    then have f: "run_state (fail1 ?m ?i (- ENOMEM)) ?wi = (r, w1)" using k by (simp only: if_True)
    show ?thesis using fail1_ledger [OF f li] by simp
  next
    case False
    have "run_state (mouse_alloc E d ?m ?i) ?wi = (r, w1)" using k by (simp only: if_not_P [OF False])
    moreover have "?m \<noteq> Null" "?i \<noteq> Null" using False by blast+
    ultimately show ?thesis using mouse_alloc_ledger [OF e _ _ _ li] by blast
  qed
next
  case False
  then show ?thesis using run l by (auto simp: dev_probe_def krun ledger_of_append tables split: if_splits)
qed

text \<open>
  C30. What the probe of the mouse driver holds. Up to the registration of the character device a failure gives everything back.
  From there on the result of the probe is that of the registration, and the mouse structure, the input device, the report buffer
  and the URB are held whether it succeeded or not; the disconnect gives back the character device, but none of the four.
\<close>

theorem mouse_probe_holds:
  assumes "no_err_ptr E" and "run_state (dev_probe E d) w = (r, w1)" and "final_world dev_disconnect w1 = w2"
  shows "r \<noteq> 0 \<and> m_ledger (trace w1) = m_ledger (trace w) \<or>
    (\<exists>m i c u.
      m_ledger (trace w1) = (m_ledger (trace w))
        \<lparr>owned := owned (m_ledger (trace w)) + mouse_parts m i c u + (if 0 \<le> r then {#Chrdev MAJOR_no#} else {#})\<rparr> \<and>
      m_ledger (trace w2) = (m_ledger (trace w))\<lparr>owned := owned (m_ledger (trace w)) + mouse_parts m i c u\<rparr>)"
proof -
  obtain M B where l: "m_ledger (trace w) = \<lparr>owned = M, misused = B\<rparr>" by (cases "m_ledger (trace w)")
  from dev_probe_ledger [OF assms(1,2) l] show ?thesis
  proof (elim disjE exE conjE)
    fix m i c u
    assume w1: "m_ledger (trace w1) =
        \<lparr>owned = M + mouse_parts m i c u + (if 0 \<le> r then {#Chrdev MAJOR_no#} else {#}), misused = B\<rparr>"
      and "registered w1 = (0 \<le> r)"
    then have "m_ledger (trace w2) = \<lparr>owned = M + mouse_parts m i c u, misused = B\<rparr>"
      using disconnect_ledger [of w1 "M + mouse_parts m i c u" B] assms(3) by simp
    then show ?thesis using w1 l by (intro disjI2 exI [of _ m] exI [of _ i] exI [of _ c] exI [of _ u]) simp
  qed (simp add: l)
qed

definition mouse_env :: "int \<Rightarrow> mcall kenv" where
  "mouse_env t = \<lparr>ret_int = (\<lambda>tr c. case c of Register_chrdev _ \<Rightarrow> t | _ \<Rightarrow> 0), ret_ptr = (\<lambda>tr c. Ptr (length tr))\<rparr>"

definition a_mouse :: usb_iface where
  "a_mouse = \<lparr>bNumEndpoints = 1, int_in = True, maxp = 4, manufacturer = Some ''ACME'', product = None, idVendor = 0x046d,
     idProduct = 0xc52b, devpath = ''usb-0000:00:14.0-2''\<rparr>"

definition mw0 :: mworld where
  "mw0 = \<lparr>trace = [], registered = False, current_data = 0, mouse_p = Null,
     mouse = \<lparr>name = [], phys = [], has_usbdev = False, input = Null, irq = Null, data = Null\<rparr>,
     input_caps = \<lparr>evbit = 0, keybit = 0, relbit = 0\<rparr>, urb_len = 0, intfdata = Null\<rparr>"

lemma mw0_trace: "trace mw0 = []"
  by (simp add: mw0_def)

theorem mouse_probe_holds_witness:
  "\<exists>m i c u. result (dev_probe (mouse_env (- EBUSY)) a_mouse) mw0 = - EBUSY \<and>
     owned (m_ledger (trace (final_world dev_disconnect (final_world (dev_probe (mouse_env (- EBUSY)) a_mouse) mw0)))) =
       mouse_parts m i c u"
proof -
  have e: "no_err_ptr (mouse_env (- EBUSY))" by (simp add: no_err_ptr_def mouse_env_def)
  obtain r w1 where run: "run_state (dev_probe (mouse_env (- EBUSY)) a_mouse) mw0 = (r, w1)" by fastforce
  have "r = - EBUSY" "owned (m_ledger (trace w1)) \<noteq> {#}"
    using run
    by (auto simp: dev_probe_def mouse_alloc_def mouse_register_def mouse_env_def a_mouse_def mw0_def krun ledger_of_def
        tables)
  then show ?thesis
    using mouse_probe_holds [OF e run refl] mw0_trace
    unfolding result_def final_world_def run by (fastforce simp: run)
qed

text \<open>The name without any limit on its size.\<close>

definition full_name :: "usb_iface \<Rightarrow> string" where
  "full_name d =
     (let s = (case (manufacturer d, product d) of
                 (Some m, Some p) \<Rightarrow> m @ '' '' @ p
               | (Some m, None) \<Rightarrow> m
               | (None, Some p) \<Rightarrow> p
               | (None, None) \<Rightarrow> [])
      in if s = [] then ''USB HIDBP Mouse '' @ hex4 (idVendor d) @ '':'' @ hex4 (idProduct d) else s)"

lemma strlcat_take: "strlcat n (take (n - 1) a) b = take (n - 1) (a @ b)"
  by (simp add: strlcat_def min_def)

text \<open>
  C39. The name of the mouse, put together with three bounded copies, is the unbounded name cut to 127 characters, so that it fits
  its buffer with the terminating zero, and it is never empty; the path, too, fits its buffer, and the transfer never asks for more
  than the eight bytes of the report buffer.
\<close>

theorem mouse_name_equiv:
  "mouse_name d = take 127 (full_name d) \<and> length (mouse_name d) < 128 \<and> mouse_name d \<noteq> [] \<and>
   length (mouse_phys d) < 64 \<and> urb_len (final_world (mouse_register E d m i c u) w) \<le> 8"
proof -
  have h: "hex4 x \<noteq> []" for x by (simp add: hex4_def)
  have t: "(take 127 s = []) = (s = [])" for s :: string by (cases s) simp_all
  have two: "strlcat 128 (strlcat 128 (strlcpy 128 a) b) c = take 127 (a @ b @ c)" for a b c
    using strlcat_take [of 128 a b] strlcat_take [of 128 "a @ b" c] by (simp add: strlcpy_def del: take_append)
  have n: "mouse_name d = take 127 (full_name d)"
  proof (cases "manufacturer d"; cases "product d")
    fix a b assume "manufacturer d = Some a" "product d = Some b"
    then show ?thesis by (simp add: mouse_name_def full_name_def two t Let_def del: take_append)
  next
    fix a assume "manufacturer d = Some a" "product d = None"
    then show ?thesis by (simp add: mouse_name_def full_name_def strlcpy_def t Let_def)
  next
    fix b assume "manufacturer d = None" "product d = Some b"
    then show ?thesis by (simp add: mouse_name_def full_name_def strlcat_def t Let_def)
  qed (simp add: mouse_name_def full_name_def Let_def)
  moreover have "full_name d \<noteq> []" by (auto simp: full_name_def Let_def)
  moreover have "length (mouse_phys d) < 64" by (auto simp: mouse_phys_def strlcat_def min_def)
  moreover have "urb_len (final_world (mouse_register E d m i c u) w) \<le> 8"
    by (simp add: mouse_register_def fail3_def fail2_def fail1_def final_world_def krun)
  ultimately show ?thesis by simp
qed

text \<open>The transfer is submitted again after every completion but an unlink, and the last report is kept.\<close>

lemma usb_mouse_irq_resubmits:
  assumes "status \<notin> {- ECONNRESET, - ENOENT, - ESHUTDOWN}"
  shows "RetI (Usb_submit_urb (irq (mouse w))) (ret_int E (trace w @ (if status = 0 then [Void (Input_sync (input (mouse w)))] else []))
      (Usb_submit_urb (irq (mouse w)))) \<in> set (trace (final_world (usb_mouse_irq E status ds) w))"
    and "current_data (final_world (usb_mouse_irq E status ds) w) = ds ! 0"
  using assms by (auto simp: usb_mouse_irq_def final_world_def krun split: option.split)

lemma mouse_caps_bits:
  "evbit mouse_caps = 6" "keybit mouse_caps = 0x1F0000" "relbit mouse_caps = 0x103"
  by (simp_all add: mouse_caps_def BIT_MASK_def Let_def)

text \<open>Binding and unbinding the small driver any number of times leaves nothing behind.\<close>

lemma usb2_balanced:
  "ledger_of m_acq t_rel (trace (final_world test_usb_disconnect w')) = ledger_of m_acq t_rel (trace w)"
  if "run_state (test_usb_probe eds E) w = (0, w')"
  using usb2_dev.load_unload_balanced [OF TrueI that] .

end
