(* ===== verification/Kthread_Modules.thy ===== *)
theory Kthread_Modules
  imports Kernel_Prelude
begin

text \<open>
  The thread modules \<^verbatim>\<open>Kthread/thread1.c\<close>, \<^verbatim>\<open>Kthread/thread2.c\<close> and \<^verbatim>\<open>Signal/signal2.c\<close>: two kernel threads that
  run until the module is unloaded or a signal arrives, interleaved statement by statement with
  the unload function and with signals.
\<close>

section \<open>Threads as programs\<close>

text \<open>
  \<open>If_stop l\<close> is the loop test \<^verbatim>\<open>while (!kthread_should_stop())\<close>, which leaves for \<open>l\<close>; \<open>If_signal l\<close> is
  \<^verbatim>\<open>if (signal_pending(...)) break\<close>; \<open>Say_cpu\<close> prints with \<^verbatim>\<open>get_cpu()\<close>, which disables preemption; \<open>Clear_ptr\<close>
  sets the module's pointer to the thread to \<^verbatim>\<open>NULL\<close>.
\<close>

datatype kinstr =
    Allow_signal
  | If_stop nat
  | Say string
  | Say_cpu string
  | Ssleep nat
  | If_signal nat
  | Goto nat
  | Clear_ptr
  | Do_exit

definition thread1_function :: "kinstr list" where
  "thread1_function =
     [If_stop 4, Say ''Thread 1 running...'', Ssleep 5, Goto 0, Say ''Stopping thread 1 ...'', Do_exit]"

definition thread2_function :: "kinstr list" where
  "thread2_function =
     [If_stop 4, Say ''Thread 2 running...'', Ssleep 5, Goto 0, Say ''Stopping thread 2...'', Do_exit]"

text \<open>\<^verbatim>\<open>Kthread/thread2.c\<close>: what follows \<^verbatim>\<open>do_exit\<close> is never reached.\<close>

definition kt_worker :: "kinstr list" where
  "kt_worker =
     [Allow_signal, If_stop 6, Say_cpu ''Worker thread executing on system CPU'', Ssleep 4, If_signal 6, Goto 1,
      Do_exit, Clear_ptr, Say ''Worker task exiting'']"

definition kt_default :: "kinstr list" where
  "kt_default =
     [Allow_signal, If_stop 6, Say_cpu ''Default thread executing on system CPU'', Ssleep 6, If_signal 6, Goto 1,
      Say ''Default task exiting'', Do_exit, Clear_ptr]"

definition sig_worker :: "kinstr list" where
  "sig_worker =
     [Allow_signal, If_stop 6, Say_cpu ''Worker thread executing on system CPU'', Ssleep 4, If_signal 6, Goto 1,
      Say ''Worker task exiting'', Clear_ptr, Do_exit]"

definition sig_default :: "kinstr list" where
  "sig_default =
     [Allow_signal, If_stop 6, Say_cpu ''Default thread executing on system CPU'', Ssleep 6, If_signal 6, Goto 1,
      Clear_ptr, Say ''Default task exiting'', Do_exit]"

fun thread1_mod :: "tid \<Rightarrow> kinstr list" where
  "thread1_mod T1 = thread1_function"
| "thread1_mod T2 = thread2_function"

fun thread2_mod :: "tid \<Rightarrow> kinstr list" where
  "thread2_mod T1 = kt_worker"
| "thread2_mod T2 = kt_default"

fun signal2_mod :: "tid \<Rightarrow> kinstr list" where
  "signal2_mod T1 = sig_worker"
| "signal2_mod T2 = sig_default"

section \<open>Threads and the unload function as a machine\<close>

record ktask =
  t_pc :: nat
  exited :: bool
  should_stop :: bool
  sig_allowed :: bool
  sig_pending :: bool
  task_ptr :: bool
  preempt :: nat
  atomic_sleeps :: nat

text \<open>
  The unload function tests the pointer of a thread (\<^verbatim>\<open>thread1.c\<close> does not), calls
  \<^verbatim>\<open>kthread_stop\<close>, which sets the flag and waits for the thread to end, and does the same for the other thread.
\<close>

datatype unload_pc = Loaded | Test_ptr tid | Call_stop tid | Wait_exit tid | Unloaded

record kt =
  task :: "tid \<Rightarrow> ktask"
  upc :: unload_pc
  stopped_dead :: bool

definition next_pc :: "kinstr \<Rightarrow> bool \<Rightarrow> bool \<Rightarrow> nat \<Rightarrow> nat" where
  "next_pc i stop sig n =
     (case i of
        If_stop l \<Rightarrow> if stop then l else Suc n
      | If_signal l \<Rightarrow> if sig then l else Suc n
      | Goto l \<Rightarrow> l
      | Do_exit \<Rightarrow> n
      | _ \<Rightarrow> Suc n)"

definition run_instr :: "kinstr \<Rightarrow> ktask \<Rightarrow> ktask" where
  "run_instr i t =
     (let t1 = t\<lparr>t_pc := next_pc i (should_stop t) (sig_pending t) (t_pc t)\<rparr> in
      case i of
        Allow_signal \<Rightarrow> t1\<lparr>sig_allowed := True\<rparr>
      | Say_cpu _ \<Rightarrow> t1\<lparr>preempt := Suc (preempt t)\<rparr>
      | Ssleep _ \<Rightarrow> t1\<lparr>atomic_sleeps := atomic_sleeps t + (if 0 < preempt t then 1 else 0)\<rparr>
      | Clear_ptr \<Rightarrow> t1\<lparr>task_ptr := False\<rparr>
      | Do_exit \<Rightarrow> t1\<lparr>exited := True\<rparr>
      | _ \<Rightarrow> t1)"

definition run_thread :: "kinstr list \<Rightarrow> ktask \<Rightarrow> ktask" where
  "run_thread P t = (if exited t \<or> length P \<le> t_pc t then t else run_instr (P ! t_pc t) t)"

definition set_task :: "tid \<Rightarrow> (ktask \<Rightarrow> ktask) \<Rightarrow> kt \<Rightarrow> kt" where
  "set_task i f s = s\<lparr>task := (task s)(i := f (task s i))\<rparr>"

fun next_unload :: "tid \<Rightarrow> unload_pc" where
  "next_unload T1 = Test_ptr T2"
| "next_unload T2 = Unloaded"

definition unload_step :: "bool \<Rightarrow> kt \<Rightarrow> kt" where
  "unload_step guarded s =
     (case upc s of
        Loaded \<Rightarrow> s\<lparr>upc := Test_ptr T1\<rparr>
      | Test_ptr i \<Rightarrow> s\<lparr>upc := (if guarded \<and> \<not> task_ptr (task s i) then next_unload i else Call_stop i)\<rparr>
      | Call_stop i \<Rightarrow>
          (if exited (task s i) then s\<lparr>stopped_dead := True, upc := next_unload i\<rparr>
           else (set_task i (\<lambda>t. t\<lparr>should_stop := True\<rparr>) s)\<lparr>upc := Wait_exit i\<rparr>)
      | Wait_exit i \<Rightarrow> if exited (task s i) then s\<lparr>upc := next_unload i\<rparr> else s
      | Unloaded \<Rightarrow> s)"

text \<open>A thread runs a statement, a signal arrives, or the unload function makes a step.\<close>

datatype act = Run tid | Kill tid | Unload

fun kt_step :: "(tid \<Rightarrow> kinstr list) \<Rightarrow> bool \<Rightarrow> act \<Rightarrow> kt \<Rightarrow> kt" where
  "kt_step prog guarded (Run i) s = set_task i (run_thread (prog i)) s"
| "kt_step prog guarded (Kill i) s =
     set_task i (\<lambda>t. if sig_allowed t \<and> \<not> exited t then t\<lparr>sig_pending := True\<rparr> else t) s"
| "kt_step prog guarded Unload s = unload_step guarded s"

definition kt_run :: "(tid \<Rightarrow> kinstr list) \<Rightarrow> bool \<Rightarrow> act list \<Rightarrow> kt \<Rightarrow> kt" where
  "kt_run prog guarded as s = fold (kt_step prog guarded) as s"

text \<open>After a load in which both threads were created and woken.\<close>

definition fresh_task :: ktask where
  "fresh_task = \<lparr>t_pc = 0, exited = False, should_stop = False, sig_allowed = False, sig_pending = False, task_ptr = True,
     preempt = 0, atomic_sleeps = 0\<rparr>"

definition kt_loaded :: kt where
  "kt_loaded = \<lparr>task = (\<lambda>_. fresh_task), upc = Loaded, stopped_dead = False\<rparr>"

section \<open>Programs that obey the stop flag\<close>

text \<open>
  The loop occupies the statements below a label: it is left only through the loop test or a pending signal, its last
  statement jumps back, and the pointer is cleared and the thread ended only behind the label.
\<close>

fun in_loop :: "nat \<Rightarrow> kinstr \<Rightarrow> bool" where
  "in_loop l (If_stop m) \<longleftrightarrow> l \<le> m"
| "in_loop l (If_signal m) \<longleftrightarrow> l \<le> m"
| "in_loop l (Goto m) \<longleftrightarrow> m < l"
| "in_loop l Clear_ptr \<longleftrightarrow> False"
| "in_loop l Do_exit \<longleftrightarrow> False"
| "in_loop l _ \<longleftrightarrow> True"

fun falls_through :: "kinstr \<Rightarrow> bool" where
  "falls_through (Goto _) \<longleftrightarrow> False"
| "falls_through _ \<longleftrightarrow> True"

fun in_tail :: "kinstr \<Rightarrow> bool" where
  "in_tail (Goto m) \<longleftrightarrow> False"
| "in_tail (If_stop m) \<longleftrightarrow> False"
| "in_tail (If_signal m) \<longleftrightarrow> False"
| "in_tail _ \<longleftrightarrow> True"

definition last_pc :: "kinstr list \<Rightarrow> nat" where
  "last_pc P = length (takeWhile (\<lambda>i. i \<noteq> Do_exit) P)"

definition stays_below :: "kinstr list \<Rightarrow> nat \<Rightarrow> bool" where
  "stays_below P n \<longleftrightarrow>
     list_all (\<lambda>stop. list_all (\<lambda>sig. next_pc (P ! n) stop sig n \<le> last_pc P) [False, True]) [False, True]"

definition stop_check :: "kinstr list \<Rightarrow> nat \<Rightarrow> bool" where
  "stop_check P l \<longleftrightarrow> 0 < l \<and> l \<le> last_pc P \<and> last_pc P < length P \<and>
     list_all (in_loop l) (take l P) \<and> \<not> falls_through (P ! (l - 1)) \<and>
     list_all (stays_below P) [0..<Suc (last_pc P)]"

text \<open>Once the stop flag is set, the end of the thread is at most \<open>k\<close> statements away.\<close>

fun reaches_exit :: "kinstr list \<Rightarrow> nat \<Rightarrow> nat \<Rightarrow> bool" where
  "reaches_exit P 0 n = False"
| "reaches_exit P (Suc k) n = (P ! n = Do_exit \<or> reaches_exit P k (next_pc (P ! n) True False n))"

definition exits_within :: "kinstr list \<Rightarrow> nat \<Rightarrow> bool" where
  "exits_within P k \<longleftrightarrow> list_all (reaches_exit P k) [0..<Suc (last_pc P)]"

definition no_signal :: "(tid \<Rightarrow> kinstr list) \<Rightarrow> act \<Rightarrow> bool" where
  "no_signal prog a = (case a of Kill i \<Rightarrow> Allow_signal \<notin> set (prog i) | _ \<Rightarrow> True)"

fun past_stop :: "tid \<Rightarrow> unload_pc \<Rightarrow> bool" where
  "past_stop T1 u \<longleftrightarrow> u \<notin> {Loaded, Test_ptr T1, Call_stop T1}"
| "past_stop T2 u \<longleftrightarrow> u \<in> {Wait_exit T2, Unloaded}"

fun past_wait :: "tid \<Rightarrow> unload_pc \<Rightarrow> bool" where
  "past_wait T1 u \<longleftrightarrow> u \<in> {Test_ptr T2, Call_stop T2, Wait_exit T2, Unloaded}"
| "past_wait T2 u \<longleftrightarrow> u = Unloaded"

lemma next_pc_stop_only:
  assumes "stop_check P l" and "n < l" and "l \<le> next_pc (P ! n) stop False n"
  shows "stop"
proof -
  have i: "in_loop l (P ! n)"
    using assms(1,2) unfolding stop_check_def list_all_length by (auto dest: spec [of _ n])
  have "n = l - 1" if "P ! n = If_signal m \<or> falls_through (P ! n)" "l \<le> Suc n" for m using that assms(2) by simp
  then show ?thesis
    using assms i unfolding stop_check_def by (cases "P ! n") (auto simp: next_pc_def split: if_splits)
qed

lemma run_instr_fields:
  "t_pc (run_instr i t) = next_pc i (should_stop t) (sig_pending t) (t_pc t)"
  "sig_pending (run_instr i t) = sig_pending t"
  "sig_allowed (run_instr i t) = (sig_allowed t \<or> i = Allow_signal)"
  "task_ptr (run_instr i t) = (task_ptr t \<and> i \<noteq> Clear_ptr)"
  "exited (run_instr i t) = (exited t \<or> i = Do_exit)"
  "should_stop (run_instr i t) = should_stop t"
  by (cases i; simp add: run_instr_def Let_def)+

text \<open>The contract of a module whose threads obey the stop flag.\<close>

locale stop_protocol =
  fixes prog :: "tid \<Rightarrow> kinstr list"
    and lab :: "tid \<Rightarrow> nat"
    and guarded :: bool
  assumes checked: "stop_check (prog i) (lab i)"
    and ends: "exits_within (prog i) 9"
begin

definition task_inv :: "tid \<Rightarrow> ktask \<Rightarrow> bool" where
  "task_inv i t \<longleftrightarrow> t_pc t \<le> last_pc (prog i) \<and> \<not> sig_pending t \<and> (sig_allowed t \<longrightarrow> Allow_signal \<in> set (prog i)) \<and>
     (lab i \<le> t_pc t \<or> exited t \<or> \<not> task_ptr t \<longrightarrow> should_stop t)"

definition kt_inv :: "kt \<Rightarrow> bool" where
  "kt_inv s \<longleftrightarrow> (\<forall>i. task_inv i (task s i) \<and> (should_stop (task s i) \<longrightarrow> past_stop i (upc s)) \<and>
     (past_wait i (upc s) \<longrightarrow> exited (task s i))) \<and> \<not> stopped_dead s"

lemma run_thread_inv:
  assumes "task_inv i t"
  shows "task_inv i (run_thread (prog i) t)" and "should_stop (run_thread (prog i) t) = should_stop t"
    and "exited t \<Longrightarrow> exited (run_thread (prog i) t)"
proof -
  let ?P = "prog i" and ?l = "lab i"
  note c = checked [of i, unfolded stop_check_def]
  show "should_stop (run_thread ?P t) = should_stop t" "exited t \<Longrightarrow> exited (run_thread ?P t)"
    by (simp_all add: run_thread_def run_instr_def Let_def split: kinstr.splits)
  show "task_inv i (run_thread ?P t)"
  proof (cases "exited t")
    case False
    have n: "t_pc t \<le> last_pc ?P" "t_pc t < length ?P" using assms c by (auto simp: task_inv_def)
    then have b: "next_pc (?P ! t_pc t) (should_stop t) False (t_pc t) \<le> last_pc ?P"
      using c by (cases "should_stop t") (auto simp: list_all_iff stays_below_def)
    have loop: "in_loop ?l (?P ! t_pc t)" if "t_pc t < ?l"
      using that c n unfolding list_all_length by (auto dest: spec [of _ "t_pc t"])
    have stop: "should_stop t" if "?l \<le> next_pc (?P ! t_pc t) (should_stop t) False (t_pc t)"
      using next_pc_stop_only [OF checked, of "t_pc t" i "should_stop t"] that assms
      by (cases "t_pc t < ?l") (auto simp: task_inv_def)
    have late: "should_stop t" if "?P ! t_pc t = Clear_ptr \<or> ?P ! t_pc t = Do_exit"
      using that loop assms by (cases "t_pc t < ?l") (auto simp: task_inv_def)
    have r: "run_thread ?P t = run_instr (?P ! t_pc t) t" using False n by (simp add: run_thread_def)
    have s: "sig_pending t = False" "sig_allowed t \<longrightarrow> Allow_signal \<in> set ?P" "\<not> task_ptr t \<longrightarrow> should_stop t"
      using assms by (auto simp: task_inv_def)
    have "?P ! t_pc t \<in> set ?P" using n by simp
    then show ?thesis
      unfolding r task_inv_def run_instr_fields using s b stop late False by auto
  qed (use assms in \<open>simp add: run_thread_def\<close>)
qed

lemma kt_step_inv:
  assumes "kt_inv s" and "no_signal prog a"
  shows "kt_inv (kt_step prog guarded a s)"
proof (cases a)
  case (Run j)
  then show ?thesis
    using assms(1) run_thread_inv [of j "task s j"] by (auto simp: kt_inv_def set_task_def)
next
  case (Kill j)
  then have "\<not> sig_allowed (task s j)"
    using assms by (auto simp: kt_inv_def task_inv_def no_signal_def)
  then have "kt_step prog guarded a s = s" by (simp add: Kill set_task_def)
  then show ?thesis using assms(1) by simp
next
  case Unload
  have s: "task_inv i (task s i)" "should_stop (task s i) \<longrightarrow> past_stop i (upc s)"
    "past_wait i (upc s) \<longrightarrow> exited (task s i)" "exited (task s i) \<or> \<not> task_ptr (task s i) \<longrightarrow> should_stop (task s i)" for i
    using assms(1) by (auto simp: kt_inv_def task_inv_def)
  have d: "\<not> stopped_dead s" using assms(1) by (simp add: kt_inv_def)
  note s1 = s [of T1] and s2 = s [of T2]
  have u: "task_inv i (t\<lparr>should_stop := True\<rparr>)" if "task_inv i t" for i t using that by (auto simp: task_inv_def)
  have "kt_inv (unload_step guarded s)"
  proof (cases "upc s")
    case (Test_ptr j)
    then have "task_ptr (task s j)" using s(2,4) [of j] by (cases j) auto
    then show ?thesis
      using d s1 s2 Test_ptr by (cases j) (auto simp: kt_inv_def unload_step_def all_tid)
  next
    case (Call_stop j)
    then have "\<not> exited (task s j)" using s(2,4) [of j] by (cases j) auto
    then show ?thesis
      using d s1 s2 u Call_stop by (cases j) (auto simp: kt_inv_def unload_step_def set_task_def all_tid)
  next
    case (Wait_exit j)
    then show ?thesis
      using d s1 s2 by (cases j) (auto simp: kt_inv_def unload_step_def all_tid)
  qed (use d s1 s2 in \<open>auto simp: kt_inv_def unload_step_def all_tid\<close>)
  then show ?thesis by (simp add: Unload)
qed

lemma kt_run_inv: "kt_inv s \<Longrightarrow> list_all (no_signal prog) as \<Longrightarrow> kt_inv (kt_run prog guarded as s)"
  by (induction as arbitrary: s) (auto simp: kt_run_def intro: kt_step_inv)

lemma kt_loaded_inv: "kt_inv kt_loaded"
  using checked by (auto simp: kt_inv_def task_inv_def kt_loaded_def fresh_task_def stop_check_def all_tid)

text \<open>No thread is stopped twice or after its end, and the module is gone only when both threads are.\<close>

lemma unload_clean:
  assumes "list_all (no_signal prog) as"
  shows "\<not> stopped_dead (kt_run prog guarded as kt_loaded) \<and>
    (upc (kt_run prog guarded as kt_loaded) = Unloaded \<longrightarrow> (\<forall>i. exited (task (kt_run prog guarded as kt_loaded) i)))"
  using kt_run_inv [OF kt_loaded_inv assms] by (auto simp: kt_inv_def all_tid)

lemma thread_ends:
  assumes "task_inv i t" and "should_stop t" and "reaches_exit (prog i) k (t_pc t)"
  shows "exited ((run_thread (prog i) ^^ k) t)"
  using assms
proof (induction k arbitrary: t)
  case (Suc k)
  let ?t = "run_thread (prog i) t"
  have keep: "exited u \<Longrightarrow> exited ((run_thread (prog i) ^^ k) u)" for u
    by (induction k) (auto simp: run_thread_def)
  have inv: "task_inv i ?t" "should_stop ?t" using run_thread_inv [OF Suc.prems(1)] Suc.prems(2) by auto
  have n: "t_pc t < length (prog i)" "\<not> sig_pending t"
    using Suc.prems(1) checked [of i] by (auto simp: task_inv_def stop_check_def)
  have "exited ((run_thread (prog i) ^^ k) ?t)"
  proof (cases "exited t \<or> prog i ! t_pc t = Do_exit")
    case True
    then have "exited ?t" using n by (auto simp: run_thread_def run_instr_fields)
    then show ?thesis by (rule keep)
  next
    case False
    then have "reaches_exit (prog i) k (t_pc ?t)"
      using Suc.prems n by (auto simp: run_thread_def run_instr_fields)
    then show ?thesis by (rule Suc.IH [OF inv])
  qed
  then show ?case by (simp add: funpow_swap1)
qed simp

lemma run_replicate:
  "kt_run prog guarded (replicate k (Run i)) s = set_task i (run_thread (prog i) ^^ k) s"
  by (induction k arbitrary: s) (auto simp: kt_run_def set_task_def funpow_swap1)

definition stop_round :: "tid \<Rightarrow> act list" where
  "stop_round i = [Unload, Unload] @ replicate 9 (Run i) @ [Unload]"

lemma stop_round_done:
  assumes inv: "kt_inv s" and u: "upc s = Test_ptr i"
  shows "upc (kt_run prog guarded (stop_round i) s) = next_unload i"
proof -
  have "\<not> should_stop (task s i)" using inv u by (cases i) (auto simp: kt_inv_def)
  then have p: "task_ptr (task s i)" "\<not> exited (task s i)" using inv by (auto simp: kt_inv_def task_inv_def)
  let ?s = "(set_task i (\<lambda>t. t\<lparr>should_stop := True\<rparr>) s)\<lparr>upc := Wait_exit i\<rparr>"
  have two: "kt_run prog guarded [Unload, Unload] s = ?s"
    using p u by (simp add: kt_run_def unload_step_def set_task_def)
  then have "kt_inv ?s" using kt_run_inv [OF inv, of "[Unload, Unload]"] by (simp add: no_signal_def)
  then have ti: "task_inv i (task ?s i)" by (simp add: kt_inv_def)
  have "reaches_exit (prog i) 9 (t_pc (task ?s i))"
    using ends [of i] ti unfolding exits_within_def list_all_iff task_inv_def by auto
  then have "exited ((run_thread (prog i) ^^ 9) (task ?s i))"
    using thread_ends [OF ti] by (simp add: set_task_def)
  moreover have "kt_run prog guarded (stop_round i) s =
      unload_step guarded (set_task i (run_thread (prog i) ^^ 9) ?s)"
    using two run_replicate [of 9 i ?s] by (simp add: stop_round_def kt_run_def)
  ultimately show ?thesis by (simp add: unload_step_def set_task_def)
qed

text \<open>From every reachable state the unload ends within nine statements of each thread.\<close>

lemma unload_completes:
  assumes "kt_inv s" and "upc s = Loaded"
  shows "upc (kt_run prog guarded ([Unload] @ stop_round T1 @ stop_round T2) s) = Unloaded"
proof -
  have n: "list_all (no_signal prog) [Unload]" "list_all (no_signal prog) (stop_round T1)"
    by (simp_all add: no_signal_def stop_round_def list_all_iff)
  let ?s1 = "kt_run prog guarded [Unload] s"
  let ?s2 = "kt_run prog guarded (stop_round T1) ?s1"
  have i: "kt_inv ?s1" "kt_inv ?s2" using kt_run_inv assms(1) n by blast+
  have "upc ?s1 = Test_ptr T1" using assms(2) by (simp add: kt_run_def unload_step_def)
  then have "upc ?s2 = Test_ptr T2" using stop_round_done [OF i(1)] by simp
  then have "upc (kt_run prog guarded (stop_round T2) ?s2) = Unloaded" using stop_round_done [OF i(2)] by simp
  then show ?thesis by (simp add: kt_run_def)
qed

end

section \<open>The three modules\<close>

fun thread1_lab :: "tid \<Rightarrow> nat" where "thread1_lab _ = 4"
fun kill_lab :: "tid \<Rightarrow> nat" where "kill_lab _ = 6"

lemma thread_checks:
  "stop_check thread1_function 4" "stop_check thread2_function 4" "stop_check kt_worker 6" "stop_check kt_default 6"
  "stop_check sig_worker 6" "stop_check sig_default 6"
  "exits_within thread1_function 9" "exits_within thread2_function 9" "exits_within kt_worker 9" "exits_within kt_default 9"
  "exits_within sig_worker 9" "exits_within sig_default 9"
  by code_simp+

interpretation thread1: stop_protocol thread1_mod thread1_lab False
  by unfold_locales (case_tac i; simp add: thread_checks)+

interpretation thread2: stop_protocol thread2_mod kill_lab True
  by unfold_locales (case_tac i; simp add: thread_checks)+

interpretation signal2: stop_protocol signal2_mod kill_lab True
  by unfold_locales (case_tac i; simp add: thread_checks)+

text \<open>The modules with the guard of their unload function.\<close>

definition kt_modules :: "((tid \<Rightarrow> kinstr list) \<times> bool) list" where
  "kt_modules = [(thread1_mod, False), (thread2_mod, True), (signal2_mod, True)]"

text \<open>
  C13. Unloading the thread modules is clean as long as no signal reaches a thread that accepts it: in every interleaving of
  the two threads and the unload function, \<^verbatim>\<open>kthread_stop\<close> is never called on a thread that has ended, and the module is gone
  only when both threads have ended. \<^verbatim>\<open>thread1.c\<close>, which accepts no signals, is clean unconditionally.
\<close>

theorem kt_unload_clean:
  assumes "(prog, guarded) \<in> set kt_modules" and "list_all (no_signal prog) as"
  shows "\<not> stopped_dead (kt_run prog guarded as kt_loaded) \<and>
    (upc (kt_run prog guarded as kt_loaded) = Unloaded \<longrightarrow> (\<forall>i. exited (task (kt_run prog guarded as kt_loaded) i))) \<and>
    \<not> stopped_dead (kt_run thread1_mod False bs kt_loaded) \<and>
    (upc (kt_run thread1_mod False bs kt_loaded) = Unloaded \<longrightarrow> (\<forall>i. exited (task (kt_run thread1_mod False bs kt_loaded) i)))"
proof -
  have "Allow_signal \<notin> set (thread1_mod i)" for i
    by (cases i) (simp_all add: thread1_function_def thread2_function_def)
  then have "list_all (no_signal thread1_mod) bs"
    by (simp add: list_all_iff no_signal_def split: act.split)
  then show ?thesis
    using assms thread1.unload_clean thread2.unload_clean signal2.unload_clean by (auto simp: kt_modules_def)
qed

text \<open>The schedule that unloads a module: the unload function, and nine statements of each thread while it waits.\<close>

definition unload_schedule :: "act list" where
  "unload_schedule = Unload # [Unload, Unload] @ replicate 9 (Run T1) @ [Unload] @ [Unload, Unload] @ replicate 9 (Run T2) @ [Unload]"


definition kt_demo :: "act list" where
  "kt_demo = [Run T1, Run T2, Run T1, Run T1, Run T2]"

lemma kt_demo_quiet: "list_all (no_signal prog) kt_demo" "list_all (no_signal prog) (kt_demo @ unload_schedule)"
  by (simp_all add: kt_demo_def unload_schedule_def no_signal_def list_all_iff)


theorem kt_unload_clean_witness:
  "\<not> stopped_dead (kt_run signal2_mod True (kt_demo @ unload_schedule) kt_loaded)"
  using kt_unload_clean [OF _ kt_demo_quiet(2), of signal2_mod True] by (simp add: kt_modules_def)

text \<open>
  Signals break the protocol of both modules that accept them. In \<^verbatim>\<open>thread2.c\<close> the pointer is not cleared, because the
  assignment stands behind \<^verbatim>\<open>do_exit\<close>, so the unload calls \<^verbatim>\<open>kthread_stop\<close> on a thread that is gone. In
  \<^verbatim>\<open>signal2.c\<close> the pointer is cleared before the thread ends, so the module can be gone while the thread still has
  statements of it to run; and a thread that ends between the test of its pointer and the call is again stopped after its
  end.
\<close>

theorem kt_signal_races:
  "stopped_dead (kt_run thread2_mod True
     ([Run T1, Kill T1] @ replicate 5 (Run T1) @ [Unload, Unload, Unload]) kt_loaded) \<and>
   (let s = kt_run signal2_mod True
      ([Run T1, Run T2, Kill T1, Kill T2] @ replicate 6 (Run T1) @ replicate 6 (Run T2) @ [Unload, Unload, Unload]) kt_loaded
    in upc s = Unloaded \<and> \<not> exited (task s T1) \<and> \<not> exited (task s T2)) \<and>
   stopped_dead (kt_run signal2_mod True
     ([Run T1, Kill T1] @ replicate 4 (Run T1) @ [Unload, Unload] @ replicate 3 (Run T1) @ [Unload]) kt_loaded)"
  by code_simp

text \<open>
  The threads that print the number of their processor do so with \<^verbatim>\<open>get_cpu\<close>, which disables preemption and is never
  paired: every sleep of theirs is a sleep in atomic context.
\<close>

lemma kt_sleeps_atomically:
  "atomic_sleeps (task (kt_run thread2_mod True (replicate (Suc 3) (Run T1)) kt_loaded) T1) = 1"
  "preempt (task (kt_run signal2_mod True (replicate 13 (Run T2)) kt_loaded) T2) = 3"
  by code_simp+

section \<open>Loading\<close>

datatype tcall =
    Kthread_create string
  | Kthread_bind kptr int
  | Sched_setscheduler kptr int
  | Wake_up_process kptr
  | Get_cpu
  | Printk string

text \<open>A call that works on the thread its argument points to: anything but an address is a fault.\<close>

definition on_task :: "kptr \<Rightarrow> tcall \<Rightarrow> (tcall kworld, unit) state" where
  "on_task p c = (if is_addr p then kvoid c else koops ''no such thread'')"

definition report :: "kptr \<Rightarrow> string \<Rightarrow> string \<Rightarrow> (tcall kworld, unit) state" where
  "report p yes no = kvoid (Printk (if p \<noteq> Null then yes else no))"

definition init_thread :: "tcall kenv \<Rightarrow> (tcall kworld, int) state" where
  "init_thread E = do {
     kvoid (Printk ''Thread creating ...'');
     thread1 \<leftarrow> kptr_call E (Kthread_create ''mythread1'');
     thread2 \<leftarrow> kptr_call E (Kthread_create ''mythread2'');
     (if thread1 \<noteq> Null \<and> thread2 \<noteq> Null then do {
        kvoid (Printk ''Thread Created Sucessfully'');
        on_task thread1 (Wake_up_process thread1);
        on_task thread2 (Wake_up_process thread2) }
      else kvoid (Printk ''Thread Creation Failed''));
     ret 0 }"

definition kernel_thread_init :: "tcall kenv \<Rightarrow> (tcall kworld, int) state" where
  "kernel_thread_init E = do {
     kvoid (Printk ''Initializing kernel mode thread example module'');
     kvoid (Printk ''Creating Threads'');
     cpu \<leftarrow> kint E Get_cpu;
     kvoid (Printk ''Getting current CPU to binding worker thread'');
     worker_task \<leftarrow> kptr_call E (Kthread_create ''thread_name'');
     on_task worker_task (Kthread_bind worker_task cpu);
     report worker_task ''Worker task created successfully'' ''Worker task error while creating'';
     kvoid (Printk ''Getting current CPU to binding default thread'');
     default_task \<leftarrow> kptr_call E (Kthread_create ''thread_name'');
     on_task default_task (Kthread_bind default_task 2);
     on_task default_task (Sched_setscheduler default_task 90);
     on_task worker_task (Wake_up_process worker_task);
     on_task default_task (Wake_up_process default_task);
     report worker_task ''Worker thread running'' ''Worker task can't start'';
     report default_task ''Default thread running'' ''Default task can't start'';
     ret 0 }"

definition signal2_init :: "tcall kenv \<Rightarrow> (tcall kworld, int) state" where
  "signal2_init E = do {
     kvoid (Printk ''Initializing kernel mode thread example module'');
     worker_task \<leftarrow> kptr_call E (Kthread_create ''worker_thread'');
     report worker_task ''Worker task created successfully'' ''Worker task error while creating'';
     default_task \<leftarrow> kptr_call E (Kthread_create ''default_thread'');
     on_task worker_task (Wake_up_process worker_task);
     on_task default_task (Wake_up_process default_task);
     report worker_task ''Worker thread running'' ''Worker task can't start'';
     report default_task ''Default thread running'' ''Default task can't start'';
     ret 0 }"

definition woken :: "tcall ktrace \<Rightarrow> kptr list" where
  "woken tr = concat (map (\<lambda>ev. case ev of Void (Wake_up_process p) \<Rightarrow> [p] | _ \<Rightarrow> []) tr)"

definition kt_inits :: "(tcall kenv \<Rightarrow> (tcall kworld, int) state) list" where
  "kt_inits = [init_thread, kernel_thread_init, signal2_init]"

lemmas kt_init_code = kt_inits_def init_thread_def kernel_thread_init_def signal2_init_def on_task_def report_def
  final_world_def result_def woken_def krun

text \<open>
  When the kernel creates both threads, each load wakes both, and the module is in the state \<open>kt_loaded\<close>; a creation that
  fails with an error pointer is not noticed by any of them, and is followed by an access through that pointer.
\<close>

lemma kt_init_wakes_both:
  assumes "init \<in> set kt_inits" and "\<forall>tr c. is_addr (ret_ptr E tr c)"
  shows "\<exists>p q. woken (trace (final_world (init E) \<lparr>trace = []\<rparr>)) = [p, q]"
    and "never_faults (trace (final_world (init E) \<lparr>trace = []\<rparr>))"
  using assms by (auto simp: kt_init_code)

lemma kt_init_error_unnoticed:
  assumes "init \<in> set kt_inits" and "\<forall>tr c. IS_ERR (ret_ptr E tr c)"
  shows "result (init E) w = 0" and "\<not> never_faults (trace (final_world (init E) w))"
proof -
  have n: "ret_ptr E tr c \<noteq> Null" for tr c
  proof
    assume "ret_ptr E tr c = Null"
    then show False using assms(2) [rule_format, of tr c] by simp
  qed
  show "result (init E) w = 0" "\<not> never_faults (trace (final_world (init E) w))"
    using assms by (auto simp: kt_init_code n)
qed

end
