(* ===== verification/Platform_Drivers.thy ===== *)
theory Platform_Drivers
  imports Kernel_Prelude
begin

text \<open>
  The drivers that do little but register themselves: the dummy character devices
  (\<^verbatim>\<open>CharacterDriverNew/char1.c\<close>, \<^verbatim>\<open>char2.c\<close>, \<^verbatim>\<open>CharacterDriver/example_character.c\<close>), the platform drivers and the
  modules that add their devices (\<^verbatim>\<open>PlatformDriver\<close>), and the GPIO, IIO and Ethernet drivers. The theorems are about whole sessions (load,
  calls to the handlers, unload) and about a module that adds a device together with the driver the bus gives it to.
\<close>

section \<open>Kernel calls and variables\<close>

text \<open>The fields that the probe functions of the GPIO and IIO drivers fill in. A message is recorded without its arguments.\<close>

record gpio_chip =
  gpio_label :: string
  gpio_base :: int
  ngpio :: nat
  can_sleep :: bool

record iio_chan_spec =
  iio_indexed :: bool
  iio_channel :: nat
  iio_address :: nat
  iio_separate :: u32
  iio_shared :: u32

record iio_fields =
  iio_name :: string
  iio_channels :: "iio_chan_spec list"
  num_channels :: nat
  scan_masks :: "ulong list"

datatype pcall =
    Alloc_chrdev_region
  | Region_dev
  | Unregister_chrdev_region int
  | Register_chrdev string
  | Unregister_chrdev int string
  | Cdev_init
  | Cdev_alloc
  | Cdev_add kptr int
  | Cdev_del kptr
  | Class_create string
  | Class_destroy kptr
  | Device_create kptr int
  | Device_destroy kptr int
  | Platform_device_register_simple
  | Platform_device_unregister kptr
  | Platform_driver_probe
  | Platform_driver_register
  | Platform_driver_unregister
  | Platform_device_alloc string
  | Platform_device_add kptr
  | Platform_device_put kptr
  | Gpiochip_add gpio_chip
  | Gpiochip_remove
  | Devm_iio_device_alloc
  | Mutex_init
  | Iio_device_register kptr iio_fields
  | Iio_device_unregister kptr
  | Devm_kzalloc
  | Alloc_etherdev
  | Register_netdev kptr
  | Unregister_netdev kptr
  | Free_netdev kptr
  | Netif_start_queue
  | Netif_stop_queue
  | Skb_tx_timestamp nat
  | Dev_kfree_skb nat
  | Printk string

record net_stats =
  tx_bytes :: ulong
  tx_packets :: ulong

text \<open>The static variables of the modules and what the platform device carries; each module uses its own.\<close>

record pworld = "pcall kworld" +
  major :: int
  devicnums :: int
  dummy_class :: kptr
  chrdevic :: kptr
  pdev :: kptr
  drvdata :: kptr
  ndev :: kptr
  stats :: net_stats
  open_counter :: int

text \<open>Device numbers: the minor number is the low 20 bits.\<close>

definition MAJOR :: "int \<Rightarrow> int" where "MAJOR d = d div 2 ^ 20"
definition MKDEV :: "int \<Rightarrow> int \<Rightarrow> int" where "MKDEV ma mi = ma * 2 ^ 20 + mi"

text \<open>The static structure \<^verbatim>\<open>dummy_cdev\<close>.\<close>

definition dummy_cdev :: kptr where "dummy_cdev = Ptr 1"

section \<open>Character devices\<close>

text \<open>
  \<^verbatim>\<open>alloc_chrdev_region(&devt, 0, 1, ...)\<close>: the number goes to a local variable in \<^verbatim>\<open>char1.c\<close> and \<^verbatim>\<open>plat3.c\<close>.
\<close>

definition alloc_region :: "pcall kenv \<Rightarrow> (pworld, int \<times> int) state" where
  "alloc_region E = do {
     r \<leftarrow> kint E Alloc_chrdev_region;
     if r < 0 then ret (r, 0)
     else do { d \<leftarrow> kint E Region_dev; ret (r, d) } }"

text \<open>The statements that \<^verbatim>\<open>char1.c\<close> and \<^verbatim>\<open>plat3.c\<close> share; two messages differ.\<close>

definition dummy_register :: "string \<Rightarrow> string \<Rightarrow> pcall kenv \<Rightarrow> (pworld, int) state" where
  "dummy_register no_class no_node E = do {
     x \<leftarrow> alloc_region E;
     if fst x < 0 then do { kvoid (Printk ''Can't get major number''); ret (fst x) }
     else do {
       let devt = snd x;
       modify (\<lambda>w. w\<lparr>major := MAJOR devt\<rparr>);
       kvoid (Printk ''dummy_char major number'');
       c \<leftarrow> kptr_call E (Class_create ''dummy_char_class'');
       modify (\<lambda>w. w\<lparr>dummy_class := c\<rparr>);
       if IS_ERR c then do {
         kvoid (Printk no_class);
         kvoid (Unregister_chrdev_region (MKDEV (MAJOR devt) 0));
         ret (PTR_ERR c) }
       else do {
         kvoid Cdev_init;
         _ \<leftarrow> kint E (Cdev_add dummy_cdev devt);
         n \<leftarrow> kptr_call E (Device_create c devt);
         if IS_ERR n then do {
           kvoid (Printk no_node);
           kvoid (Class_destroy c);
           kvoid (Unregister_chrdev_region devt);
           ret (- 1) }
         else do { kvoid (Printk ''dummy char module loaded''); ret 0 } } } }"

definition dummy_char_init_module :: "pcall kenv \<Rightarrow> (pworld, int) state" where
  "dummy_char_init_module E = dummy_register ''Error creating dummy char class.'' ''Error creating dummy char device.'' E"

definition dummy_char_cleanup_module :: "(pworld, unit) state" where
  "dummy_char_cleanup_module = do {
     m \<leftarrow> gets major;
     c \<leftarrow> gets dummy_class;
     kvoid (Unregister_chrdev_region (MKDEV m 0));
     kvoid (Device_destroy c (MKDEV m 0));
     kvoid (Cdev_del dummy_cdev);
     kvoid (Class_destroy c);
     kvoid (Printk ''dummy char module Unloaded'') }"

definition my_pdrv_probe :: "pcall kenv \<Rightarrow> (pworld, int) state" where
  "my_pdrv_probe E = dummy_register ''Error creating sdma test module class.'' ''Error creating sdma test class device.'' E"

definition my_pdrv_remove :: "(pworld, int) state" where
  "my_pdrv_remove = do { dummy_char_cleanup_module; ret 0 }"

definition dummy_open :: "(pworld, int) state" where
  "dummy_open = do { kvoid (Printk ''Someone tried to open me''); ret 0 }"
definition dummy_release :: "(pworld, int) state" where
  "dummy_release = do { kvoid (Printk ''Someone closed me''); ret 0 }"
definition dummy_read :: "nat \<Rightarrow> (pworld, int) state" where
  "dummy_read cnt = do { kvoid (Printk ''Nothing to read guy''); ret 0 }"
definition dummy_write :: "nat \<Rightarrow> (pworld, int) state" where
  "dummy_write cnt = do { kvoid (Printk ''Can't accept any data guy''); ret (int cnt) }"

definition dummy_fops :: "pworld file_ops" where
  "dummy_fops = \<lparr>fop_open = dummy_open, fop_release = dummy_release, fop_read = dummy_read, fop_write = dummy_write\<rparr>"

text \<open>The handlers of \<^verbatim>\<open>plat3.c\<close> are those of \<^verbatim>\<open>char1.c\<close>.\<close>

definition plat3_open :: "(pworld, int) state" where
  "plat3_open = do { kvoid (Printk ''Someone tried to open me''); ret 0 }"
definition plat3_release :: "(pworld, int) state" where
  "plat3_release = do { kvoid (Printk ''Someone closed me''); ret 0 }"
definition plat3_read :: "nat \<Rightarrow> (pworld, int) state" where
  "plat3_read cnt = do { kvoid (Printk ''Nothing to read guy''); ret 0 }"
definition plat3_write :: "nat \<Rightarrow> (pworld, int) state" where
  "plat3_write cnt = do { kvoid (Printk ''Can't accept any data guy''); ret (int cnt) }"

definition plat3_fops :: "pworld file_ops" where
  "plat3_fops = \<lparr>fop_open = plat3_open, fop_release = plat3_release, fop_read = plat3_read, fop_write = plat3_write\<rparr>"

text \<open>\<^verbatim>\<open>char2.c\<close>. The result of the first call is not looked at; \<^verbatim>\<open>devicnums\<close> keeps its old value when it fails.\<close>

definition chrdevic_init :: "pcall kenv \<Rightarrow> (pworld, int) state" where
  "chrdevic_init E = do {
     x \<leftarrow> alloc_region E;
     (if fst x < 0 then ret () else modify (\<lambda>w. w\<lparr>devicnums := snd x\<rparr>));
     c \<leftarrow> kptr_call E Cdev_alloc;
     modify (\<lambda>w. w\<lparr>chrdevic := c\<rparr>);
     (if c = Null then koops ''chrdevic->owner'' else ret ());
     d \<leftarrow> gets devicnums;
     r \<leftarrow> kint E (Cdev_add c d);
     if r < 0 then do { kvoid (Printk ''Error registering devic driver''); ret r }
     else do { kvoid (Printk ''Devic successfully''); ret 0 } }"

definition chrdevic_cleanup :: "(pworld, unit) state" where
  "chrdevic_cleanup = do {
     kvoid (Printk ''MODULE Removed'');
     d \<leftarrow> gets devicnums;
     kvoid (Unregister_chrdev_region d);
     c \<leftarrow> gets chrdevic;
     kvoid (Cdev_del c) }"

definition chrdevic_open :: "(pworld, int) state" where
  "chrdevic_open = do {
     modify (\<lambda>w. w\<lparr>open_counter := s32 (open_counter w + 1)\<rparr>);
     kvoid (Printk ''Number of times open() was called'');
     kvoid (Printk ''Process id of current process'');
     ret 0 }"
definition chrdevic_release :: "(pworld, int) state" where
  "chrdevic_release = do { kvoid (Printk ''close called''); ret 0 }"
definition chrdevic_read :: "(pworld, int) state" where
  "chrdevic_read = do { kvoid (Printk ''READ called''); ret 0 }"
definition chrdevic_write :: "(pworld, int) state" where
  "chrdevic_write = do { kvoid (Printk ''Write called''); ret 0 }"
definition chrdevic_lseek :: "(pworld, int) state" where
  "chrdevic_lseek = do { kvoid (Printk ''lseek called''); ret 0 }"
definition chrdevic_ioctl :: "(pworld, int) state" where
  "chrdevic_ioctl = do { kvoid (Printk ''ioctl called''); ret 0 }"

record 'w dev_ops = "'w file_ops" +
  fop_llseek :: "('w, int) state"
  fop_ioctl :: "('w, int) state"

definition chrdevic_fileops :: "pworld dev_ops" where
  "chrdevic_fileops = \<lparr>fop_open = chrdevic_open, fop_release = chrdevic_release, fop_read = (\<lambda>_. chrdevic_read),
     fop_write = (\<lambda>_. chrdevic_write), fop_llseek = chrdevic_lseek, fop_ioctl = chrdevic_ioctl\<rparr>"

text \<open>\<^verbatim>\<open>example_character.c\<close>, and the probe of \<^verbatim>\<open>plat1.c\<close> and \<^verbatim>\<open>plat2.c\<close>, which do look at the result.\<close>

definition testchar_init :: "pcall kenv \<Rightarrow> (pworld, int) state" where
  "testchar_init E = do {
     kvoid (Printk ''Entering Test Character Driver'');
     r \<leftarrow> kint E (Register_chrdev ''testchar'');
     modify (\<lambda>w. w\<lparr>major := r\<rparr>);
     kvoid (Printk ''Major Number = %d'');
     kvoid (Printk ''Name =  %s'');
     kvoid (Printk ''Generate the device file with mknod /dev/%s c %d 0'');
     ret 0 }"

definition testchar_cleanup :: "(pworld, unit) state" where
  "testchar_cleanup = do {
     m \<leftarrow> gets major;
     kvoid (Unregister_chrdev m ''testchar'');
     kvoid (Printk ''Exiting Test Character Driver'') }"

definition plat_probe :: "string \<Rightarrow> pcall kenv \<Rightarrow> (pworld, int) state" where
  "plat_probe nm E = do {
     kvoid (Printk ''Binding/Initializing probe callback'');
     r \<leftarrow> kint E (Register_chrdev nm);
     modify (\<lambda>w. w\<lparr>major := r\<rparr>);
     if r < 0 then do { kvoid (Printk ''Registering char device failed''); ret r }
     else do {
       kvoid (Printk ''I was assigned major number %d. To talk to'');
       kvoid (Printk ''the driver, create a dev file with'');
       kvoid (Printk ''mknod /dev/%s c %d 0'');
       kvoid (Printk ''Try various minor numbers. Try to cat and echo to'');
       kvoid (Printk ''the device file.'');
       kvoid (Printk ''Remove the device file and module when done.'');
       ret 0 } }"

definition plat_remove :: "string \<Rightarrow> (pworld, int) state" where
  "plat_remove nm = do { m \<leftarrow> gets major; kvoid (Unregister_chrdev m nm); ret 0 }"

text \<open>The handlers of \<^verbatim>\<open>plat1.c\<close>, \<^verbatim>\<open>plat2.c\<close> and \<^verbatim>\<open>example_character.c\<close>: a message, and 0.\<close>

definition plat_handler :: "string \<Rightarrow> (pworld, int) state" where
  "plat_handler msg = do { kvoid (Printk msg); ret 0 }"

definition plat1_probe :: "pcall kenv \<Rightarrow> (pworld, int) state" where
  "plat1_probe E = plat_probe ''plat1'' E"
definition plat1_remove :: "(pworld, int) state" where
  "plat1_remove = plat_remove ''plat1''"
definition plat1_open :: "(pworld, int) state" where
  "plat1_open = plat_handler ''Open from userspace''"
definition plat1_release :: "(pworld, int) state" where
  "plat1_release = plat_handler ''Release from userspace''"
definition plat1_write :: "(pworld, int) state" where
  "plat1_write = plat_handler ''Write from userspace''"
definition plat1_read :: "(pworld, int) state" where
  "plat1_read = plat_handler ''Read from userspace''"

definition plat1_fops :: "pworld file_ops" where
  "plat1_fops = \<lparr>fop_open = plat1_open, fop_release = plat1_release, fop_read = (\<lambda>_. plat1_read), fop_write = (\<lambda>_. plat1_write)\<rparr>"

definition plat2_probe :: "pcall kenv \<Rightarrow> (pworld, int) state" where
  "plat2_probe E = plat_probe ''plat2'' E"
definition plat2_remove :: "(pworld, int) state" where
  "plat2_remove = plat_remove ''plat2''"
definition plat2_open :: "(pworld, int) state" where
  "plat2_open = plat_handler ''Open from userspace''"
definition plat2_release :: "(pworld, int) state" where
  "plat2_release = plat_handler ''Release from userspace''"
definition plat2_write :: "(pworld, int) state" where
  "plat2_write = plat_handler ''write from userspace''"
definition plat2_read :: "(pworld, int) state" where
  "plat2_read = plat_handler ''Read from userspace''"

definition plat2_fops :: "pworld file_ops" where
  "plat2_fops = \<lparr>fop_open = plat2_open, fop_release = plat2_release, fop_read = (\<lambda>_. plat2_read), fop_write = (\<lambda>_. plat2_write)\<rparr>"

definition test_open :: "(pworld, int) state" where
  "test_open = plat_handler ''test_open called''"
definition test_release :: "(pworld, int) state" where
  "test_release = plat_handler ''test_release called''"
definition test_read :: "(pworld, int) state" where
  "test_read = plat_handler ''test_read called''"
definition test_write :: "(pworld, int) state" where
  "test_write = plat_handler ''test_write called''"

definition testchar_fops :: "pworld file_ops" where
  "testchar_fops = \<lparr>fop_open = test_open, fop_release = test_release, fop_read = (\<lambda>_. test_read), fop_write = (\<lambda>_. test_write)\<rparr>"

section \<open>Platform drivers and devices\<close>

text \<open>\<^verbatim>\<open>plat1.c\<close>: the device is kept in a local variable that hides the global one.\<close>

definition plat1_init :: "pcall kenv \<Rightarrow> (pworld, int) state" where
  "plat1_init E = do {
     kvoid (Printk ''Initializing plat1 driver'');
     p \<leftarrow> kptr_call E Platform_device_register_simple;
     if IS_ERR p then do { kvoid (Printk ''Device allocation failed''); ret (PTR_ERR p) }
     else do {
       err \<leftarrow> kint E Platform_driver_probe;
       (if err \<noteq> 0 then do { kvoid (Printk ''Probe platform driver failed''); kvoid (Platform_device_unregister p) } else ret ());
       ret err } }"

definition plat1_exit :: "(pworld, unit) state" where
  "plat1_exit = do {
     kvoid (Printk ''Exiting plat1 driver'');
     p \<leftarrow> gets pdev;
     kvoid (Platform_device_unregister p);
     kvoid Platform_driver_unregister }"

definition plat2_init :: "pcall kenv \<Rightarrow> (pworld, int) state" where
  "plat2_init E = do { kvoid (Printk ''Initializing Plat2''); kint E Platform_driver_register }"

definition plat2_exit :: "(pworld, unit) state" where
  "plat2_exit = do { kvoid (Printk ''Exiting Plat2''); kvoid Platform_driver_unregister }"

text \<open>\<^verbatim>\<open>plat3_ins.c\<close>, \<^verbatim>\<open>fake-gpio-ins.c\<close>, \<^verbatim>\<open>iio1_ins.c\<close> and \<^verbatim>\<open>eth-ins.c\<close>: the same statements for four names.\<close>

definition ins_add :: "string \<Rightarrow> string \<Rightarrow> pcall kenv \<Rightarrow> (pworld, int) state" where
  "ins_add nm added E = do {
     p \<leftarrow> kptr_call E (Platform_device_alloc nm);
     modify (\<lambda>w. w\<lparr>pdev := p\<rparr>);
     _ \<leftarrow> kint E (Platform_device_add p);
     kvoid (Printk added);
     ret 0 }"

definition ins_put :: "string \<Rightarrow> (pworld, unit) state" where
  "ins_put removed = do { kvoid (Printk removed); p \<leftarrow> gets pdev; kvoid (Platform_device_put p) }"

definition platform_dummy_char_add :: "pcall kenv \<Rightarrow> (pworld, int) state" where
  "platform_dummy_char_add E = ins_add ''platform-dummy-char'' ''platform-dummy-char device added'' E"
definition platform_dummy_char_put :: "(pworld, unit) state" where
  "platform_dummy_char_put = ins_put ''platform-dummy-char device removed''"

definition fake_gpio_add :: "pcall kenv \<Rightarrow> (pworld, int) state" where
  "fake_gpio_add E = ins_add ''fake-gpio-chip'' ''fake-gpio-chip added'' E"
definition fake_gpio_put :: "(pworld, unit) state" where
  "fake_gpio_put = ins_put ''fake-gpio-chip removed''"

definition fake_iio_add :: "pcall kenv \<Rightarrow> (pworld, int) state" where
  "fake_iio_add E = ins_add ''iio-dummy-random'' ''iio-dummy-random added'' E"
definition fake_iio_put :: "(pworld, unit) state" where
  "fake_iio_put = ins_put ''iio-dummy-random removed''"

definition fake_eth_add :: "pcall kenv \<Rightarrow> (pworld, int) state" where
  "fake_eth_add E = ins_add ''fake-eth'' ''fake-eth added'' E"
definition fake_eth_put :: "(pworld, unit) state" where
  "fake_eth_put = ins_put ''fake-fake removed''"

section \<open>GPIO, IIO and Ethernet\<close>

definition GPIO_NUM :: nat where "GPIO_NUM = 16"

definition fake_get_value :: "nat \<Rightarrow> int" where "fake_get_value offset = 0"
definition fake_set_value :: "nat \<Rightarrow> int \<Rightarrow> gpio_chip \<Rightarrow> gpio_chip" where "fake_set_value offset val gc = gc"
definition fake_direction_output :: "nat \<Rightarrow> int \<Rightarrow> int" where "fake_direction_output offset val = 0"
definition fake_direction_input :: "nat \<Rightarrow> int" where "fake_direction_input offset = 0"

definition gpio_probe :: "pcall kenv \<Rightarrow> (pworld, int) state" where
  "gpio_probe E = kint E (Gpiochip_add \<lparr>gpio_label = ''fake-gpio-chip'', gpio_base = - 1, ngpio = GPIO_NUM, can_sleep = True\<rparr>)"

definition gpio_remove :: "(pworld, int) state" where
  "gpio_remove = do { kvoid Gpiochip_remove; ret 0 }"

text \<open>\<^verbatim>\<open>IIO_CHAN_INFO_RAW\<close> and \<^verbatim>\<open>IIO_CHAN_INFO_SCALE\<close> are bits 0 and 2 of the information masks.\<close>

definition FAKE_VOLTAGE_CHANNEL :: "nat \<Rightarrow> iio_chan_spec" where
  "FAKE_VOLTAGE_CHANNEL num = \<lparr>iio_indexed = True, iio_channel = num, iio_address = num, iio_separate = 1, iio_shared = 4\<rparr>"

definition fake_channels :: "iio_chan_spec list" where
  "fake_channels = [FAKE_VOLTAGE_CHANNEL 0, FAKE_VOLTAGE_CHANNEL 1, FAKE_VOLTAGE_CHANNEL 2, FAKE_VOLTAGE_CHANNEL 3]"

definition dummy_scan_masks :: "ulong list" where
  "dummy_scan_masks = [0xF, 0]"

text \<open>Neither accessor writes through its pointers; both report 0.\<close>

definition fake_read_raw :: "iio_chan_spec \<Rightarrow> int \<times> int \<Rightarrow> int \<Rightarrow> (int \<times> int) \<times> int" where
  "fake_read_raw channel vals info = (vals, 0)"
definition fake_write_raw :: "iio_chan_spec \<Rightarrow> int \<times> int \<Rightarrow> int \<Rightarrow> int" where
  "fake_write_raw chan vals info = 0"

definition iio_probe :: "pcall kenv \<Rightarrow> (pworld, int) state" where
  "iio_probe E = do {
     p \<leftarrow> kptr_call E Devm_iio_device_alloc;
     if p = Null then do { kvoid (Printk ''iio allocation failed!''); ret (- ENOMEM) }
     else do {
       kvoid Mutex_init;
       _ \<leftarrow> kint E (Iio_device_register p \<lparr>iio_name = ''iio1'', iio_channels = fake_channels,
         num_channels = length fake_channels, scan_masks = dummy_scan_masks\<rparr>);
       modify (\<lambda>w. w\<lparr>drvdata := p\<rparr>);
       ret 0 } }"

definition iio_remove :: "(pworld, int) state" where
  "iio_remove = do { p \<leftarrow> gets drvdata; kvoid (Iio_device_unregister p); ret 0 }"

definition fake_eth_probe :: "pcall kenv \<Rightarrow> (pworld, int) state" where
  "fake_eth_probe E = do {
     priv \<leftarrow> kptr_call E Devm_kzalloc;
     if priv = Null then ret (- ENOMEM)
     else do {
       n \<leftarrow> kptr_call E Alloc_etherdev;
       (if n = Null then koops ''dummy_ndev->if_port'' else ret ());
       r \<leftarrow> kint E (Register_netdev n);
       if r \<noteq> 0 then do { kvoid (Printk ''dummy net dev: Error initalizing card''); ret r }
       else do { modify (\<lambda>w. w\<lparr>ndev := n, drvdata := priv\<rparr>); ret 0 } } }"

definition fake_eth_remove :: "(pworld, int) state" where
  "fake_eth_remove = do {
     kvoid (Printk ''Cleaning Up the Module'');
     n \<leftarrow> gets ndev;
     kvoid (Unregister_netdev n);
     kvoid (Free_netdev n);
     ret 0 }"

definition fake_eth_init :: "(pworld, int) state" where
  "fake_eth_init = do { kvoid (Printk ''fake eth device initialized''); ret 0 }"
definition fake_eth_open :: "(pworld, int) state" where
  "fake_eth_open = do { kvoid (Printk ''fake_eth_open called''); kvoid Netif_start_queue; ret 0 }"
definition fake_eth_release :: "(pworld, int) state" where
  "fake_eth_release = do { kvoid (Printk ''fake_eth_release called''); kvoid Netif_stop_queue; ret 0 }"

text \<open>A socket buffer is its identity and its length, an \<^verbatim>\<open>unsigned int\<close>.\<close>

definition fake_eth_xmit :: "nat \<times> u32 \<Rightarrow> (pworld, int) state" where
  "fake_eth_xmit skb = do {
     kvoid (Printk ''dummy xmit called...'');
     modify (\<lambda>w. w\<lparr>stats := (stats w)\<lparr>tx_bytes := tx_bytes (stats w) + ucast (snd skb)\<rparr>\<rparr>);
     modify (\<lambda>w. w\<lparr>stats := (stats w)\<lparr>tx_packets := tx_packets (stats w) + 1\<rparr>\<rparr>);
     kvoid (Skb_tx_timestamp (fst skb));
     kvoid (Dev_kfree_skb (fst skb));
     ret 0 }"

definition my_netdev_ops :: "(pworld, int) state set" where
  "my_netdev_ops = {fake_eth_init, fake_eth_open, fake_eth_release} \<union> range fake_eth_xmit"

section \<open>The driver structures\<close>

text \<open>
  What the drivers tell the platform bus about themselves. A driver without a table of compatible names leaves
  \<open>drv_of_match\<close> empty.
\<close>

record platform_driver =
  drv_probe :: "pcall kenv \<Rightarrow> (pworld, int) state"
  drv_remove :: "(pworld, int) state"
  drv_name :: string
  drv_of_match :: "string list"

definition plat1_driver :: platform_driver where
  "plat1_driver = \<lparr>drv_probe = plat1_probe, drv_remove = plat1_remove, drv_name = ''plat1'', drv_of_match = []\<rparr>"

definition plat2_driver :: platform_driver where
  "plat2_driver = \<lparr>drv_probe = plat2_probe, drv_remove = plat2_remove, drv_name = ''plat2'', drv_of_match = []\<rparr>"

definition plat3_driver :: platform_driver where
  "plat3_driver = \<lparr>drv_probe = my_pdrv_probe, drv_remove = my_pdrv_remove, drv_name = ''platform-dummy-char'', drv_of_match = []\<rparr>"

definition fake_gpiochip_ids :: "string list" where
  "fake_gpiochip_ids = [''packt,fake-gpio-chip'']"

definition gpio_driver :: platform_driver where
  "gpio_driver = \<lparr>drv_probe = gpio_probe, drv_remove = gpio_remove, drv_name = ''fake-gpio-chip'', drv_of_match = fake_gpiochip_ids\<rparr>"

definition iio_dummy_ids :: "string list" where
  "iio_dummy_ids = [''packt,iio-dummy-random'']"

definition iio_driver :: platform_driver where
  "iio_driver = \<lparr>drv_probe = iio_probe, drv_remove = iio_remove, drv_name = ''iio-dummy-random'', drv_of_match = iio_dummy_ids\<rparr>"

definition fake_eth_dt_ids :: "string list" where
  "fake_eth_dt_ids = [''packt,fake-eth'']"

definition eth_driver :: platform_driver where
  "eth_driver = \<lparr>drv_probe = fake_eth_probe, drv_remove = fake_eth_remove, drv_name = ''fake-eth'', drv_of_match = fake_eth_dt_ids\<rparr>"

definition platform_drivers :: "platform_driver list" where
  "platform_drivers = [plat1_driver, plat2_driver, plat3_driver, gpio_driver, iio_driver, eth_driver]"

lemmas driver_defs = plat1_driver_def plat2_driver_def plat3_driver_def gpio_driver_def iio_driver_def eth_driver_def

section \<open>The ledger\<close>

datatype pres =
    Region int
  | Chrdev int string
  | CdevLive kptr
  | Class kptr
  | Node kptr int
  | Pdev kptr
  | PdevRef kptr
  | PdevLive kptr
  | Driver
  | Gpio
  | Iio kptr
  | NetMem kptr
  | Netdev kptr

text \<open>A structure from \<^verbatim>\<open>cdev_alloc\<close> belongs to the device it is added as, and is freed with it.\<close>

definition p_acq :: "pcall kevent \<Rightarrow> pres option" where
  "p_acq ev = (case ev of
     RetI Region_dev d \<Rightarrow> Some (Region d)
   | RetI (Register_chrdev nm) r \<Rightarrow> if 0 \<le> r then Some (Chrdev r nm) else None
   | RetI (Cdev_add p d) r \<Rightarrow> if 0 \<le> r then Some (CdevLive p) else None
   | RetP (Class_create _) p \<Rightarrow> if is_addr p then Some (Class p) else None
   | RetP (Device_create c d) p \<Rightarrow> if is_addr p then Some (Node c d) else None
   | RetP Platform_device_register_simple p \<Rightarrow> if is_addr p then Some (Pdev p) else None
   | RetI Platform_driver_probe r \<Rightarrow> if r = 0 then Some Driver else None
   | RetI Platform_driver_register r \<Rightarrow> if r = 0 then Some Driver else None
   | RetP (Platform_device_alloc _) p \<Rightarrow> if is_addr p then Some (PdevRef p) else None
   | RetI (Platform_device_add p) r \<Rightarrow> if r = 0 then Some (PdevLive p) else None
   | RetI (Gpiochip_add _) r \<Rightarrow> if r = 0 then Some Gpio else None
   | RetI (Iio_device_register p _) r \<Rightarrow> if 0 \<le> r then Some (Iio p) else None
   | RetP Alloc_etherdev p \<Rightarrow> if is_addr p then Some (NetMem p) else None
   | RetI (Register_netdev p) r \<Rightarrow> if r = 0 then Some (Netdev p) else None
   | _ \<Rightarrow> None)"

definition p_rel :: "pcall kevent \<Rightarrow> pres option" where
  "p_rel ev = (case ev of
     Void (Unregister_chrdev_region d) \<Rightarrow> Some (Region d)
   | Void (Unregister_chrdev m nm) \<Rightarrow> Some (Chrdev m nm)
   | Void (Cdev_del p) \<Rightarrow> Some (CdevLive p)
   | Void (Class_destroy c) \<Rightarrow> Some (Class c)
   | Void (Device_destroy c d) \<Rightarrow> Some (Node c d)
   | Void (Platform_device_unregister p) \<Rightarrow> if p = Null then None else Some (Pdev p)
   | Void Platform_driver_unregister \<Rightarrow> Some Driver
   | Void (Platform_device_put p) \<Rightarrow> if p = Null then None else Some (PdevRef p)
   | Void Gpiochip_remove \<Rightarrow> Some Gpio
   | Void (Iio_device_unregister p) \<Rightarrow> Some (Iio p)
   | Void (Unregister_netdev p) \<Rightarrow> Some (Netdev p)
   | Void (Free_netdev p) \<Rightarrow> Some (NetMem p)
   | _ \<Rightarrow> None)"

declare p_acq_def [tables] p_rel_def [tables]

abbreviation p_ledger :: "pcall ktrace \<Rightarrow> pres ledger" where
  "p_ledger \<equiv> ledger_of p_acq p_rel"

text \<open>A kernel that grants what it is asked for; a region asked for from minor 0 on starts at minor 0.\<close>

definition kernel_serves :: "pcall kenv \<Rightarrow> bool" where
  "kernel_serves E \<longleftrightarrow> (\<forall>tr c. is_addr (ret_ptr E tr c)) \<and> (\<forall>tr c. 0 \<le> ret_int E tr c) \<and>
     (\<forall>tr. ret_int E tr Region_dev mod 2 ^ 20 = 0)"

lemma MKDEV_MAJOR [simp]: "d mod 2 ^ 20 = 0 \<Longrightarrow> MKDEV (MAJOR d) 0 = d"
  unfolding MKDEV_def MAJOR_def using div_mult_mod_eq [of d "2 ^ 20"] by linarith

lemma served:
  assumes "kernel_serves E"
  shows "ret_ptr E tr c \<noteq> Null" "\<not> IS_ERR (ret_ptr E tr c)" "0 \<le> ret_int E tr k" "\<not> ret_int E tr k < 0"
    "MKDEV (MAJOR (ret_int E tr Region_dev)) 0 = ret_int E tr Region_dev"
proof -
  have a: "is_addr (ret_ptr E tr c)" and i: "0 \<le> ret_int E tr k" and d: "ret_int E tr Region_dev mod 2 ^ 20 = 0"
    using assms by (simp_all add: kernel_serves_def)
  show "ret_ptr E tr c \<noteq> Null" "\<not> IS_ERR (ret_ptr E tr c)" using a by simp_all
  show "0 \<le> ret_int E tr k" "\<not> ret_int E tr k < 0" using i by simp_all
  show "MKDEV (MAJOR (ret_int E tr Region_dev)) 0 = ret_int E tr Region_dev" using d by (rule MKDEV_MAJOR)
qed

definition nothing :: "(pworld, int) state \<Rightarrow> (pworld, unit) state" where
  "nothing m = do { _ \<leftarrow> m; ret () }"

text \<open>The handlers log, count and hand buffers back; they do not touch what is registered.\<close>

lemmas handler_defs = dummy_fops_def dummy_open_def dummy_release_def dummy_read_def dummy_write_def
  plat3_fops_def plat3_open_def plat3_release_def plat3_read_def plat3_write_def
  chrdevic_fileops_def chrdevic_open_def chrdevic_release_def chrdevic_read_def chrdevic_write_def chrdevic_lseek_def chrdevic_ioctl_def
  plat1_fops_def plat1_open_def plat1_release_def plat1_read_def plat1_write_def
  plat2_fops_def plat2_open_def plat2_release_def plat2_read_def plat2_write_def
  testchar_fops_def test_open_def test_release_def test_read_def test_write_def plat_handler_def
  fake_eth_init_def fake_eth_open_def fake_eth_release_def fake_eth_xmit_def

lemmas handler_run = keeps_def handler_defs final_world_def krun ledger_of_append tables

definition dummy_held :: "pworld \<Rightarrow> pres multiset" where
  "dummy_held w = {#Region (MKDEV (major w) 0), Class (dummy_class w), CdevLive dummy_cdev, Node (dummy_class w) (MKDEV (major w) 0)#}"

definition chrdevic_calls :: "(pworld, int) state set" where
  "chrdevic_calls = range (file_do chrdevic_fileops) \<union> {fop_llseek chrdevic_fileops, fop_ioctl chrdevic_fileops}"

interpretation dummy_mod: served_module "dummy_register no_class no_node" "\<lambda>_. dummy_char_cleanup_module" p_acq p_rel dummy_held kernel_serves
  "range (file_do dummy_fops) \<union> range (file_do plat3_fops)" for no_class no_node
proof (unfold_locales, goal_cases)
  case (3 m)
  have "m \<in> range (file_do dummy_fops) \<Longrightarrow> ?case" by (rule keeps_file_do) (simp_all add: handler_run dummy_held_def)
  moreover have "m \<in> range (file_do plat3_fops) \<Longrightarrow> ?case" by (rule keeps_file_do) (simp_all add: handler_run dummy_held_def)
  ultimately show ?case using 3 by blast
next
  case (1 E w w')
  then show ?case by (auto simp: dummy_held_def dummy_register_def alloc_region_def Let_def served krun ledger_of_append tables split: if_splits)
next
  case (2 w M E)
  then show ?case
    by (cases "p_ledger (trace w)") (simp add: dummy_held_def dummy_char_cleanup_module_def final_world_def krun ledger_of_append tables)
qed

interpretation chrdevic_mod: served_module chrdevic_init "\<lambda>_. chrdevic_cleanup" p_acq p_rel "\<lambda>w. {#Region (devicnums w), CdevLive (chrdevic w)#}" kernel_serves
  chrdevic_calls
proof (unfold_locales, goal_cases)
  case (3 m)
  have "m \<in> range (file_do chrdevic_fileops) \<Longrightarrow> ?case" by (rule keeps_file_do) (simp_all add: handler_run)
  moreover have "m \<in> {fop_llseek chrdevic_fileops, fop_ioctl chrdevic_fileops} \<Longrightarrow> ?case" by (auto simp: handler_run)
  ultimately show ?case using 3 unfolding chrdevic_calls_def by blast
next
  case (1 E w w')
  then show ?case by (auto simp: chrdevic_init_def alloc_region_def served krun ledger_of_append tables split: if_splits)
next
  case (2 w M E)
  then show ?case
    by (cases "p_ledger (trace w)") (simp add: chrdevic_cleanup_def final_world_def krun ledger_of_append tables)
qed

interpretation testchar_mod: served_module testchar_init "\<lambda>_. testchar_cleanup" p_acq p_rel "\<lambda>w. {#Chrdev (major w) ''testchar''#}" kernel_serves
  "range (file_do testchar_fops)"
proof (unfold_locales, goal_cases)
  case (3 m)
  then show ?case by (rule keeps_file_do [rotated 4]) (simp_all add: handler_run)
next
  case (1 E w w')
  then show ?case by (auto simp: testchar_init_def served krun ledger_of_append tables split: if_splits)
next
  case (2 w M E)
  then show ?case
    by (cases "p_ledger (trace w)") (simp add: testchar_cleanup_def final_world_def krun ledger_of_append tables)
qed

interpretation plat_dev: served_module "plat_probe nm" "\<lambda>_. nothing (plat_remove nm)" p_acq p_rel "\<lambda>w. {#Chrdev (major w) nm#}" kernel_serves
  "range (file_do plat1_fops) \<union> range (file_do plat2_fops)" for nm
proof (unfold_locales, goal_cases)
  case (3 m)
  have "m \<in> range (file_do plat1_fops) \<Longrightarrow> ?case" by (rule keeps_file_do) (simp_all add: handler_run)
  moreover have "m \<in> range (file_do plat2_fops) \<Longrightarrow> ?case" by (rule keeps_file_do) (simp_all add: handler_run)
  ultimately show ?case using 3 by blast
next
  case (1 E w w')
  then show ?case by (auto simp: plat_probe_def served krun ledger_of_append tables split: if_splits)
next
  case (2 w M E)
  then show ?case
    by (cases "p_ledger (trace w)") (simp add: nothing_def plat_remove_def final_world_def krun ledger_of_append tables)
qed

interpretation plat2_mod: kernel_module plat2_init "\<lambda>_. plat2_exit" p_acq p_rel "\<lambda>_. {#Driver#}" kernel_serves
proof (unfold_locales, goal_cases)
  case (1 E w w')
  then show ?case by (auto simp: plat2_init_def served krun ledger_of_append tables split: if_splits)
next
  case (2 w M E)
  then show ?case
    by (cases "p_ledger (trace w)") (simp add: plat2_exit_def final_world_def krun ledger_of_append tables)
qed

interpretation gpio_dev: kernel_module gpio_probe "\<lambda>_. nothing gpio_remove" p_acq p_rel "\<lambda>_. {#Gpio#}" kernel_serves
proof (unfold_locales, goal_cases)
  case (1 E w w')
  then show ?case by (auto simp: gpio_probe_def served krun ledger_of_append tables split: if_splits)
next
  case (2 w M E)
  then show ?case
    by (cases "p_ledger (trace w)") (simp add: nothing_def gpio_remove_def final_world_def krun ledger_of_append tables)
qed

interpretation iio_dev: kernel_module iio_probe "\<lambda>_. nothing iio_remove" p_acq p_rel "\<lambda>w. {#Iio (drvdata w)#}" kernel_serves
proof (unfold_locales, goal_cases)
  case (1 E w w')
  then show ?case by (auto simp: iio_probe_def served krun ledger_of_append tables split: if_splits)
next
  case (2 w M E)
  then show ?case
    by (cases "p_ledger (trace w)") (simp add: nothing_def iio_remove_def final_world_def krun ledger_of_append tables)
qed

interpretation eth_dev: served_module fake_eth_probe "\<lambda>_. nothing fake_eth_remove" p_acq p_rel "\<lambda>w. {#NetMem (ndev w), Netdev (ndev w)#}" kernel_serves
  my_netdev_ops
proof (unfold_locales, goal_cases)
  case (3 m)
  then show ?case by (auto simp: my_netdev_ops_def handler_run)
next
  case (1 E w w')
  then show ?case by (auto simp: fake_eth_probe_def served krun ledger_of_append tables split: if_splits)
next
  case (2 w M E)
  then show ?case
    by (cases "p_ledger (trace w)") (simp add: nothing_def fake_eth_remove_def final_world_def krun ledger_of_append tables)
qed

section \<open>Properties\<close>

text \<open>
  The load and unload pairs, and the probe and remove pairs, that undo what they do, each with the calls the kernel can make
  to it in between. The accessors of the GPIO chip and of the IIO device are pure functions.
\<close>

definition reg_modules :: "((pcall kenv \<Rightarrow> (pworld, int) state) \<times> (pworld, unit) state \<times> (pworld, int) state set) list" where
  "reg_modules =
     [(dummy_char_init_module, dummy_char_cleanup_module, range (file_do dummy_fops)),
      (my_pdrv_probe, nothing my_pdrv_remove, range (file_do plat3_fops)),
      (chrdevic_init, chrdevic_cleanup, chrdevic_calls),
      (testchar_init, testchar_cleanup, range (file_do testchar_fops)),
      (plat1_probe, nothing plat1_remove, range (file_do plat1_fops)),
      (plat2_probe, nothing plat2_remove, range (file_do plat2_fops)),
      (fake_eth_probe, nothing fake_eth_remove, my_netdev_ops),
      (plat2_init, plat2_exit, {}), (gpio_probe, nothing gpio_remove, {}), (iio_probe, nothing iio_remove, {})]"

lemma final_nothing: "final_world (nothing (do { _ \<leftarrow> m; ret x })) w = final_world m w"
  by (simp add: nothing_def final_world_def case_prod_beta)

text \<open>
  A number region asked for from minor 0 on starts at minor 0. That is all the following needs from the kernel: each load or probe that
  reports success holds at most what the unload or remove asks for.
\<close>

definition minor_0 :: "pcall kenv \<Rightarrow> bool" where
  "minor_0 E \<longleftrightarrow> (\<forall>tr. ret_int E tr Region_dev mod 2 ^ 20 = 0)"

lemma minor_0D: "minor_0 E \<Longrightarrow> MKDEV (MAJOR (ret_int E tr Region_dev)) 0 = ret_int E tr Region_dev"
  by (simp add: minor_0_def)

lemmas owned_run = final_world_def krun ledger_of_append ledger_step_owned tables

lemma dummy_at_most:
  assumes "minor_0 E" and "run_state (dummy_register no_class no_node E) w = (0, w')"
  shows "owned (p_ledger (trace w')) \<subseteq># owned (p_ledger (trace w)) + dummy_held w'"
  using assms(2)
  by (auto simp: dummy_held_def dummy_register_def alloc_region_def Let_def owned_run minor_0D [OF assms(1)] split: if_splits)

lemma chrdevic_at_most:
  assumes "run_state (chrdevic_init E) w = (0, w')"
  shows "owned (p_ledger (trace w')) \<subseteq># owned (p_ledger (trace w)) + {#Region (devicnums w'), CdevLive (chrdevic w')#}"
  using assms by (auto simp: chrdevic_init_def alloc_region_def owned_run split: if_splits)

lemma chrdev_at_most:
  "run_state (testchar_init E) w = (0, w') \<Longrightarrow> owned (p_ledger (trace w')) \<subseteq># owned (p_ledger (trace w)) + {#Chrdev (major w') ''testchar''#}"
  "run_state (plat_probe nm E) w = (0, w') \<Longrightarrow> owned (p_ledger (trace w')) \<subseteq># owned (p_ledger (trace w)) + {#Chrdev (major w') nm#}"
  by (auto simp: testchar_init_def plat_probe_def owned_run split: if_splits)

lemma device_at_most:
  "run_state (plat2_init E) w = (0, w') \<Longrightarrow> owned (p_ledger (trace w')) \<subseteq># owned (p_ledger (trace w)) + {#Driver#}"
  "run_state (gpio_probe E) w = (0, w') \<Longrightarrow> owned (p_ledger (trace w')) \<subseteq># owned (p_ledger (trace w)) + {#Gpio#}"
  "run_state (iio_probe E) w = (0, w') \<Longrightarrow> owned (p_ledger (trace w')) \<subseteq># owned (p_ledger (trace w)) + {#Iio (drvdata w')#}"
  "run_state (fake_eth_probe E) w = (0, w') \<Longrightarrow>
     owned (p_ledger (trace w')) \<subseteq># owned (p_ledger (trace w)) + {#NetMem (ndev w'), Netdev (ndev w')#}"
  by (auto simp: plat2_init_def gpio_probe_def iio_probe_def fake_eth_probe_def owned_run split: if_splits)

lemma removes_owned:
  "owned (p_ledger (trace (final_world dummy_char_cleanup_module v))) = owned (p_ledger (trace v)) - dummy_held v"
  "owned (p_ledger (trace (final_world chrdevic_cleanup v))) = owned (p_ledger (trace v)) - {#Region (devicnums v), CdevLive (chrdevic v)#}"
  "owned (p_ledger (trace (final_world testchar_cleanup v))) = owned (p_ledger (trace v)) - {#Chrdev (major v) ''testchar''#}"
  "owned (p_ledger (trace (final_world (nothing (plat_remove nm)) v))) = owned (p_ledger (trace v)) - {#Chrdev (major v) nm#}"
  "owned (p_ledger (trace (final_world plat2_exit v))) = owned (p_ledger (trace v)) - {#Driver#}"
  "owned (p_ledger (trace (final_world (nothing gpio_remove) v))) = owned (p_ledger (trace v)) - {#Gpio#}"
  "owned (p_ledger (trace (final_world (nothing iio_remove) v))) = owned (p_ledger (trace v)) - {#Iio (drvdata v)#}"
  "owned (p_ledger (trace (final_world (nothing fake_eth_remove) v))) = owned (p_ledger (trace v)) - {#NetMem (ndev v), Netdev (ndev v)#}"
  by (simp_all add: dummy_held_def dummy_char_cleanup_module_def chrdevic_cleanup_def testchar_cleanup_def nothing_def plat_remove_def
      plat2_exit_def gpio_remove_def iio_remove_def fake_eth_remove_def owned_run diff_diff_add_mset add_mset_commute)

text \<open>
  C35. The registering drivers leave nothing behind, however they were used: whatever else the kernel answers (a number region asked for
  from minor 0 on starts there), a load or probe that reports success, any sequence of calls to the handlers, and the unload or
  remove leave nothing registered that was not there before. If the kernel grants what they ask for (\<open>kernel_serves\<close>), the ledger is as it
  was. (Several of them overlook failures; then they give back what they do not hold: \<open>overlooked_failures\<close>.)
\<close>

theorem reg_sessions_balanced:
  assumes "(init, exit, handlers) \<in> set reg_modules" and "minor_0 E" and "result (init E) w = 0"
    and "set ms \<subseteq> handlers"
  shows "let w' = final_world exit (in_use ms (final_world (init E) w)) in
    owned (p_ledger (trace w')) \<subseteq># owned (p_ledger (trace w)) \<and> (kernel_serves E \<longrightarrow> p_ledger (trace w') = p_ledger (trace w))"
proof -
  have r: "run_state (init E) w = (0, final_world (init E) w)" using assms(3) by (rule run_result)
  have d: "final_world (nothing my_pdrv_remove) v = final_world dummy_char_cleanup_module v" for v
    unfolding my_pdrv_remove_def by (rule final_nothing)
  have e: "in_use [] v = v" for v :: pworld by (simp add: in_use_def)
  note defs = d dummy_char_init_module_def my_pdrv_probe_def plat1_probe_def plat2_probe_def plat1_remove_def plat2_remove_def
  note l = session_leaves_nothing [OF dummy_at_most [OF assms(2)] removes_owned(1)] session_leaves_nothing [OF chrdevic_at_most removes_owned(2)]
    session_leaves_nothing [OF chrdev_at_most(1) removes_owned(3)] session_leaves_nothing [OF chrdev_at_most(2) removes_owned(4)]
    session_leaves_nothing [OF device_at_most(1) removes_owned(5)] session_leaves_nothing [OF device_at_most(2) removes_owned(6)]
    session_leaves_nothing [OF device_at_most(3) removes_owned(7)] session_leaves_nothing [OF device_at_most(4) removes_owned(8)]
  have "owned (p_ledger (trace (final_world exit (in_use ms (final_world (init E) w))))) \<subseteq># owned (p_ledger (trace w))"
    using assms(1) unfolding reg_modules_def list.set insert_iff empty_iff prod.inject
  proof (elim disjE FalseE conjE, goal_cases)
    case 1
    then show ?case using r assms(4) dummy_mod.handlers_keep by (simp add: defs) (rule l(1), auto)
  next
    case 2
    then show ?case using r assms(4) dummy_mod.handlers_keep by (simp add: defs) (rule l(1), auto)
  next
    case 3
    then show ?case using r assms(4) chrdevic_mod.handlers_keep by (simp add: defs) (rule l(2), auto)
  next
    case 4
    then show ?case using r assms(4) testchar_mod.handlers_keep by (simp add: defs) (rule l(3), auto)
  next
    case 5
    then show ?case using r assms(4) plat_dev.handlers_keep by (simp add: defs) (rule l(4), auto)
  next
    case 6
    then show ?case using r assms(4) plat_dev.handlers_keep by (simp add: defs) (rule l(4), auto)
  next
    case 7
    then show ?case using r assms(4) eth_dev.handlers_keep by (simp add: defs) (rule l(8), auto)
  next
    case 8
    then show ?case using r assms(4) by (simp add: defs) (rule l(5), auto)
  next
    case 9
    then show ?case using r assms(4) by (simp add: defs) (rule l(6), auto)
  next
    case 10
    then show ?case using r assms(4) by (simp add: defs) (rule l(7), auto)
  qed
  moreover have "p_ledger (trace (final_world exit (in_use ms (final_world (init E) w)))) = p_ledger (trace w)" if k: "kernel_serves E"
  proof -
    note b = dummy_mod.session_balanced [OF k] chrdevic_mod.session_balanced [OF k]
      testchar_mod.session_balanced [OF k] plat_dev.session_balanced [OF k]
      eth_dev.session_balanced [OF k] plat2_mod.load_unload_balanced [OF k]
      gpio_dev.load_unload_balanced [OF k] iio_dev.load_unload_balanced [OF k]
    from assms(1,4) show ?thesis
      unfolding reg_modules_def using r by (auto simp: defs e intro!: b)
  qed
  ultimately show ?thesis by (simp add: Let_def)
qed

definition serving_env :: "pcall kenv" where
  "serving_env = \<lparr>ret_int = (\<lambda>tr c. case c of Region_dev \<Rightarrow> 254 * 2 ^ 20 | _ \<Rightarrow> 0), ret_ptr = (\<lambda>tr c. Ptr (length tr))\<rparr>"

definition pw0 :: pworld where
  "pw0 = \<lparr>trace = [], major = 0, devicnums = 0, dummy_class = Null, chrdevic = Null, pdev = Null, drvdata = Null, ndev = Null,
     stats = \<lparr>tx_bytes = 0, tx_packets = 0\<rparr>, open_counter = 0\<rparr>"

lemma serving_env_ok: "kernel_serves serving_env"
  by (auto simp: kernel_serves_def serving_env_def split: pcall.split)

theorem reg_sessions_balanced_witness:
  "owned (p_ledger (trace (final_world dummy_char_cleanup_module
     (in_use (map (file_do dummy_fops) [Call_open, Call_write 3, Call_release]) (final_world (dummy_char_init_module serving_env) pw0))))) = {#}"
proof -
  have "result (dummy_char_init_module serving_env) pw0 = 0"
    by (simp add: dummy_char_init_module_def dummy_register_def alloc_region_def serving_env_def result_def krun Let_def)
  then have "p_ledger (trace (final_world dummy_char_cleanup_module
      (in_use (map (file_do dummy_fops) [Call_open, Call_write 3, Call_release]) (final_world (dummy_char_init_module serving_env) pw0)))) =
      p_ledger (trace pw0)"
    using reg_sessions_balanced [of dummy_char_init_module dummy_char_cleanup_module "range (file_do dummy_fops)" serving_env pw0
        "map (file_do dummy_fops) [Call_open, Call_write 3, Call_release]"] serving_env_ok
    by (auto simp: reg_modules_def Let_def minor_0_def kernel_serves_def)
  then show ?thesis by (simp add: pw0_def)
qed

text \<open>
  Failures that are overlooked: \<^verbatim>\<open>example_character.c\<close>, \<^verbatim>\<open>char1.c\<close>, \<^verbatim>\<open>char2.c\<close> and \<^verbatim>\<open>iio1.c\<close> report success although a call has failed, and their
  unload gives back what they do not hold.
\<close>

definition failing_env :: "pcall kenv" where
  "failing_env = \<lparr>ret_int = (\<lambda>tr c. case c of Region_dev \<Rightarrow> 254 * 2 ^ 20 | Alloc_chrdev_region \<Rightarrow> 0 | _ \<Rightarrow> - 12), ret_ptr = (\<lambda>tr c. Ptr 5)\<rparr>"

definition no_region_env :: "pcall kenv" where
  "no_region_env = \<lparr>ret_int = (\<lambda>tr c. case c of Alloc_chrdev_region \<Rightarrow> - 16 | _ \<Rightarrow> 0), ret_ptr = (\<lambda>tr c. Ptr 5)\<rparr>"

lemmas overlook_run = testchar_init_def testchar_cleanup_def iio_probe_def iio_remove_def nothing_def dummy_char_init_module_def
  dummy_register_def dummy_char_cleanup_module_def chrdevic_init_def chrdevic_cleanup_def alloc_region_def
  failing_env_def no_region_env_def pw0_def result_def final_world_def krun ledger_of_def tables Let_def MAJOR_def MKDEV_def

lemma overlooked_failures:
  "result (testchar_init failing_env) pw0 = 0 \<and>
     misused (p_ledger (trace (final_world testchar_cleanup (final_world (testchar_init failing_env) pw0)))) = {#Chrdev (- 12) ''testchar''#}"
  "result (iio_probe failing_env) pw0 = 0 \<and>
     misused (p_ledger (trace (final_world (nothing iio_remove) (final_world (iio_probe failing_env) pw0)))) = {#Iio (Ptr 5)#}"
  "result (dummy_char_init_module failing_env) pw0 = 0 \<and>
     misused (p_ledger (trace (final_world dummy_char_cleanup_module (final_world (dummy_char_init_module failing_env) pw0)))) = {#CdevLive dummy_cdev#}"
  "result (chrdevic_init no_region_env) pw0 = 0 \<and>
     misused (p_ledger (trace (final_world chrdevic_cleanup (final_world (chrdevic_init no_region_env) pw0)))) = {#Region 0#}"
  by (simp_all add: overlook_run)


text \<open>The four modules that only add a device.\<close>

definition ins_modules :: "((pcall kenv \<Rightarrow> (pworld, int) state) \<times> (pworld, unit) state) list" where
  "ins_modules = [(platform_dummy_char_add, platform_dummy_char_put), (fake_gpio_add, fake_gpio_put),
     (fake_iio_add, fake_iio_put), (fake_eth_add, fake_eth_put)]"

text \<open>
  The bus gives a device to the drivers that match it. For a device that was added by name the rule the kernel documents is that
  the names are equal (\<open>by_name\<close>). The names of the devices that have been made are read off the trace.
\<close>

definition by_name :: "(string \<Rightarrow> platform_driver \<Rightarrow> bool) \<Rightarrow> bool" where
  "by_name matches \<longleftrightarrow> (\<forall>nm d. matches nm d \<longleftrightarrow> drv_name d = nm)"

definition device_names :: "pcall ktrace \<Rightarrow> string list" where
  "device_names tr = concat (map (\<lambda>ev. case ev of RetP (Platform_device_alloc nm) _ \<Rightarrow> [nm] | _ \<Rightarrow> []) tr)"

text \<open>The modules that add a device, with the driver each is written for.\<close>

definition ins_pairs :: "((pcall kenv \<Rightarrow> (pworld, int) state) \<times> (pworld, unit) state \<times> platform_driver) list" where
  "ins_pairs = [(platform_dummy_char_add, platform_dummy_char_put, plat3_driver), (fake_gpio_add, fake_gpio_put, gpio_driver),
     (fake_iio_add, fake_iio_put, iio_driver), (fake_eth_add, fake_eth_put, eth_driver)]"

lemmas ins_code = platform_dummy_char_add_def platform_dummy_char_put_def fake_gpio_add_def fake_gpio_put_def fake_iio_add_def
  fake_iio_put_def fake_eth_add_def fake_eth_put_def ins_add_def ins_put_def

lemma ins_names:
  assumes "(add, put, d) \<in> set ins_pairs"
  shows "device_names (trace (final_world (add E) w)) = device_names (trace w) @ [drv_name d]"
  using assms by (auto simp: ins_pairs_def ins_code driver_defs device_names_def final_world_def krun)

lemma names_bind:
  assumes "by_name matches" and "(add, put, d) \<in> set ins_pairs"
  shows "filter (matches (drv_name d)) platform_drivers = [d]"
  using assms by (auto simp: by_name_def platform_drivers_def ins_pairs_def driver_defs)

lemma ins_add_registers:
  assumes "(add, put, d) \<in> set ins_pairs" and "kernel_serves E" and "\<forall>tr c. c \<noteq> Region_dev \<longrightarrow> ret_int E tr c = 0"
  shows "p_ledger (trace (final_world (add E) w)) = (p_ledger (trace w))\<lparr>owned := owned (p_ledger (trace w)) +
    {#PdevRef (pdev (final_world (add E) w)), PdevLive (pdev (final_world (add E) w))#}\<rparr> \<and> pdev (final_world (add E) w) \<noteq> Null"
  using assms(1,3)
  by (cases "p_ledger (trace w)")
    (auto simp: ins_pairs_def ins_code final_world_def served [OF assms(2)] krun ledger_of_append tables)

lemma ins_put_gives_back:
  assumes "(add, put, d) \<in> set ins_pairs" and "owned (p_ledger (trace w)) = M + {#PdevRef (pdev w), PdevLive (pdev w)#}"
    and "pdev w \<noteq> Null"
  shows "p_ledger (trace (final_world put w)) = (p_ledger (trace w))\<lparr>owned := M + {#PdevLive (pdev w)#}\<rparr>"
  using assms
  by (cases "p_ledger (trace w)") (auto simp: ins_pairs_def ins_code final_world_def krun ledger_of_append tables)

lemma probe_succeeds:
  assumes "(add, put, d) \<in> set ins_pairs" and "kernel_serves E" and "\<forall>tr c. c \<noteq> Region_dev \<longrightarrow> ret_int E tr c = 0"
  shows "run_state (drv_probe d E) w = (0, final_world (drv_probe d E) w) \<and> pdev (final_world (drv_probe d E) w) = pdev w"
  using assms(1,3)
  by (auto simp: ins_pairs_def driver_defs my_pdrv_probe_def dummy_register_def alloc_region_def gpio_probe_def iio_probe_def
      fake_eth_probe_def final_world_def served [OF assms(2)] krun Let_def)

lemma remove_keeps_pdev:
  assumes "(add, put, d) \<in> set ins_pairs"
  shows "pdev (final_world (drv_remove d) w) = pdev w"
  using assms
  by (auto simp: ins_pairs_def driver_defs my_pdrv_remove_def dummy_char_cleanup_module_def gpio_remove_def iio_remove_def
      fake_eth_remove_def final_world_def krun)

lemma nothing_final [simp]: "final_world (nothing m) w = final_world m w"
  by (simp add: nothing_def final_world_def case_prod_beta)

lemma probe_remove_balanced:
  assumes "(add, put, d) \<in> set ins_pairs" and "kernel_serves E" and "run_state (drv_probe d E) w = (0, w')"
  shows "p_ledger (trace (final_world (drv_remove d) w')) = p_ledger (trace w)"
proof -
  note b = gpio_dev.load_unload_balanced [OF assms(2)] iio_dev.load_unload_balanced [OF assms(2)]
    eth_dev.load_unload_balanced [OF assms(2)] dummy_mod.load_unload_balanced [OF assms(2)]
  have d: "final_world my_pdrv_remove v = final_world dummy_char_cleanup_module v" for v
    by (simp add: my_pdrv_remove_def final_world_def case_prod_beta)
  from assms(1,3) show ?thesis
    using b unfolding ins_pairs_def by (auto simp: driver_defs my_pdrv_probe_def d)
qed

text \<open>The same for any kernel: what the module, the probe and the remove hold at most.\<close>

lemma ins_add_at_most:
  assumes "(add, put, d) \<in> set ins_pairs"
  shows "owned (p_ledger (trace (final_world (add E) w))) \<subseteq># owned (p_ledger (trace w)) +
    (if pdev (final_world (add E) w) = Null then {#} else {#PdevRef (pdev (final_world (add E) w))#}) + {#PdevLive (pdev (final_world (add E) w))#}"
  using assms by (auto simp: ins_pairs_def ins_code owned_run)

lemma ins_put_owned:
  assumes "(add, put, d) \<in> set ins_pairs"
  shows "owned (p_ledger (trace (final_world put v))) =
    owned (p_ledger (trace v)) - (if pdev v = Null then {#} else {#PdevRef (pdev v)#})"
  using assms by (auto simp: ins_pairs_def ins_code owned_run)

lemma probe_keeps_pdev:
  assumes "(add, put, d) \<in> set ins_pairs"
  shows "pdev (final_world (drv_probe d E) w) = pdev w"
  using assms
  by (auto simp: ins_pairs_def driver_defs my_pdrv_probe_def dummy_register_def alloc_region_def gpio_probe_def iio_probe_def
      fake_eth_probe_def final_world_def krun Let_def)

lemma probe_remove_at_most:
  assumes "(add, put, d) \<in> set ins_pairs" and "minor_0 E" and "result (drv_probe d E) w = 0"
  shows "owned (p_ledger (trace (final_world (drv_remove d) (final_world (drv_probe d E) w)))) \<subseteq># owned (p_ledger (trace w))"
proof -
  have r: "run_state (drv_probe d E) w = (0, final_world (drv_probe d E) w)" using assms(3) by (rule run_result)
  have m: "final_world my_pdrv_remove v = final_world dummy_char_cleanup_module v" for v
    by (simp add: my_pdrv_remove_def final_world_def case_prod_beta)
  note l = session_leaves_nothing [where ms = "[]", unfolded in_use_def fold_simps]
  from assms(1) show ?thesis
    unfolding ins_pairs_def list.set insert_iff empty_iff prod.inject
  proof (elim disjE FalseE conjE, goal_cases)
    case 1
    then show ?case
      using r l [OF dummy_at_most [OF assms(2)] removes_owned(1)] by (simp add: driver_defs my_pdrv_probe_def m)
  next
    case 2
    then show ?case
      using r l [OF device_at_most(2) removes_owned(6)] by (simp add: driver_defs)
  next
    case 3
    then show ?case
      using r l [OF device_at_most(3) removes_owned(7)] by (simp add: driver_defs)
  next
    case 4
    then show ?case
      using r l [OF device_at_most(4) removes_owned(8)] by (simp add: driver_defs)
  qed
qed

text \<open>
  C37. A module that adds a platform device, and the driver it was written for: on a bus that matches by name the device is given to exactly
  that driver. Whatever the kernel answers (a number region from minor 0 on starts there), once a probe that reported success has been undone by the
  remove and the module is unloaded, nothing is left but the device itself. If every call succeeds, the probe does report success, nothing is given back
  that was not held, and the device does stay in the system. (\<^verbatim>\<open>iio1.c\<close> and \<^verbatim>\<open>plat3.c\<close> also report success when a
  registration has failed: \<open>overlooked_failures\<close>.)
\<close>

theorem platform_pair_lifecycle:
  assumes "(add, put, d) \<in> set ins_pairs" and "by_name matches" and "minor_0 E"
  shows "let w1 = final_world (add E) w; w2 = final_world (drv_probe d E) w1;
             w3 = final_world put (final_world (drv_remove d) w2) in
    filter (matches (last (device_names (trace w1)))) platform_drivers = [d] \<and>
    (result (drv_probe d E) w1 = 0 \<longrightarrow> owned (p_ledger (trace w3)) \<subseteq># add_mset (PdevLive (pdev w1)) (owned (p_ledger (trace w)))) \<and>
    (kernel_serves E \<and> (\<forall>tr c. c \<noteq> Region_dev \<longrightarrow> ret_int E tr c = 0) \<longrightarrow>
      result (drv_probe d E) w1 = 0 \<and>
      p_ledger (trace w3) = (p_ledger (trace w))\<lparr>owned := add_mset (PdevLive (pdev w1)) (owned (p_ledger (trace w)))\<rparr>)"
proof -
  let ?w1 = "final_world (add E) w"
  let ?w2 = "final_world (drv_probe d E) ?w1"
  let ?w3 = "final_world put (final_world (drv_remove d) ?w2)"
  have v: "pdev (final_world (drv_remove d) ?w2) = pdev ?w1"
    using probe_keeps_pdev [OF assms(1)] remove_keeps_pdev [OF assms(1)] by simp
  have "owned (p_ledger (trace ?w3)) \<subseteq># add_mset (PdevLive (pdev ?w1)) (owned (p_ledger (trace w)))" if "result (drv_probe d E) ?w1 = 0"
  proof -
    have "owned (p_ledger (trace (final_world (drv_remove d) ?w2))) \<subseteq># owned (p_ledger (trace w)) +
        (if pdev ?w1 = Null then {#} else {#PdevRef (pdev ?w1)#}) + {#PdevLive (pdev ?w1)#}"
      using probe_remove_at_most [OF assms(1,3) that] ins_add_at_most [OF assms(1), of E w] by (rule subset_mset.order_trans)
    then show ?thesis
      by (simp only: ins_put_owned [OF assms(1)] v) (simp add: subset_eq_diff_conv split: if_splits)
  qed
  moreover have "result (drv_probe d E) ?w1 = 0 \<and>
      p_ledger (trace ?w3) = (p_ledger (trace w))\<lparr>owned := add_mset (PdevLive (pdev ?w1)) (owned (p_ledger (trace w)))\<rparr>"
    if k: "kernel_serves E" "\<forall>tr c. c \<noteq> Region_dev \<longrightarrow> ret_int E tr c = 0"
  proof
    note p = probe_succeeds [OF assms(1) k, of ?w1]
    then show "result (drv_probe d E) ?w1 = 0" by (simp add: result_def)
    have "p_ledger (trace (final_world (drv_remove d) ?w2)) = p_ledger (trace ?w1)"
      by (rule probe_remove_balanced [OF assms(1) k(1)]) (use p in blast)
    then show "p_ledger (trace ?w3) = (p_ledger (trace w))\<lparr>owned := add_mset (PdevLive (pdev ?w1)) (owned (p_ledger (trace w)))\<rparr>"
      using ins_put_gives_back [OF assms(1), of "final_world (drv_remove d) ?w2" "owned (p_ledger (trace w))"]
        ins_add_registers [OF assms(1) k, of w] v by simp
  qed
  ultimately show ?thesis
    using names_bind [OF assms(2,1)] ins_names [OF assms(1), of E w] by (simp add: Let_def)
qed

theorem platform_pair_lifecycle_witness:
  "owned (p_ledger (trace (final_world fake_gpio_put (final_world gpio_remove (final_world (gpio_probe serving_env)
     (final_world (fake_gpio_add serving_env) pw0)))))) = {#PdevLive (pdev (final_world (fake_gpio_add serving_env) pw0))#}"
proof -
  have "(fake_gpio_add, fake_gpio_put, gpio_driver) \<in> set ins_pairs" by (simp add: ins_pairs_def)
  moreover have "by_name (\<lambda>nm d. drv_name d = nm)" by (simp add: by_name_def)
  moreover have "\<forall>tr c. c \<noteq> Region_dev \<longrightarrow> ret_int serving_env tr c = 0" by (auto simp: serving_env_def split: pcall.split)
  ultimately show ?thesis
    using platform_pair_lifecycle [of fake_gpio_add fake_gpio_put gpio_driver "\<lambda>nm d. drv_name d = nm" serving_env pw0] serving_env_ok
    by (simp add: Let_def gpio_driver_def minor_0_def kernel_serves_def) (simp add: pw0_def)
qed

text \<open>
  Platform devices outlive the modules that made them: after a successful load and the unload, \<^verbatim>\<open>plat1.c\<close> still has its device
  registered, because the unload looks at a variable the load has hidden; and each of the four modules that only add a device
  gives its reference back but leaves the device in the system.
\<close>

theorem platform_devices_stay:
  assumes "kernel_serves E" and "\<forall>tr c. c \<noteq> Region_dev \<longrightarrow> ret_int E tr c = 0" and "pdev w = Null"
  shows "(\<exists>p. owned (p_ledger (trace (final_world plat1_exit (final_world (plat1_init E) w)))) =
      add_mset (Pdev p) (owned (p_ledger (trace w)))) \<and>
    (\<forall>(add, put) \<in> set ins_modules. \<exists>p. owned (p_ledger (trace (final_world put (final_world (add E) w)))) =
      add_mset (PdevLive p) (owned (p_ledger (trace w))))"
  using assms(2,3)
  by (cases "p_ledger (trace w)")
    (auto simp: plat1_init_def plat1_exit_def ins_modules_def platform_dummy_char_add_def platform_dummy_char_put_def
      fake_gpio_add_def fake_gpio_put_def fake_iio_add_def fake_iio_put_def fake_eth_add_def fake_eth_put_def
      ins_add_def ins_put_def final_world_def served [OF assms(1)] krun
      ledger_of_append tables)

theorem platform_devices_stay_witness:
  "\<exists>p. owned (p_ledger (trace (final_world plat1_exit (final_world (plat1_init serving_env) pw0)))) = {#Pdev p#}"
proof -
  have "\<forall>tr c. c \<noteq> Region_dev \<longrightarrow> ret_int serving_env tr c = 0"
    by (simp add: serving_env_def split: pcall.split)
  then show ?thesis
    using platform_devices_stay [OF serving_env_ok, of pw0] by (simp add: pw0_def)
qed

text \<open>What the error paths leave behind.\<close>

lemma dummy_node_failure_keeps_cdev:
  assumes "\<forall>tr c. 0 \<le> ret_int E tr c" and "\<forall>tr. ret_int E tr Region_dev mod 2 ^ 20 = 0"
    and "\<forall>tr s. is_addr (ret_ptr E tr (Class_create s))" and "\<forall>tr c d. IS_ERR (ret_ptr E tr (Device_create c d))"
  shows "result (dummy_char_init_module E) w = - 1"
    and "owned (p_ledger (trace (final_world (dummy_char_init_module E) w))) =
      add_mset (CdevLive dummy_cdev) (owned (p_ledger (trace w)))"
proof -
  have f: "\<not> ret_int E tr k < 0" "0 \<le> ret_int E tr k" "ret_ptr E tr (Class_create s) \<noteq> Null"
    "\<not> IS_ERR (ret_ptr E tr (Class_create s))" "IS_ERR (ret_ptr E tr (Device_create c d))" for tr k s c d
    using assms by (simp_all add: linorder_not_less)
  show "result (dummy_char_init_module E) w = - 1"
    by (simp add: dummy_char_init_module_def dummy_register_def alloc_region_def result_def krun Let_def f)
  obtain M B where "p_ledger (trace w) = \<lparr>owned = M, misused = B\<rparr>" by (cases "p_ledger (trace w)")
  then show "owned (p_ledger (trace (final_world (dummy_char_init_module E) w))) =
      add_mset (CdevLive dummy_cdev) (owned (p_ledger (trace w)))"
    by (simp add: dummy_char_init_module_def dummy_register_def alloc_region_def final_world_def krun Let_def f ledger_of_append tables)
qed

lemma eth_register_failure_leaks:
  assumes "\<forall>tr c. is_addr (ret_ptr E tr c)" and "\<forall>tr n. ret_int E tr (Register_netdev n) = - EINVAL"
  shows "\<exists>p. owned (p_ledger (trace (final_world (fake_eth_probe E) w))) = add_mset (NetMem p) (owned (p_ledger (trace w)))"
  using assms
  by (cases "p_ledger (trace w)") (auto simp: fake_eth_probe_def final_world_def krun ledger_of_append tables)

section \<open>The Ethernet transmitter\<close>

fun eth_xmits :: "(nat \<times> u32) list \<Rightarrow> (pworld, unit) state" where
  "eth_xmits [] = ret ()"
| "eth_xmits (skb # skbs) = do { _ \<leftarrow> fake_eth_xmit skb; eth_xmits skbs }"

definition freed :: "pcall ktrace \<Rightarrow> nat list" where
  "freed tr = concat (map (\<lambda>ev. case ev of Void (Dev_kfree_skb n) \<Rightarrow> [n] | _ \<Rightarrow> []) tr)"

text \<open>
  The transmitter counts exactly and frees every buffer once: after any sequence of packets the two counters have grown by the
  number of packets and by the sum of their lengths, modulo the width of the counters, and the buffers have been freed
  each once and in order.
\<close>

theorem eth_xmit_counts:
  "let w' = final_world (eth_xmits skbs) w in
     tx_packets (stats w') = tx_packets (stats w) + of_nat (length skbs) \<and>
     unat (tx_bytes (stats w')) = (unat (tx_bytes (stats w)) + sum_list (map (unat \<circ> snd) skbs)) mod 2 ^ 64 \<and>
     freed (trace w') = freed (trace w) @ map fst skbs"
proof -
  have "tx_packets (stats (final_world (eth_xmits skbs) w)) = tx_packets (stats w) + of_nat (length skbs) \<and>
      tx_bytes (stats (final_world (eth_xmits skbs) w)) = tx_bytes (stats w) + of_nat (sum_list (map (unat \<circ> snd) skbs)) \<and>
      freed (trace (final_world (eth_xmits skbs) w)) = freed (trace w) @ map fst skbs"
    by (induction skbs arbitrary: w)
      (simp_all add: final_world_def fake_eth_xmit_def krun freed_def algebra_simps)
  then show ?thesis
    by (simp add: unat_word_ariths unat_of_nat mod_simps Let_def)
qed

text \<open>\<^verbatim>\<open>char2.c\<close> counts its opens in a 32-bit variable.\<close>

lemma chrdevic_open_counts:
  "open_counter (final_world chrdevic_open w) = s32 (open_counter w + 1)"
  by (simp add: chrdevic_open_def final_world_def krun)

end
