(* ===== verification/User_Programs.thy ===== *)
theory User_Programs
  imports Platform_Drivers
begin

text \<open>
  The user programs that try the drivers out: \<^verbatim>\<open>CharacterDriverNew/char2_test.c\<close> on the handlers of \<^verbatim>\<open>char2.c\<close>,
  \<^verbatim>\<open>USB/test/test.c\<close>, and \<^verbatim>\<open>Sysfs/sysfs-select-user.c\<close>, which waits for the attributes of \<^verbatim>\<open>sysfs-poll.c\<close>.
  \<^verbatim>\<open>RandomizeVA/hello.c\<close> prints an address. (\<^verbatim>\<open>sysfs-poll-user.c\<close> has unbalanced braces and does not compile.)
\<close>

section \<open>The character driver test\<close>

text \<open>What is printed; \<open>Overread\<close>: a string that is not terminated inside its buffer.\<close>

datatype uline = Line string | Text "byte list" | Overread

definition print_text :: "byte list \<Rightarrow> uline" where
  "print_text buff = (case c_string buff of None \<Rightarrow> Overread | Some s \<Rightarrow> Text s)"

text \<open>"testing_write_system_call"\<close>

definition test_text :: "byte list" where
  "test_text = [116, 101, 115, 116, 105, 110, 103, 95, 119, 114, 105, 116, 101, 95, 115, 121, 115, 116, 101, 109, 95, 99, 97, 108, 108]"

text \<open>
  \<open>fd\<close> is what \<^verbatim>\<open>open\<close> returns and \<open>garbage\<close> the 256 bytes the uninitialised buffer has. The driver's read writes nothing into
  it. The result: the output, and the buffer.
\<close>

definition char2_test :: "int \<Rightarrow> byte list \<Rightarrow> (pworld, uline list \<times> byte list) state" where
  "char2_test fd garbage =
     (if fd < 0 then ret ([Line ''Error opening file''], garbage)
      else do {
        _ \<leftarrow> chrdevic_open;
        read_bytes \<leftarrow> chrdevic_read;
        if read_bytes < 0 then do { _ \<leftarrow> chrdevic_release; ret ([Line ''FD (%d)'', Line ''Read Error''], garbage) }
        else do {
          let buff = test_text @ [0] @ drop (length test_text + 1) garbage;
          _ \<leftarrow> chrdevic_write;
          _ \<leftarrow> chrdevic_ioctl;
          _ \<leftarrow> chrdevic_release;
          ret ([Line ''FD (%d)'', Line ''File contents'', print_text garbage], buff) } })"

text \<open>
  The test prints memory it has not written: the read of the driver succeeds with nothing, and the buffer is printed as it
  was; when it has no zero, beyond its end.
\<close>

lemma char2_test_prints_garbage:
  assumes "0 \<le> fd"
  shows "fst (result (char2_test fd garbage) w) = [Line ''FD (%d)'', Line ''File contents'', print_text garbage]"
    and "open_counter (final_world (char2_test fd garbage) w) = s32 (open_counter w + 1)"
  using assms
  by (simp_all add: char2_test_def chrdevic_open_def chrdevic_read_def chrdevic_write_def chrdevic_ioctl_def chrdevic_release_def
      result_def final_world_def krun)

section \<open>The USB test\<close>

definition TEST_BUF_LEN :: nat where "TEST_BUF_LEN = 1024"

text \<open>One round: \<^verbatim>\<open>poll\<close> fails, reports no input, or reports input; then the bytes that the read delivers.\<close>

datatype poll_answer = Poll_error | No_input | Input "byte list"

definition read_buff :: "byte list \<Rightarrow> byte list \<Rightarrow> byte list" where
  "read_buff input buff = take TEST_BUF_LEN input @ drop (length (take TEST_BUF_LEN input)) buff"

text \<open>\<open>answers c\<close> is the answer when \<open>c\<close> rounds are left.\<close>

fun poll_loop :: "nat \<Rightarrow> (nat \<Rightarrow> poll_answer) \<Rightarrow> byte list \<Rightarrow> uline list" where
  "poll_loop 0 answers buff = []"
| "poll_loop (Suc c) answers buff =
     Line ''polling ...'' #
     (case answers (Suc c) of
        Poll_error \<Rightarrow> [Line ''poll error'']
      | No_input \<Rightarrow> poll_loop c answers buff
      | Input input \<Rightarrow>
          (let buff' = read_buff input buff in print_text buff' # poll_loop c answers buff'))"

definition usb_test :: "int \<Rightarrow> (nat \<Rightarrow> poll_answer) \<Rightarrow> uline list \<times> int" where
  "usb_test fd answers =
     (if fd < 0 then ([Line ''open %s error''], - 1) else (poll_loop 5 answers (replicate TEST_BUF_LEN 0), 0))"

lemma read_buff_length: "length buff = TEST_BUF_LEN \<Longrightarrow> length (read_buff input buff) = TEST_BUF_LEN"
  by (simp add: read_buff_def)

lemma print_text_short:
  assumes "0 \<notin> set d" and "d = take TEST_BUF_LEN d" and "length d < TEST_BUF_LEN"
  shows "print_text (d @ replicate (TEST_BUF_LEN - length d) 0) = Text d"
proof -
  have "takeWhile (\<lambda>b. b \<noteq> 0) (d @ replicate (TEST_BUF_LEN - length d) 0) = d"
    using assms(1) by (subst takeWhile_append2) (auto simp: takeWhile_replicate)
  then show ?thesis using assms(3) by (simp add: print_text_def c_string_def)
qed

text \<open>
  The buffer is not cleared between reads: after a longer message a shorter one is printed with the rest of the longer
  one; and a read that fills the buffer is printed beyond its end.
\<close>

theorem usb_test_stale:
  assumes "0 \<notin> set d" and "0 \<notin> set e" and "length e \<le> length d" and "length d < TEST_BUF_LEN"
    and "answers 5 = Input d" and "answers 4 = Input e" and "0 \<le> fd"
  shows "take 4 (fst (usb_test fd answers)) =
      [Line ''polling ...'', Text d, Line ''polling ...'', Text (e @ drop (length e) d)]"
    and "poll_loop (Suc 0) (\<lambda>_. Input (replicate TEST_BUF_LEN 1)) (replicate TEST_BUF_LEN 0) = [Line ''polling ...'', Overread]"
proof -
  have d: "d = take TEST_BUF_LEN d" and e: "take TEST_BUF_LEN e = e" using assms(3,4) by simp_all
  let ?m = "e @ drop (length e) d"
  have m: "0 \<notin> set ?m" "length ?m = length d" using assms(1-3) by (auto dest: in_set_dropD)
  have 1: "read_buff d (replicate TEST_BUF_LEN 0) = d @ replicate (TEST_BUF_LEN - length d) 0"
    using d assms(4) by (simp add: read_buff_def)
  have 2: "read_buff e (d @ replicate (TEST_BUF_LEN - length d) 0) = ?m @ replicate (TEST_BUF_LEN - length ?m) 0"
    using e assms(3) m(2) by (simp add: read_buff_def)
  have p: "print_text (d @ replicate (TEST_BUF_LEN - length d) 0) = Text d" "print_text (?m @ replicate (TEST_BUF_LEN - length ?m) 0) = Text ?m"
    using print_text_short [OF assms(1) d assms(4)] print_text_short [OF m(1)] m(2) assms(4) by auto
  have "poll_loop 5 answers b = Line ''polling ...'' # print_text (read_buff d b) # poll_loop 4 answers (read_buff d b)" for b
    using poll_loop.simps(2) [of 4 answers b] assms(5) by (simp add: Let_def)
  moreover have "poll_loop 4 answers b = Line ''polling ...'' # print_text (read_buff e b) # poll_loop 3 answers (read_buff e b)" for b
    using poll_loop.simps(2) [of 3 answers b] assms(6) by (simp add: Let_def)
  ultimately have "poll_loop 5 answers (replicate TEST_BUF_LEN 0) =
      [Line ''polling ...'', Text d, Line ''polling ...'', Text ?m] @ poll_loop 3 answers (?m @ replicate (TEST_BUF_LEN - length ?m) 0)"
    by (simp only: 1 2 p append.simps)
  then show "take 4 (fst (usb_test fd answers)) =
      [Line ''polling ...'', Text d, Line ''polling ...'', Text (e @ drop (length e) d)]"
    using assms(7) by (simp add: usb_test_def)
  show "poll_loop (Suc 0) (\<lambda>_. Input (replicate TEST_BUF_LEN 1)) (replicate TEST_BUF_LEN 0) = [Line ''polling ...'', Overread]"
    by (simp add: read_buff_def print_text_def c_string_def)
qed

section \<open>Waiting for the sysfs attributes\<close>

datatype ucall =
    Open_file string
  | Read_file int nat
  | Select int
  | Perror string
  | Printf string
  | Close_file int

type_synonym uworld = "ucall kworld"

text \<open>
  \<open>ready\<close> is the set \<^verbatim>\<open>select\<close> leaves on success; when it fails it leaves the set it was given.
\<close>

definition select_main :: "ucall kenv \<Rightarrow> int set \<Rightarrow> (uworld, int) state" where
  "select_main E ready = do {
     notify_fd \<leftarrow> kint E (Open_file ''/sys/hello/notify'');
     if notify_fd < 0 then do { kvoid (Perror ''Unable to open notify''); ret 1 }
     else do {
       trigger_fd \<leftarrow> kint E (Open_file ''/sys/hello/trigger'');
       if trigger_fd < 0 then do { kvoid (Perror ''Unable to open trigger''); ret 1 }
       else do {
         let max_fd = (if notify_fd > trigger_fd then notify_fd else trigger_fd);
         _ \<leftarrow> kint E (Read_file notify_fd 100);
         _ \<leftarrow> kint E (Read_file trigger_fd 100);
         r \<leftarrow> kint E (Select (max_fd + 1));
         (if r < 0 then kvoid (Perror ''pselect events'') else ret ());
         let isset = (if r < 0 then {notify_fd, trigger_fd} else ready);
         (if notify_fd \<in> isset then kvoid (Printf ''Change detected in /sys/hello/notify'') else ret ());
         (if trigger_fd \<in> isset then kvoid (Printf ''Change detected in /sys/hello/trigger'') else ret ());
         kvoid (Close_file trigger_fd);
         kvoid (Close_file notify_fd);
         ret 0 } } }"

text \<open>A failed \<^verbatim>\<open>select\<close> is reported and then taken for a change of both attributes.\<close>

lemma select_error_reports_changes:
  assumes "\<forall>tr f. 0 \<le> ret_int E tr (Open_file f)" and "\<forall>tr n. ret_int E tr (Select n) = - 1"
  shows "{Void (Perror ''pselect events''), Void (Printf ''Change detected in /sys/hello/notify''),
      Void (Printf ''Change detected in /sys/hello/trigger'')} \<subseteq> set (trace (final_world (select_main E ready) w))"
    and "result (select_main E ready) w = 0"
proof -
  have o: "\<not> ret_int E tr (Open_file f) < 0" and l: "ret_int E tr (Select n) = - 1" for tr f n
    using assms by (simp_all add: linorder_not_less)
  show "{Void (Perror ''pselect events''), Void (Printf ''Change detected in /sys/hello/notify''),
      Void (Printf ''Change detected in /sys/hello/trigger'')} \<subseteq> set (trace (final_world (select_main E ready) w))"
    and "result (select_main E ready) w = 0"
    by (simp_all add: select_main_def final_world_def result_def krun Let_def o l)
qed

section \<open>The address of main\<close>

text \<open>
  \<^verbatim>\<open>RandomizeVA/hello.c\<close> prints the address the program was loaded at, with \<^verbatim>\<open>%p\<close>: \<^verbatim>\<open>0x\<close> and the hexadecimal digits without leading
  zeros, and \<^verbatim>\<open>(nil)\<close> for 0. \<open>main_at\<close> is the address; the result is the output and the exit status.
\<close>

definition hex_digit :: "nat \<Rightarrow> char" where
  "hex_digit d = ''0123456789abcdef'' ! d"

fun nat_hex :: "nat \<Rightarrow> string" where
  "nat_hex n = (if n < 16 then [hex_digit n] else nat_hex (n div 16) @ [hex_digit (n mod 16)])"

declare nat_hex.simps [simp del]

definition printf_p :: "64 word \<Rightarrow> string" where
  "printf_p a = (if a = 0 then ''(nil)'' else ''0x'' @ nat_hex (unat a))"

definition hello_main :: "64 word \<Rightarrow> string \<times> int" where
  "hello_main main_at = (''Hello World! '' @ printf_p main_at @ [CHR 0x0A], 0)"

definition hex_value :: "char \<Rightarrow> nat" where
  "hex_value c = (let n = of_char c in if n < 58 then n - 48 else n - 87)"

lemma hex_value_digit:
  assumes "d < 16"
  shows "hex_value (hex_digit d) = d"
proof -
  have "list_all (\<lambda>d. hex_value (hex_digit d) = d) [0..<16]" by code_simp
  then show ?thesis using assms by (simp add: list_all_iff)
qed

lemma hex_read_back: "foldl (\<lambda>v c. 16 * v + hex_value c) 0 (nat_hex n) = n"
  by (induction n rule: nat_hex.induct) (subst nat_hex.simps, simp add: hex_value_digit)

text \<open>The line tells the address: two runs that print the same line were loaded at the same address.\<close>

lemma hello_tells_address:
  assumes "hello_main a = hello_main b"
  shows "a = b"
proof -
  have "printf_p a = printf_p b" using assms by (simp add: hello_main_def)
  then have "a = b \<or> nat_hex (unat a) = nat_hex (unat b)" by (auto simp: printf_p_def split: if_splits)
  then show ?thesis by (metis hex_read_back word_unat_eq_iff)
qed

end
