(* ===== verification/Deferred_Work.thy ===== *)
theory Deferred_Work
  imports Kernel_Prelude
begin

text \<open>
  The modules that let the kernel call them later: timers (\<^verbatim>\<open>Timers/timer1.c\<close>, \<^verbatim>\<open>timer2.c\<close>), tasklets
  (\<^verbatim>\<open>Tasklet/tasklet1.c\<close> to \<^verbatim>\<open>tasklet3.c\<close>), a work item that wakes the loading process (\<^verbatim>\<open>WaitQueue/wait2.c\<close>) and a delayed
  work item (\<^verbatim>\<open>InvokeUserCmd/invoke1.c\<close>). The question is the same for all: can a callback still be pending or running
  when the module is gone?
\<close>

section \<open>Modules as programs\<close>

datatype job = Timer | Tasklet | Work

text \<open>
  \<open>Init\<close> prepares a timer or work item for its callback (\<^verbatim>\<open>timer_setup\<close>, \<^verbatim>\<open>hrtimer_init\<close>, \<^verbatim>\<open>INIT_WORK\<close>); \<open>Arm\<close> schedules the callback, after a delay in milliseconds (\<^verbatim>\<open>mod_timer\<close>, \<^verbatim>\<open>add_timer\<close>, \<^verbatim>\<open>hrtimer_start\<close>, \<^verbatim>\<open>tasklet_schedule\<close>, \<^verbatim>\<open>schedule_work\<close>,
  \<^verbatim>\<open>schedule_delayed_work\<close>); \<open>Cancel\<close> takes it off its queue (\<^verbatim>\<open>del_timer\<close>); \<open>Cancel_sync\<close> also waits for a callback that is running
  (\<^verbatim>\<open>hrtimer_cancel\<close>, \<^verbatim>\<open>del_timer_sync\<close>); \<open>Kill\<close> waits until it has run (\<^verbatim>\<open>tasklet_kill\<close>); \<open>Disable\<close> waits for a callback that is running
  (\<^verbatim>\<open>tasklet_disable\<close>). \<open>Say_if\<close> is a message behind \<^verbatim>\<open>if (retval)\<close>, where \<^verbatim>\<open>retval\<close> is what the last of these calls has returned.
  A delay only says that the callback comes later: when it comes is up to the schedule. \<open>Rmmod\<close> separates the load from the unload function.
\<close>

datatype dstmt =
    Say string
  | Say_if string
  | Init job
  | Arm job nat
  | Cancel job
  | Cancel_sync job
  | Kill job
  | Disable job
  | Enable job
  | Msleep nat
  | Set_condition
  | Wake_up
  | Wait_condition
  | Usermodehelper string "string list" "string list"
  | Rmmod

record dmodule =
  main_code :: "dstmt list"
  callback :: "job \<Rightarrow> dstmt list"

fun only :: "job \<Rightarrow> dstmt list \<Rightarrow> job \<Rightarrow> dstmt list" where
  "only j c k = (if k = j then c else [])"

definition timer1 :: dmodule where
  "timer1 = \<lparr>main_code = [Say ''Timer module loaded'', Init Timer, Say ''Setup timer to fire in 300ms'', Arm Timer 300,
       Say_if ''Timer firing failed'', Rmmod, Cancel Timer, Say_if ''The timer is still in use...'', Say ''Timer module unloaded''],
     callback = only Timer [Say ''my_timer_callback called'']\<rparr>"

definition timer2 :: dmodule where
  "timer2 = \<lparr>main_code = [Say ''HR Timer module installing'', Init Timer, Say ''Starting timer to fire in 200ms'', Arm Timer 200, Rmmod,
       Cancel_sync Timer, Say_if ''The timer was still in use...'', Say ''HR Timer module uninstalling''],
     callback = only Timer [Say ''my_hrtimer_callback called'']\<rparr>"

definition tasklet1 :: dmodule where
  "tasklet1 = \<lparr>main_code = [Say ''module init start.'', Say ''Hello tasklet!'', Arm Tasklet 0, Say ''module init end.'', Rmmod,
       Kill Tasklet, Say ''Goodbye, tasklet!''],
     callback = only Tasklet [Disable Tasklet, Say ''my_tasklet run: do what the tasklet want to do....'', Enable Tasklet]\<rparr>"

definition tasklet2 :: dmodule where
  "tasklet2 = \<lparr>main_code = [Say ''init tasklet demo.'', Arm Timer 10000, Rmmod, Say ''exit tasklet demo.'', Cancel_sync Timer],
     callback = (\<lambda>j. case j of Timer \<Rightarrow> [Arm Tasklet 0] | Tasklet \<Rightarrow> [Say ''tasklet_demo_handle'', Say ''0''] | Work \<Rightarrow> [])\<rparr>"

definition tasklet3 :: dmodule where
  "tasklet3 = \<lparr>main_code = [Arm Tasklet 0, Say ''tasklet example'', Rmmod, Kill Tasklet, Say ''tasklet example cleanup''],
     callback = only Tasklet [Say ''We use a string; but it could be pointer to a structure'']\<rparr>"

definition wait2 :: dmodule where
  "wait2 = \<lparr>main_code = [Say ''Wait queue example'', Init Work, Arm Work 0, Say ''Going to sleep my_init'', Wait_condition,
       Say ''woken up by the work job'', Rmmod, Say ''waitqueue example cleanup''],
     callback = only Work [Say ''Waitqueue module handler work_handler'', Msleep 3000, Say ''Wake up the sleeping module'', Set_condition,
       Wake_up]\<rparr>"

definition invoke1 :: dmodule where
  "invoke1 = \<lparr>main_code = [Init Work, Arm Work 200, Rmmod],
     callback = only Work [Usermodehelper ''/sbin/shutdown'' [''/sbin/shutdown'', ''-h'', ''now'']
       [''HOME=/'', ''PATH=/sbin:/bin:/usr/sbin:/usr/bin'']]\<rparr>"

section \<open>The machine\<close>

record dstate =
  main_pc :: nat
  pending :: "job \<Rightarrow> bool"
  running :: "job \<Rightarrow> bool"
  cb_pc :: "job \<Rightarrow> nat"
  condition :: bool
  interrupted :: bool
  retval :: bool
  dmesg :: "string list"

text \<open>The state after a statement other than its program counter; \<open>None\<close> when the statement has to wait.\<close>

definition dexec :: "dstmt \<Rightarrow> dstate \<Rightarrow> dstate option" where
  "dexec c s =
     (case c of
        Say msg \<Rightarrow> Some (s\<lparr>dmesg := dmesg s @ [msg]\<rparr>)
      | Say_if msg \<Rightarrow> Some (if retval s then s\<lparr>dmesg := dmesg s @ [msg]\<rparr> else s)
      | Arm j ms \<Rightarrow> Some (s\<lparr>pending := (pending s)(j := True)\<rparr>)
      | Cancel j \<Rightarrow> Some (s\<lparr>pending := (pending s)(j := False)\<rparr>)
      | Cancel_sync j \<Rightarrow> if running s j then None else Some (s\<lparr>pending := (pending s)(j := False)\<rparr>)
      | Kill j \<Rightarrow> if pending s j \<or> running s j then None else Some s
      | Disable j \<Rightarrow> if running s j then None else Some s
      | Set_condition \<Rightarrow> Some (s\<lparr>condition := True\<rparr>)
      | Wait_condition \<Rightarrow> if condition s \<or> interrupted s then Some s else None
      | _ \<Rightarrow> Some s)"

text \<open>What the calls of the load and unload functions return: whether the callback was on its queue.\<close>

definition returned :: "dstmt \<Rightarrow> dstate \<Rightarrow> bool" where
  "returned c s = (case c of Arm j ms \<Rightarrow> pending s j | Cancel j \<Rightarrow> pending s j | Cancel_sync j \<Rightarrow> pending s j | _ \<Rightarrow> retval s)"

datatype dstep = Main | Fire job | Callback job | Signal

definition gone :: "dmodule \<Rightarrow> dstate \<Rightarrow> bool" where
  "gone m s \<longleftrightarrow> length (main_code m) \<le> main_pc s"

definition dstep :: "dmodule \<Rightarrow> dstep \<Rightarrow> dstate \<Rightarrow> dstate" where
  "dstep m a s =
     (case a of
        Main \<Rightarrow>
          (if gone m s then s
           else (case dexec (main_code m ! main_pc s) s of
                   None \<Rightarrow> s
                 | Some s' \<Rightarrow> s'\<lparr>main_pc := Suc (main_pc s), retval := returned (main_code m ! main_pc s) s\<rparr>))
      | Fire j \<Rightarrow>
          (if pending s j \<and> \<not> running s j
           then s\<lparr>pending := (pending s)(j := False), running := (running s)(j := True), cb_pc := (cb_pc s)(j := 0)\<rparr> else s)
      | Callback j \<Rightarrow>
          (if \<not> running s j then s
           else if length (callback m j) \<le> cb_pc s j then s\<lparr>running := (running s)(j := False)\<rparr>
           else (case dexec (callback m j ! cb_pc s j) s of
                   None \<Rightarrow> s | Some s' \<Rightarrow> s'\<lparr>cb_pc := (cb_pc s')(j := Suc (cb_pc s j))\<rparr>))
      | Signal \<Rightarrow> s\<lparr>interrupted := True\<rparr>)"

definition drun :: "dmodule \<Rightarrow> dstep list \<Rightarrow> dstate \<Rightarrow> dstate" where
  "drun m as s = fold (dstep m) as s"

definition dstart :: dstate where
  "dstart = \<lparr>main_pc = 0, pending = (\<lambda>_. False), running = (\<lambda>_. False), cb_pc = (\<lambda>_. 0), condition = False, interrupted = False,
     retval = False, dmesg = []\<rparr>"

definition quiet :: "dstate \<Rightarrow> bool" where
  "quiet s \<longleftrightarrow> (\<forall>j. \<not> pending s j \<and> \<not> running s j)"

lemma drun_append: "drun m (as @ bs) s = drun m bs (drun m as s)"
  by (simp add: drun_def)

section \<open>Modules that wait for their callback\<close>

text \<open>
  The contract: the module schedules one callback, which schedules nothing, and from some statement of the unload
  function on nothing is scheduled and that statement waits for the callback.
\<close>

fun arms :: "dstmt \<Rightarrow> job set" where
  "arms (Arm j ms) = {j}"
| "arms _ = {}"

locale waits_for_callback =
  fixes m :: dmodule and j :: job and n :: nat
  assumes one_job: "c \<in> set (main_code m) \<Longrightarrow> arms c \<subseteq> {j}"
    and no_rearm: "c \<in> set (callback m k) \<Longrightarrow> arms c = {}"
    and waits: "n < length (main_code m)" "main_code m ! n \<in> {Cancel_sync j, Kill j}"
    and last_arm: "i < length (main_code m) \<Longrightarrow> n \<le> i \<Longrightarrow> arms (main_code m ! i) = {}"
begin

definition wait_inv :: "dstate \<Rightarrow> bool" where
  "wait_inv s \<longleftrightarrow> (\<forall>k. k \<noteq> j \<longrightarrow> \<not> pending s k \<and> \<not> running s k) \<and> (n < main_pc s \<longrightarrow> quiet s)"

lemma dexec_fields:
  assumes "dexec c s = Some s'"
  shows "running s' = running s" "main_pc s' = main_pc s" "pending s' k \<Longrightarrow> pending s k \<or> k \<in> arms c"
  using assms by (cases c; auto simp: dexec_def split: if_splits)+

lemma dstep_inv:
  assumes "wait_inv s"
  shows "wait_inv (dstep m a s)"
proof (cases a)
  case Main
  show ?thesis
  proof (cases "gone m s \<or> dexec (main_code m ! main_pc s) s = None")
    case True
    then show ?thesis using assms Main by (auto simp: dstep_def)
  next
    case False
    then obtain s' where s': "dexec (main_code m ! main_pc s) s = Some s'" by auto
    have lt: "main_pc s < length (main_code m)" using False by (simp add: gone_def)
    note f = dexec_fields [OF s']
    have arm: "arms (main_code m ! main_pc s) \<subseteq> {j}" using one_job lt by simp
    have "quiet s'" if "n < Suc (main_pc s)"
    proof (cases "main_pc s = n")
      case True
      then have "\<not> pending s' j" "\<not> running s' j"
        using s' waits(2) by (auto simp: dexec_def split: if_splits)
      then show ?thesis using assms f arm last_arm [OF lt] True unfolding quiet_def wait_inv_def by (metis empty_iff order_refl)
    next
      case False
      then have "quiet s" "arms (main_code m ! main_pc s) = {}" using assms that last_arm [OF lt] by (auto simp: wait_inv_def)
      then show ?thesis using f unfolding quiet_def by auto
    qed
    then show ?thesis
      using assms False s' f arm Main unfolding wait_inv_def by (auto simp: dstep_def quiet_def)
  qed
next
  case (Fire k)
  then show ?thesis using assms by (auto simp: dstep_def wait_inv_def quiet_def)
next
  case (Callback k)
  show ?thesis
  proof (cases "running s k \<and> cb_pc s k < length (callback m k)")
    case True
    show ?thesis
    proof (cases "dexec (callback m k ! cb_pc s k) s")
      case None
      then show ?thesis using assms Callback True by (simp add: dstep_def)
    next
      case (Some s')
      then have "arms (callback m k ! cb_pc s k) = {}" using no_rearm [of "callback m k ! cb_pc s k" k] True by simp
      then show ?thesis
        using assms Callback True Some dexec_fields [OF Some] by (auto simp: dstep_def wait_inv_def quiet_def)
    qed
  qed (use assms Callback in \<open>auto simp: dstep_def wait_inv_def quiet_def\<close>)
qed (use assms in \<open>auto simp: dstep_def wait_inv_def quiet_def\<close>)

lemma drun_inv: "wait_inv s \<Longrightarrow> wait_inv (drun m as s)"
  by (induction as arbitrary: s) (auto simp: drun_def intro: dstep_inv)

lemma unloads_quietly: "gone m (drun m as dstart) \<Longrightarrow> quiet (drun m as dstart)"
  using drun_inv [of dstart as] waits(1) by (auto simp: wait_inv_def gone_def dstart_def)

end

lemmas module_defs = timer1_def timer2_def tasklet1_def tasklet2_def tasklet3_def wait2_def invoke1_def

interpretation timer2: waits_for_callback timer2 Timer 5
proof (unfold_locales, goal_cases)
  case (4)
  then show ?case by (simp add: module_defs)
next
  case (5 i)
  then show ?case by (cases "i = 5") (auto simp: module_defs less_Suc_eq_le nth_Cons' dest!: le_neq_implies_less)
qed (auto simp: module_defs split: if_splits)

interpretation tasklet3: waits_for_callback tasklet3 Tasklet 3
proof (unfold_locales, goal_cases)
  case (4)
  then show ?case by (simp add: module_defs)
next
  case (5 i)
  then show ?case by (cases "i = 3") (auto simp: module_defs less_Suc_eq_le nth_Cons' dest!: le_neq_implies_less)
qed (auto simp: module_defs split: if_splits)

section \<open>Properties\<close>

text \<open>
  C29. The high-resolution timer module and the third tasklet module unload cleanly: in every interleaving of the module, its callback
  and the kernel that starts it, no callback is pending or running when the module is gone.
\<close>

theorem deferred_unload_quiet:
  assumes "m \<in> {timer2, tasklet3}" and "gone m (drun m as dstart)"
  shows "quiet (drun m as dstart)"
  using assms timer2.unloads_quietly tasklet3.unloads_quietly by blast

theorem deferred_unload_quiet_witness:
  "quiet (drun timer2 (replicate 4 Main @ [Fire Timer, Callback Timer, Main, Main, Callback Timer, Main, Main, Main, Main]) dstart)"
  by (rule deferred_unload_quiet) (simp, code_simp)

text \<open>
  The other modules do not: the timer of \<^verbatim>\<open>timer1.c\<close>, which is deleted without waiting, can still be running; the tasklet that the
  timer of \<^verbatim>\<open>tasklet2.c\<close> scheduled can still be pending; the work item of \<^verbatim>\<open>wait2.c\<close> can be pending when a signal ended
  the wait; and the shutdown of \<^verbatim>\<open>invoke1.c\<close> is pending when the module is unloaded at once.
\<close>

theorem deferred_unload_races:
  "(let s = drun timer1 (replicate 4 Main @ [Fire Timer] @ replicate 5 Main) dstart in gone timer1 s \<and> running s Timer) \<and>
   (let s = drun tasklet2 (replicate 2 Main @ [Fire Timer, Callback Timer, Callback Timer] @ replicate 3 Main) dstart
    in gone tasklet2 s \<and> pending s Tasklet) \<and>
   (let s = drun wait2 (replicate 4 Main @ [Signal] @ replicate 4 Main) dstart in gone wait2 s \<and> pending s Work) \<and>
   (let s = drun invoke1 [Main, Main, Main] dstart in gone invoke1 s \<and> pending s Work)"
  by code_simp

text \<open>
  The tasklet of \<^verbatim>\<open>tasklet1.c\<close> waits, inside its own callback, for that callback to end.
\<close>

definition stuck_inv :: "dstate \<Rightarrow> bool" where
  "stuck_inv s \<longleftrightarrow> (running s Tasklet \<longrightarrow> cb_pc s Tasklet = 0) \<and> \<not> running s Timer \<and> \<not> running s Work \<and> \<not> pending s Timer \<and>
     \<not> pending s Work \<and> main_pc s \<le> 5 \<and> (3 \<le> main_pc s \<longrightarrow> pending s Tasklet \<or> running s Tasklet)"

lemma tasklet1_main: "stuck_inv s \<Longrightarrow> stuck_inv (dstep tasklet1 Main s)"
proof -
  assume i: "stuck_inv s"
  then have "main_pc s \<in> {0, 1, 2, 3, 4, 5}" by (auto simp: stuck_inv_def)
  then show ?thesis
    using i by (elim insertE; simp add: dstep_def stuck_inv_def gone_def tasklet1_def dexec_def)
qed

lemma tasklet1_step: "stuck_inv s \<Longrightarrow> stuck_inv (dstep tasklet1 a s)"
proof (cases a)
  case (Fire k)
  assume "stuck_inv s" then show ?thesis by (cases k) (auto simp: Fire dstep_def stuck_inv_def)
next
  case (Callback k)
  assume "stuck_inv s"
  then show ?thesis by (cases k) (auto simp: Callback dstep_def stuck_inv_def tasklet1_def dexec_def)
qed (auto simp: tasklet1_main, simp add: dstep_def stuck_inv_def)

text \<open>
  The first tasklet module can never be unloaded: its callback, once started, never gets past its first statement, and the unload
  function waits for ever, whatever the schedule.
\<close>

theorem tasklet1_never_unloads:
  "\<not> gone tasklet1 (drun tasklet1 as dstart) \<and> (running (drun tasklet1 as dstart) Tasklet \<longrightarrow> cb_pc (drun tasklet1 as dstart) Tasklet = 0)"
proof -
  have "stuck_inv s \<Longrightarrow> stuck_inv (drun tasklet1 as s)" for s
    by (induction as arbitrary: s) (auto simp: drun_def intro: tasklet1_step)
  then have "stuck_inv (drun tasklet1 as dstart)" by (simp add: stuck_inv_def dstart_def)
  then show ?thesis by (auto simp: stuck_inv_def gone_def tasklet1_def)
qed

text \<open>The callback has started and been given fifty turns, the unload function another fifty.\<close>

theorem tasklet1_never_unloads_witness:
  "let s = drun tasklet1 (replicate 5 Main @ [Fire Tasklet] @ replicate 50 (Callback Tasklet) @ replicate 50 Main) dstart
   in running s Tasklet \<and> cb_pc s Tasklet = 0 \<and> \<not> gone tasklet1 s"
proof -
  have "running (drun tasklet1 (replicate 5 Main @ [Fire Tasklet] @ replicate 50 (Callback Tasklet) @ replicate 50 Main) dstart) Tasklet"
    by code_simp
  then show ?thesis
    using tasklet1_never_unloads [of "replicate 5 Main @ [Fire Tasklet] @ replicate 50 (Callback Tasklet) @ replicate 50 Main"]
    by (simp add: Let_def)
qed

text \<open>Loading \<^verbatim>\<open>wait2.c\<close> returns only after the work item has set the condition, unless a signal arrives.\<close>

definition wait2_inv :: "dstate \<Rightarrow> bool" where
  "wait2_inv s \<longleftrightarrow> (4 < main_pc s \<longrightarrow> condition s)"

lemma wait2_waits:
  assumes "Signal \<notin> set as" and "4 < main_pc (drun wait2 as dstart)"
  shows "condition (drun wait2 as dstart)"
proof -
  have step: "wait2_inv (dstep wait2 a s) \<and> \<not> interrupted (dstep wait2 a s)"
    if "wait2_inv s" "\<not> interrupted s" "a \<noteq> Signal" for a s
  proof -
    have keep: "dexec c s = Some s' \<Longrightarrow> main_pc s' = main_pc s \<and> (condition s \<longrightarrow> condition s') \<and> \<not> interrupted s'" for c s'
      using that by (cases c) (auto simp: dexec_def split: if_splits)
    have w: "main_pc s = 4 \<Longrightarrow> dexec (main_code wait2 ! main_pc s) s = Some s' \<Longrightarrow> condition s'" for s'
      using that by (auto simp: wait2_def dexec_def split: if_splits)
    show ?thesis
      using that keep w
      by (cases a) (auto simp: dstep_def wait2_inv_def less_Suc_eq split: option.splits)
  qed
  have "wait2_inv s \<Longrightarrow> \<not> interrupted s \<Longrightarrow> wait2_inv (drun wait2 as s)" for s
    using assms(1)
  proof (induction as arbitrary: s)
    case (Cons a as)
    then have "a \<noteq> Signal" by auto
    then show ?case using Cons step [of s a] by (simp add: drun_def)
  qed (simp add: drun_def)
  then have "wait2_inv (drun wait2 as dstart)" by (simp add: wait2_inv_def dstart_def)
  then show ?thesis using assms(2) by (simp add: wait2_inv_def)
qed

text \<open>
  The messages of \<^verbatim>\<open>timer1.c\<close>: starting the timer never fails, and the unload reports a timer that is still in use exactly when the
  callback has not been started (and then never is).
\<close>

definition timer1_started :: "dstate \<Rightarrow> bool" where
  "timer1_started s \<longleftrightarrow> running s Timer \<or> ''my_timer_callback called'' \<in> set (dmesg s)"

definition timer1_inv :: "dstate \<Rightarrow> bool" where
  "timer1_inv s \<longleftrightarrow> main_pc s \<le> 9 \<and> ''Timer firing failed'' \<notin> set (dmesg s) \<and> (main_pc s = 4 \<longrightarrow> \<not> retval s) \<and>
     (main_pc s \<le> 3 \<or> 7 \<le> main_pc s \<longrightarrow> \<not> pending s Timer) \<and> (main_pc s \<le> 3 \<longrightarrow> \<not> timer1_started s) \<and>
     (4 \<le> main_pc s \<and> main_pc s \<le> 6 \<longrightarrow> pending s Timer = (\<not> timer1_started s)) \<and>
     (main_pc s = 7 \<longrightarrow> retval s = (\<not> timer1_started s)) \<and>
     (if 8 \<le> main_pc s then ''The timer is still in use...'' \<in> set (dmesg s) \<longleftrightarrow> \<not> timer1_started s
      else ''The timer is still in use...'' \<notin> set (dmesg s)) \<and>
     (running s Timer \<and> cb_pc s Timer \<noteq> 0 \<longrightarrow> ''my_timer_callback called'' \<in> set (dmesg s)) \<and>
     (\<forall>j. j \<noteq> Timer \<longrightarrow> \<not> pending s j \<and> \<not> running s j)"


lemma timer1_nth:
  "main_code timer1 ! 0 = Say ''Timer module loaded''" "main_code timer1 ! Suc 0 = Init Timer"
  "main_code timer1 ! 2 = Say ''Setup timer to fire in 300ms''" "main_code timer1 ! 3 = Arm Timer 300"
  "main_code timer1 ! 4 = Say_if ''Timer firing failed''" "main_code timer1 ! 5 = Rmmod" "main_code timer1 ! 6 = Cancel Timer"
  "main_code timer1 ! 7 = Say_if ''The timer is still in use...''" "main_code timer1 ! 8 = Say ''Timer module unloaded''"
  "length (main_code timer1) = 9" "callback timer1 Timer = [Say ''my_timer_callback called'']" "callback timer1 Tasklet = []" "callback timer1 Work = []"
  by (simp_all add: timer1_def)


lemma timer1_pcs:
  assumes "timer1_inv s"
  shows "main_pc s \<in> {0, Suc 0, 2, 3, 4, 5, 6, 7, 8, 9}"
proof -
  have "main_pc s \<le> 9" using assms unfolding timer1_inv_def by blast
  then have "main_pc s = 0 \<or> main_pc s = Suc 0 \<or> main_pc s = 2 \<or> main_pc s = 3 \<or> main_pc s = 4 \<or> main_pc s = 5 \<or> main_pc s = 6 \<or>
    main_pc s = 7 \<or> main_pc s = 8 \<or> main_pc s = 9" by presburger
  then show ?thesis by simp
qed

lemmas timer1_simps = timer1_nth dexec_def returned_def timer1_inv_def timer1_started_def dstep_def gone_def

lemma timer1_main:
  assumes "timer1_inv s"
  shows "timer1_inv (dstep timer1 Main s)"
  using timer1_pcs [OF assms] assms by (elim insertE emptyE) (simp_all add: timer1_simps)

lemma timer1_fire:
  assumes "timer1_inv s"
  shows "timer1_inv (dstep timer1 (Fire k) s)"
  using timer1_pcs [OF assms] assms by (cases k; elim insertE emptyE) (simp_all add: timer1_simps)

lemma timer1_callback:
  assumes i: "timer1_inv s"
  shows "timer1_inv (dstep timer1 (Callback k) s)"
proof (cases "running s k")
  case True
  then have k: "k = Timer" using i unfolding timer1_inv_def by blast
  show ?thesis
  proof (cases "cb_pc s Timer")
    case 0
    then have "dstep timer1 (Callback k) s =
        s\<lparr>dmesg := dmesg s @ [''my_timer_callback called''], cb_pc := (cb_pc s)(Timer := 1)\<rparr>"
      using True k by (simp add: dstep_def timer1_nth dexec_def)
    then show ?thesis
      using timer1_pcs [OF i] i True k by (elim insertE emptyE) (simp_all add: timer1_inv_def timer1_started_def)
  next
    case (Suc n)
    then have "dstep timer1 (Callback k) s = s\<lparr>running := (running s)(Timer := False)\<rparr>"
      using True k by (simp add: dstep_def timer1_nth)
    then show ?thesis
      using timer1_pcs [OF i] i True k Suc by (elim insertE emptyE) (simp_all add: timer1_inv_def timer1_started_def)
  qed
qed (use i in \<open>simp add: dstep_def\<close>)

lemma timer1_signal:
  assumes "timer1_inv s"
  shows "timer1_inv (dstep timer1 Signal s)"
  using timer1_pcs [OF assms] assms by (elim insertE emptyE) (simp_all add: timer1_simps)

lemma timer1_step: "timer1_inv s \<Longrightarrow> timer1_inv (dstep timer1 a s)"
  using timer1_main timer1_fire timer1_callback timer1_signal by (cases a) blast+

lemma timer1_run: "timer1_inv s \<Longrightarrow> timer1_inv (drun timer1 as s)"
  by (induction as arbitrary: s) (simp_all add: drun_def timer1_step)

lemma timer1_reports:
  assumes "gone timer1 (drun timer1 as dstart)"
  shows "''The timer is still in use...'' \<in> set (dmesg (drun timer1 as dstart)) \<longleftrightarrow> \<not> timer1_started (drun timer1 as dstart)"
    and "''Timer firing failed'' \<notin> set (dmesg (drun timer1 as dstart))"
proof -
  have "timer1_inv dstart" by (simp add: timer1_inv_def timer1_started_def dstart_def)
  then have i: "timer1_inv (drun timer1 as dstart)" by (rule timer1_run)
  moreover have "8 \<le> main_pc (drun timer1 as dstart)" using assms by (simp add: gone_def timer1_nth)
  ultimately show "''The timer is still in use...'' \<in> set (dmesg (drun timer1 as dstart)) \<longleftrightarrow> \<not> timer1_started (drun timer1 as dstart)"
    unfolding timer1_inv_def by metis
  show "''Timer firing failed'' \<notin> set (dmesg (drun timer1 as dstart))" using i unfolding timer1_inv_def by blast
qed

end
