(* ===== verification/Buffer_Devices.thy ===== *)
theory Buffer_Devices
  imports C_Decimal
begin

text \<open>
  Modules that keep a buffer or a number for the user: the misc device (\<^verbatim>\<open>MiscDriver/misctest.c\<close>), the procfs text
  (\<^verbatim>\<open>Procfs/procfs1.c\<close>), the debugfs files (\<^verbatim>\<open>Debugfs/debugfs1.c\<close>, \<^verbatim>\<open>debugfs2.c\<close>), the pollable sysfs attributes
  (\<^verbatim>\<open>Sysfs/sysfs-poll.c\<close>), the module parameter with callbacks (\<^verbatim>\<open>ModuleParamCallback/callback1.c\<close>), the two allocation modules
  (\<^verbatim>\<open>MemoryAlloc/kmalloc.c\<close>, \<^verbatim>\<open>vmalloc.c\<close>) and the PCI probe (\<^verbatim>\<open>PCI/pci1.c\<close>).
\<close>

section \<open>Kernel calls and variables\<close>

text \<open>What the misc device and the PCI driver are registered with.\<close>

record miscdevice =
  misc_name :: string
  misc_mode :: nat
  misc_minor :: nat

record pci_device_id =
  pci_vendor :: "16 word"
  pci_device :: "16 word"

record pci_driver =
  pci_name :: string
  pci_id_table :: "pci_device_id list"

datatype bcall =
    Kzalloc nat
  | Kmalloc nat
  | Vmalloc nat
  | Kfree kptr
  | Vfree kptr
  | Copy_from_user nat
  | Copy_to_user nat
  | Nonseekable_open
  | Single_open
  | Misc_register miscdevice
  | Misc_deregister miscdevice
  | Proc_create string
  | Remove_proc_entry string
  | Debugfs_create_dir string
  | Debugfs_create_file string kptr
  | Debugfs_create_u32 string kptr
  | Debugfs_remove_recursive kptr
  | Kobject_init kptr
  | Kobject_add kptr
  | Kobject_put kptr
  | Sysfs_notify string
  | Pci_enable_device
  | Pci_read_revision
  | Pci_register_driver pci_driver
  | Pci_unregister_driver pci_driver
  | Printk string

record bworld = "bcall kworld" +
  kernel_buffer :: kptr
  kmem :: "byte list"
  str :: kptr
  str_mem :: "byte list"
  dir :: kptr
  debug_sum :: u32
  notify_value :: int
  trigger_value :: int
  mykobj :: kptr
  mem_ptr :: kptr

section \<open>The misc device\<close>

definition KBUF :: nat where "KBUF = 100"
definition PATH_MAX :: nat where "PATH_MAX = 4096"

text \<open>\<^verbatim>\<open>kvmalloc\<close> does not clear the buffer: its content is an argument.\<close>

definition initmsg :: "byte list" where
  "initmsg = [105, 110, 105, 116, 109, 115, 103, 0]"

text \<open>\<^verbatim>\<open>MISC_DYNAMIC_MINOR\<close> is 255; the mode is \<^verbatim>\<open>0666\<close>.\<close>

definition misc_driver :: miscdevice where
  "misc_driver = \<lparr>misc_name = ''test'', misc_mode = 438, misc_minor = 255\<rparr>"

definition startUp :: "bcall kenv \<Rightarrow> byte list \<Rightarrow> (bworld, int) state" where
  "startUp E garbage = do {
     kvoid (Printk ''Registering module'');
     retcode \<leftarrow> kint E (Misc_register misc_driver);
     if retcode \<noteq> 0 then do { kvoid (Printk ''Error in creating misc driver''); ret retcode }
     else do {
       p \<leftarrow> kptr_call E (Kmalloc KBUF);
       modify (\<lambda>w. w\<lparr>kernel_buffer := p, kmem := garbage\<rparr>);
       (if p = Null then koops ''strlcpy to kernel_buffer''
        else (case poke garbage 0 initmsg of
                None \<Rightarrow> koops ''strlcpy beyond kernel_buffer''
              | Some m \<Rightarrow> modify (\<lambda>w. w\<lparr>kmem := m\<rparr>)));
       kvoid (Printk ''Misc device registered'');
       ret 0 } }"

definition terminate :: "(bworld, unit) state" where
  "terminate = do { kvoid (Printk ''Removing module''); kvoid (Misc_deregister misc_driver) }"

text \<open>\<^verbatim>\<open>file_path\<close> writes the path into the page, which may be missing.\<close>

definition openFunc :: "bcall kenv \<Rightarrow> (bworld, int) state" where
  "openFunc E = do {
     p \<leftarrow> kptr_call E (Kzalloc PATH_MAX);
     (if p = Null then koops ''file_path into NULL'' else ret ());
     kvoid (Printk ''Opening device file'');
     kvoid (Kfree p);
     kint E Nonseekable_open }"

definition releaseFunc :: "bcall kenv \<Rightarrow> (bworld, int) state" where
  "releaseFunc E = do {
     p \<leftarrow> kptr_call E (Kzalloc PATH_MAX);
     (if p = Null then koops ''file_path into NULL'' else ret ());
     kvoid (Printk ''Closing the driver file'');
     ret 0 }"

text \<open>
  The return value, the new \<^verbatim>\<open>*readOffset\<close> and the bytes that reach the user; the number of bytes not copied is ignored but for a
  message, and so is the offset.
\<close>

definition readFunc :: "bcall kenv \<Rightarrow> nat \<Rightarrow> int \<Rightarrow> (bworld, int \<times> int \<times> byte list) state" where
  "readFunc E readCount readOffset = do {
     kvoid (Printk ''Inside reader'');
     kvoid (Printk ''Request to read'');
     m \<leftarrow> gets kmem;
     case peek m 0 readCount of
       None \<Rightarrow> do { koops ''read beyond kernel_buffer''; ret (int readCount, readOffset + int readCount, m) }
     | Some bs \<Rightarrow> do {
         r \<leftarrow> kint E (Copy_to_user readCount);
         (if r \<noteq> 0 then kvoid (Printk ''Issue with copying data to user buffer'') else ret ());
         ret (int readCount, readOffset + int readCount, take (readCount - nat r) bs) } }"

definition writeFunc :: "bcall kenv \<Rightarrow> byte list \<Rightarrow> (bworld, int) state" where
  "writeFunc E buf = do {
     kvoid (Printk ''Inside writer'');
     r \<leftarrow> kint E (Copy_from_user (length buf));
     m \<leftarrow> gets kmem;
     (case poke m 0 (copied_in buf r @ [0]) of
        None \<Rightarrow> koops ''write beyond kernel_buffer''
      | Some m' \<Rightarrow> modify (\<lambda>w. w\<lparr>kmem := m'\<rparr>));
     ret (int (length buf)) }"

section \<open>The procfs text\<close>

text \<open>\<^verbatim>\<open>seq_printf(m, "%s\n", str)\<close>; the kernel prints a null pointer as \<^verbatim>\<open>(null)\<close>.\<close>

definition null_text :: "byte list" where
  "null_text = [40, 110, 117, 108, 108, 41]"

definition my_proc_show :: "bworld \<Rightarrow> byte list" where
  "my_proc_show w = (if str w = Null then null_text else takeWhile (\<lambda>b. b \<noteq> 0) (str_mem w)) @ [10]"

text \<open>
  The write in one piece; there is no lock, and the last two statements of two writers can be mixed (\<open>procfs1_writers_race\<close>). What is said of
  \<open>my_proc_write\<close> below is said of writes that come one after the other.
\<close>

definition free_old :: "(bworld, unit) state" where
  "free_old = do { s \<leftarrow> gets str; kvoid (Kfree s) }"

definition install :: "kptr \<Rightarrow> byte list \<Rightarrow> (bworld, unit) state" where
  "install tmp buffer = modify (\<lambda>w. w\<lparr>str := tmp, str_mem := buffer @ [0]\<rparr>)"

definition my_proc_write :: "bcall kenv \<Rightarrow> byte list \<Rightarrow> (bworld, int) state" where
  "my_proc_write E buffer = do {
     tmp \<leftarrow> kptr_call E (Kzalloc (length buffer + 1));
     if tmp = Null then ret (- ENOMEM)
     else do {
       r \<leftarrow> kint E (Copy_from_user (length buffer));
       if r \<noteq> 0 then do { kvoid (Kfree tmp); ret EFAULT }
       else do {
         free_old;
         install tmp buffer;
         ret (int (length buffer)) } } }"

text \<open>\<^verbatim>\<open>single_open\<close> remembers \<^verbatim>\<open>my_proc_show\<close> for the reads.\<close>

definition my_proc_open :: "bcall kenv \<Rightarrow> (bworld, int) state" where
  "my_proc_open E = kint E Single_open"

definition procfs1_init :: "bcall kenv \<Rightarrow> (bworld, int) state" where
  "procfs1_init E = do {
     entry \<leftarrow> kptr_call E (Proc_create ''helloproc'');
     if entry = Null then ret (- 1)
     else do { kvoid (Printk ''create proc file successfully''); ret 0 } }"

definition procfs1_exit :: "(bworld, unit) state" where
  "procfs1_exit = do { kvoid (Remove_proc_entry ''helloproc''); kvoid (Printk ''Goodbye world!'') }"

section \<open>Debugfs\<close>

definition add_write_op :: "ulong \<Rightarrow> (bworld, int) state" where
  "add_write_op val = do { modify (\<lambda>w. w\<lparr>debug_sum := debug_sum w + ucast val\<rparr>); ret 0 }"

definition debugfs1_init :: "bcall kenv \<Rightarrow> (bworld, int) state" where
  "debugfs1_init E = do {
     d \<leftarrow> kptr_call E (Debugfs_create_dir ''example1'');
     modify (\<lambda>w. w\<lparr>dir := d\<rparr>);
     if d = Null then do { kvoid (Printk ''debugfs_example1: failed''); ret (- 1) }
     else do { kvoid (Debugfs_create_u32 ''hello'' d); ret 0 } }"

definition debugfs2_init :: "bcall kenv \<Rightarrow> (bworld, int) state" where
  "debugfs2_init E = do {
     d \<leftarrow> kptr_call E (Debugfs_create_dir ''example2'');
     modify (\<lambda>w. w\<lparr>dir := d\<rparr>);
     if d = Null then do { kvoid (Printk ''debugfs_example2: failed''); ret (- 1) }
     else do {
       junk \<leftarrow> kptr_call E (Debugfs_create_file ''add'' d);
       if junk = Null then do { kvoid (Printk ''debugfs_example2: failed add''); ret (- 1) }
       else do { kvoid (Debugfs_create_u32 ''sum'' d); ret 0 } } }"

definition debugfs_cleanup :: "(bworld, unit) state" where
  "debugfs_cleanup = do { d \<leftarrow> gets dir; kvoid (Debugfs_remove_recursive d) }"

definition debugfs1_cleanup :: "(bworld, unit) state" where
  "debugfs1_cleanup = do { d \<leftarrow> gets dir; kvoid (Debugfs_remove_recursive d) }"

section \<open>Pollable attributes\<close>

datatype attr = Notify | Trigger

fun attr_name :: "attr \<Rightarrow> string" where
  "attr_name Notify = ''notify''"
| "attr_name Trigger = ''trigger''"

fun attr_value :: "attr \<Rightarrow> bworld \<Rightarrow> int" where
  "attr_value Notify w = notify_value w"
| "attr_value Trigger w = trigger_value w"

fun set_attr :: "attr \<Rightarrow> int \<Rightarrow> bworld \<Rightarrow> bworld" where
  "set_attr Notify v w = w\<lparr>notify_value := v\<rparr>"
| "set_attr Trigger v w = w\<lparr>trigger_value := v\<rparr>"

lemma attr_value_trace: "attr_value a (w\<lparr>trace := tr\<rparr>) = attr_value a w"
  by (cases a) simp_all

definition poll_show :: "attr \<Rightarrow> (bworld, string) state" where
  "poll_show a = do {
     kvoid (Printk ''hello: show called'');
     v \<leftarrow> gets (attr_value a);
     ret (take 4095 (attr_name a @ '': '' @ sprintf_d v @ [char_of (10 :: nat)])) }"

definition poll_store :: "attr \<Rightarrow> string \<Rightarrow> (bworld, int) state" where
  "poll_store a buf = do {
     (case sscanf_d buf of Some v \<Rightarrow> modify (set_attr a v) | None \<Rightarrow> ret ());
     kvoid (Printk ''sysfs_notify store'');
     kvoid (Sysfs_notify (attr_name a));
     ret 4 }"

definition poll_init :: "bcall kenv \<Rightarrow> (bworld, int) state" where
  "poll_init E = do {
     kvoid (Printk ''Pollable sysfs hello: init'');
     p \<leftarrow> kptr_call E (Kzalloc 64);
     modify (\<lambda>w. w\<lparr>mykobj := p\<rparr>);
     if p = Null then ret (- 1)
     else do {
       kvoid (Kobject_init p);
       r \<leftarrow> kint E (Kobject_add p);
       (if r \<noteq> 0 then do {
          kvoid (Printk ''Hello: kobject_add() failed'');
          kvoid (Kobject_put p);
          modify (\<lambda>w. w\<lparr>mykobj := Null\<rparr>) }
        else ret ());
       ret 0 } }"

definition poll_exit :: "(bworld, unit) state" where
  "poll_exit = do {
     p \<leftarrow> gets mykobj;
     (if p \<noteq> Null then do { kvoid (Kobject_put p); kvoid (Kfree p) } else ret ());
     kvoid (Printk ''Pollable sysfs hello: exit'') }"

section \<open>Parameter callbacks, allocations, PCI\<close>

definition alloc_init :: "bcall kenv \<Rightarrow> (bworld, int) state" where
  "alloc_init E = do {
     p \<leftarrow> kptr_call E (Kmalloc 1024);
     modify (\<lambda>w. w\<lparr>mem_ptr := p\<rparr>);
     if p = Null then do { kvoid (Printk ''memory allocation failed''); ret (- ENOMEM) }
     else do { kvoid (Printk ''Memory allocated successfully''); ret 0 } }"

definition alloc_exit :: "(bworld, unit) state" where
  "alloc_exit = do { p \<leftarrow> gets mem_ptr; kvoid (Kfree p); kvoid (Printk ''Memory freed'') }"

definition my_vmalloc_init :: "bcall kenv \<Rightarrow> (bworld, int) state" where
  "my_vmalloc_init E = do {
     p \<leftarrow> kptr_call E (Vmalloc 8192);
     modify (\<lambda>w. w\<lparr>mem_ptr := p\<rparr>);
     if p = Null then do { kvoid (Printk ''memory allocation failed''); ret (- ENOMEM) }
     else do { kvoid (Printk ''Memory allocated successfully''); ret 0 } }"

definition my_vmalloc_exit :: "(bworld, unit) state" where
  "my_vmalloc_exit = do { p \<leftarrow> gets mem_ptr; kvoid (Vfree p); kvoid (Printk ''Memory freed'') }"

text \<open>\<^verbatim>\<open>revision\<close> is a byte.\<close>

definition skel_get_revision :: "bcall kenv \<Rightarrow> (bworld, byte) state" where
  "skel_get_revision E = do { r \<leftarrow> kint E Pci_read_revision; ret (word_of_int r) }"

definition pci_probe :: "bcall kenv \<Rightarrow> (bworld, int) state" where
  "pci_probe E = do {
     _ \<leftarrow> kint E Pci_enable_device;
     revision \<leftarrow> skel_get_revision E;
     if revision = 0x42 then ret (- ENODEV) else ret 0 }"

definition pci_remove :: "(bworld, unit) state" where
  "pci_remove = ret ()"

text \<open>\<^verbatim>\<open>PCI_DEVICE(PCI_VENDOR_ID_INTEL, 0x2415)\<close>; the empty entry that ends the table in C is the end of the list.\<close>

definition pci_ids :: "pci_device_id list" where
  "pci_ids = [\<lparr>pci_vendor = 0x8086, pci_device = 0x2415\<rparr>]"

definition pci_skel :: pci_driver where
  "pci_skel = \<lparr>pci_name = ''pci_skel'', pci_id_table = pci_ids\<rparr>"

definition pci_skel_init :: "bcall kenv \<Rightarrow> (bworld, int) state" where
  "pci_skel_init E = kint E (Pci_register_driver pci_skel)"

definition pci_skel_exit :: "(bworld, unit) state" where
  "pci_skel_exit = kvoid (Pci_unregister_driver pci_skel)"

section \<open>The ledger\<close>

datatype bres = Mem kptr | VMem kptr | Misc | Proc string | Dir kptr | Kobj kptr | PciDriver | PciEnabled

definition b_acq :: "bcall kevent \<Rightarrow> bres option" where
  "b_acq ev = (case ev of
     RetP (Kzalloc _) p \<Rightarrow> if is_addr p then Some (Mem p) else None
   | RetP (Kmalloc _) p \<Rightarrow> if is_addr p then Some (Mem p) else None
   | RetP (Vmalloc _) p \<Rightarrow> if is_addr p then Some (VMem p) else None
   | RetI (Misc_register _) r \<Rightarrow> if r = 0 then Some Misc else None
   | RetP (Proc_create s) p \<Rightarrow> if is_addr p then Some (Proc s) else None
   | RetP (Debugfs_create_dir _) p \<Rightarrow> if is_addr p then Some (Dir p) else None
   | Void (Kobject_init p) \<Rightarrow> Some (Kobj p)
   | RetI (Pci_register_driver _) r \<Rightarrow> if r = 0 then Some PciDriver else None
   | RetI Pci_enable_device r \<Rightarrow> if r = 0 then Some PciEnabled else None
   | _ \<Rightarrow> None)"

definition b_rel :: "bcall kevent \<Rightarrow> bres option" where
  "b_rel ev = (case ev of
     Void (Kfree p) \<Rightarrow> if p = Null then None else Some (Mem p)
   | Void (Vfree p) \<Rightarrow> if p = Null then None else Some (VMem p)
   | Void (Misc_deregister _) \<Rightarrow> Some Misc
   | Void (Remove_proc_entry s) \<Rightarrow> Some (Proc s)
   | Void (Debugfs_remove_recursive p) \<Rightarrow> if p = Null then None else Some (Dir p)
   | Void (Kobject_put p) \<Rightarrow> Some (Kobj p)
   | Void (Pci_unregister_driver _) \<Rightarrow> Some PciDriver
   | _ \<Rightarrow> None)"

declare b_acq_def [tables] b_rel_def [tables]

abbreviation b_ledger :: "bcall ktrace \<Rightarrow> bres ledger" where
  "b_ledger \<equiv> ledger_of b_acq b_rel"

definition if_mem :: "kptr \<Rightarrow> bres \<Rightarrow> bres multiset" where
  "if_mem p r = (if p = Null then {#} else {#r#})"

interpretation kmalloc_mod: kernel_module alloc_init "\<lambda>_. alloc_exit" b_acq b_rel "\<lambda>w. if_mem (mem_ptr w) (Mem (mem_ptr w))" no_err_ptr
proof (unfold_locales, goal_cases)
  case (1 E w w')
  then show ?case by (auto simp: alloc_init_def no_err_ptr_def if_mem_def krun ledger_of_append tables split: if_splits)
next
  case (2 w M E)
  then show ?case
    by (cases "b_ledger (trace w)") (simp add: alloc_exit_def if_mem_def final_world_def krun ledger_of_append tables)
qed

interpretation vmalloc_mod: kernel_module my_vmalloc_init "\<lambda>_. my_vmalloc_exit" b_acq b_rel "\<lambda>w. if_mem (mem_ptr w) (VMem (mem_ptr w))" no_err_ptr
proof (unfold_locales, goal_cases)
  case (1 E w w')
  then show ?case by (auto simp: my_vmalloc_init_def no_err_ptr_def if_mem_def krun ledger_of_append tables split: if_splits)
next
  case (2 w M E)
  then show ?case
    by (cases "b_ledger (trace w)") (simp add: my_vmalloc_exit_def if_mem_def final_world_def krun ledger_of_append tables)
qed

interpretation pci_mod: kernel_module pci_skel_init "\<lambda>_. pci_skel_exit" b_acq b_rel "\<lambda>_. {#PciDriver#}" "\<lambda>_. True"
proof (unfold_locales, goal_cases)
  case (1 E w w')
  then show ?case by (auto simp: pci_skel_init_def krun ledger_of_append tables)
next
  case (2 w M E)
  then show ?case
    by (cases "b_ledger (trace w)") (simp add: pci_skel_exit_def final_world_def krun ledger_of_append tables)
qed

interpretation debugfs1_mod: kernel_module debugfs1_init "\<lambda>_. debugfs1_cleanup" b_acq b_rel "\<lambda>w. if_mem (dir w) (Dir (dir w))" no_err_ptr
proof (unfold_locales, goal_cases)
  case (1 E w w')
  then show ?case by (auto simp: debugfs1_init_def no_err_ptr_def if_mem_def krun ledger_of_append tables split: if_splits)
next
  case (2 w M E)
  then show ?case
    by (cases "b_ledger (trace w)") (simp add: debugfs1_cleanup_def if_mem_def final_world_def krun ledger_of_append tables)
qed

interpretation debugfs2_mod: kernel_module debugfs2_init "\<lambda>_. debugfs_cleanup" b_acq b_rel "\<lambda>w. if_mem (dir w) (Dir (dir w))" no_err_ptr
proof (unfold_locales, goal_cases)
  case (1 E w w')
  then show ?case by (auto simp: debugfs2_init_def no_err_ptr_def if_mem_def krun ledger_of_append tables split: if_splits)
next
  case (2 w M E)
  then show ?case
    by (cases "b_ledger (trace w)") (simp add: debugfs_cleanup_def if_mem_def final_world_def krun ledger_of_append tables)
qed

interpretation procfs1_mod: kernel_module procfs1_init "\<lambda>_. procfs1_exit" b_acq b_rel "\<lambda>_. {#Proc ''helloproc''#}" no_err_ptr
proof (unfold_locales, goal_cases)
  case (1 E w w')
  then show ?case by (auto simp: procfs1_init_def no_err_ptr_def if_mem_def krun ledger_of_append tables split: if_splits)
next
  case (2 w M E)
  then show ?case
    by (cases "b_ledger (trace w)") (simp add: procfs1_exit_def if_mem_def final_world_def krun ledger_of_append tables)
qed

section \<open>Properties\<close>

text \<open>
  The misc device gives back what was written: with working user copies, a write of less than 100 bytes followed by a read of at
  most as many bytes returns their beginning, and the buffer keeps its size. There is no check of the length: a write of 100
  bytes or more and a read of more than 100 bytes leave the buffer.
\<close>

theorem misc_write_read:
  assumes "length (kmem w) = KBUF" and "\<forall>tr c. ret_int E tr c = 0" and "length bs < KBUF" and "n \<le> length bs"
    and "KBUF \<le> length cs" and "KBUF < k"
  shows "let w1 = final_world (writeFunc E bs) w in
    result (writeFunc E bs) w = int (length bs) \<and> result (readFunc E n off) w1 = (int n, off + int n, take n bs) \<and>
    length (kmem w1) = KBUF \<and> (never_faults (trace w) \<longrightarrow> never_faults (trace (final_world (readFunc E n off) w1))) \<and>
    \<not> never_faults (trace (final_world (writeFunc E cs) w)) \<and> \<not> never_faults (trace (final_world (readFunc E k off) w))"
  using assms
  by (simp add: writeFunc_def readFunc_def result_def final_world_def krun poke_def peek_def copied_def copied_in_def Let_def)

definition bw0 :: bworld where
  "bw0 = \<lparr>trace = [], kernel_buffer = Ptr 1, kmem = replicate KBUF 0, str = Null, str_mem = [], dir = Null, debug_sum = 0,
     notify_value = 0, trigger_value = 0, mykobj = Null, mem_ptr = Null\<rparr>"

definition b_env :: "bcall kenv" where
  "b_env = \<lparr>ret_int = (\<lambda>tr c. 0), ret_ptr = (\<lambda>tr c. Ptr (length tr))\<rparr>"

theorem misc_write_read_witness:
  "result (readFunc b_env 2 0) (final_world (writeFunc b_env [1, 2, 3]) bw0) = (2, 2, [1, 2])"
  using misc_write_read [of bw0 b_env "[1, 2, 3]" 2 "replicate 100 0" 101 0]
  by (simp add: bw0_def b_env_def KBUF_def Let_def)

text \<open>Every close of the misc device loses a page, and an unload the buffer.\<close>

lemma misc_release_leaks:
  assumes "\<forall>tr c. is_addr (ret_ptr E tr c)"
  shows "\<exists>p. owned (b_ledger (trace (final_world (releaseFunc E) w))) = add_mset (Mem p) (owned (b_ledger (trace w)))"
  using assms by (auto simp: releaseFunc_def final_world_def krun ledger_of_append tables)

lemma misc_unload_leaks:
  assumes "\<forall>tr c. is_addr (ret_ptr E tr c)" and "\<forall>tr c. ret_int E tr c = 0" and "length g = KBUF"
  shows "\<exists>p. owned (b_ledger (trace (final_world terminate (final_world (startUp E g) w)))) =
    add_mset (Mem p) (owned (b_ledger (trace w)))"
  using assms
  by (cases "b_ledger (trace w)")
    (auto simp: startUp_def terminate_def final_world_def krun poke_def initmsg_def KBUF_def ledger_of_append tables)

text \<open>The specification of the procfs text: the last text that was accepted.\<close>

definition accepts :: "bcall kenv \<Rightarrow> bworld \<Rightarrow> byte list \<Rightarrow> bool" where
  "accepts E w b \<longleftrightarrow> (let p = ret_ptr E (trace w) (Kzalloc (length b + 1)) in
     p \<noteq> Null \<and> ret_int E (trace w @ [RetP (Kzalloc (length b + 1)) p]) (Copy_from_user (length b)) = 0)"

definition proc_text :: "bworld \<Rightarrow> byte list option" where
  "proc_text w = (if str w = Null then None else Some (takeWhile (\<lambda>b. b \<noteq> 0) (str_mem w)))"

fun proc_writes :: "bcall kenv \<Rightarrow> byte list list \<Rightarrow> bworld \<Rightarrow> bworld" where
  "proc_writes E [] w = w"
| "proc_writes E (b # bs) w = proc_writes E bs (final_world (my_proc_write E b) w)"

fun spec_writes :: "bcall kenv \<Rightarrow> byte list list \<Rightarrow> bworld \<Rightarrow> byte list option \<Rightarrow> byte list option" where
  "spec_writes E [] w t = t"
| "spec_writes E (b # bs) w t =
     spec_writes E bs (final_world (my_proc_write E b) w)
       (if accepts E w b then Some (takeWhile (\<lambda>x. x \<noteq> 0) b) else t)"

definition proc_inv :: "bres multiset \<Rightarrow> bres multiset \<Rightarrow> bworld \<Rightarrow> bool" where
  "proc_inv M B w \<longleftrightarrow> b_ledger (trace w) = \<lparr>owned = M + if_mem (str w) (Mem (str w)), misused = B\<rparr>"

lemma takeWhile_zero: "takeWhile (\<lambda>b. b \<noteq> 0) (xs @ [0]) = takeWhile (\<lambda>b. b \<noteq> (0 :: byte)) xs"
  by (induction xs) auto

lemma proc_write_step:
  assumes "no_err_ptr E" and "proc_inv M B w"
  shows "proc_inv M B (final_world (my_proc_write E b) w)"
    and "proc_text (final_world (my_proc_write E b) w) = (if accepts E w b then Some (takeWhile (\<lambda>x. x \<noteq> 0) b) else proc_text w)"
proof -
  have ne: "\<not> IS_ERR (ret_ptr E tr c)" for tr c using assms(1) by (simp add: no_err_ptr_def)
  show "proc_inv M B (final_world (my_proc_write E b) w)"
    using assms(2)
    by (cases "str w = Null")
      (auto simp: proc_inv_def my_proc_write_def free_old_def install_def final_world_def if_mem_def ne krun ledger_of_append tables)
  show "proc_text (final_world (my_proc_write E b) w) = (if accepts E w b then Some (takeWhile (\<lambda>x. x \<noteq> 0) b) else proc_text w)"
    by (auto simp: proc_text_def my_proc_write_def free_old_def install_def final_world_def accepts_def krun takeWhile_zero Let_def)
qed

text \<open>Two writers at the same time: both free the old text, and the buffer of the one that stores first is lost.\<close>

lemma procfs1_writers_race:
  assumes "b_ledger (trace w) = \<lparr>owned = {#Mem (str w), Mem p, Mem q#}, misused = {#}\<rparr>"
    and "str w \<noteq> Null" and "str w \<noteq> p" and "str w \<noteq> q" and "p \<noteq> q"
  shows "b_ledger (trace (final_world (do { free_old; free_old; install p a; install q b }) w)) =
      \<lparr>owned = {#Mem p, Mem q#}, misused = {#Mem (str w)#}\<rparr> \<and>
    str (final_world (do { free_old; free_old; install p a; install q b }) w) = q"
  using assms by (simp add: free_old_def install_def final_world_def krun ledger_of_append tables)

text \<open>
  C28. The procfs file shows the last text that was accepted: over any sequence of writes, one after the other, with allocations and user copies that may
  fail, the text shown is the one the specification keeps, up to its first zero byte; exactly the buffer of that text is held, every
  replaced one has been freed, and nothing is freed twice.
\<close>

theorem proc1_shows_last:
  assumes "no_err_ptr E" and "proc_inv M B w"
  shows "proc_inv M B (proc_writes E bs w) \<and> proc_text (proc_writes E bs w) = spec_writes E bs w (proc_text w) \<and>
    my_proc_show (proc_writes E bs w) = (case spec_writes E bs w (proc_text w) of None \<Rightarrow> null_text | Some s \<Rightarrow> s) @ [10]"
proof -
  have "proc_inv M B (proc_writes E bs w) \<and> proc_text (proc_writes E bs w) = spec_writes E bs w (proc_text w)"
    using assms(2)
  proof (induction bs arbitrary: w)
    case (Cons b bs)
    then show ?case using proc_write_step [OF assms(1) Cons.prems, of b] by (simp split: if_splits)
  qed simp
  then show ?thesis by (auto simp: my_proc_show_def proc_text_def split: if_splits option.splits)
qed

theorem proc1_shows_last_witness:
  "my_proc_show (proc_writes b_env [[104, 105], [111, 107, 0, 1]] bw0) = [111, 107, 10]"
proof -
  have "no_err_ptr b_env" "proc_inv {#} {#} bw0"
    by (simp_all add: no_err_ptr_def b_env_def proc_inv_def bw0_def if_mem_def)
  note proc1_shows_last [OF this, of "[[104, 105], [111, 107, 0, 1]]"]
  then show ?thesis by (simp add: accepts_def b_env_def Let_def)
qed

text \<open>The write reports a failed user copy with a positive number, which a caller takes for a length.\<close>

lemma proc1_fault_positive:
  assumes "ret_ptr E (trace w) (Kzalloc (length b + 1)) = Ptr a" and "\<forall>tr n. ret_int E tr (Copy_from_user n) = 1"
  shows "result (my_proc_write E b) w = 14"
  using assms by (simp add: my_proc_write_def result_def krun)

fun add_all :: "ulong list \<Rightarrow> bworld \<Rightarrow> bworld" where
  "add_all [] w = w"
| "add_all (v # vs) w = add_all vs (final_world (add_write_op v) w)"

text \<open>
  The debugfs file \<^verbatim>\<open>sum\<close> holds the sum of everything written to \<^verbatim>\<open>add\<close>, modulo two to the 32, although every single 64-bit
  value is cut to 32 bits before it is added.
\<close>

theorem debugfs_sum_mod:
  "unat (debug_sum (add_all vs w)) = (unat (debug_sum w) + sum_list (map unat vs)) mod 2 ^ 32"
proof -
  have "debug_sum (add_all vs w) = debug_sum w + of_nat (sum_list (map unat vs))"
  proof (induction vs arbitrary: w)
    case (Cons v vs)
    have "(ucast v :: u32) = of_nat (unat v)" by simp
    then show ?case using Cons by (simp add: add_write_op_def final_world_def krun)
  qed simp
  then show ?thesis by (simp add: unat_word_ariths unat_of_nat mod_simps)
qed

section \<open>Storing through the sysfs interface\<close>

text \<open>A caller that writes again what a short write left over; every store reports four bytes.\<close>

function write_all :: "attr \<Rightarrow> string \<Rightarrow> bworld \<Rightarrow> bworld" where
  "write_all a buf w =
     (let w' = final_world (poll_store a buf) w in if length buf \<le> 4 then w' else write_all a (drop 4 buf) w')"
  by auto
termination by (relation "measure (\<lambda>(_, buf, _). length buf)") auto

declare write_all.simps [simp del]

definition notified :: "bcall ktrace \<Rightarrow> string list" where
  "notified tr = concat (map (\<lambda>ev. case ev of Void (Sysfs_notify s) \<Rightarrow> [s] | _ \<Rightarrow> []) tr)"

lemma poll_store_value:
  assumes "sscanf_d buf = Some v"
  shows "attr_value a (final_world (poll_store a buf) w) = v"
    and "notified (trace (final_world (poll_store a buf) w)) = notified (trace w) @ [attr_name a]"
    and "b \<noteq> a \<Longrightarrow> attr_value b (final_world (poll_store a buf) w) = attr_value b w"
  using assms by (cases a; cases b; simp add: poll_store_def final_world_def krun notified_def)+

lemma sprintf_short:
  assumes "- 999 \<le> v" and "v \<le> 9999"
  shows "length (sprintf_d v) \<le> 4"
proof (cases "v < 0")
  case True
  then have "length (nat_dec (nat (- v))) \<le> Suc 2" using assms by (intro nat_dec_length) auto
  then show ?thesis using True by (simp add: sprintf_d_def)
next
  case False
  then have "length (nat_dec (nat v)) \<le> Suc 3" using assms by (intro nat_dec_length) auto
  then show ?thesis using False by (simp add: sprintf_d_def)
qed

text \<open>
  Storing a value of at most four characters in a pollable attribute and showing it gives it back, wakes exactly the pollers of that
  attribute once, and leaves the other attribute alone. A longer text is taken in pieces of four bytes, because the store always reports four:
  \<^verbatim>\<open>123456\<close> leaves the value 56.
\<close>

theorem poll_store_show:
  assumes "- 999 \<le> v" and "v \<le> 9999"
  shows "attr_value a (write_all a (sprintf_d v) w) = v \<and>
    notified (trace (write_all a (sprintf_d v) w)) = notified (trace w) @ [attr_name a] \<and>
    (\<forall>b. b \<noteq> a \<longrightarrow> attr_value b (write_all a (sprintf_d v) w) = attr_value b w) \<and>
    result (poll_show a) (write_all a (sprintf_d v) w) = attr_name a @ '': '' @ sprintf_d v @ [char_of (10 :: nat)] \<and>
    attr_value a (write_all a ''123456'' w) = 56"
proof -
  have s: "sscanf_d (sprintf_d v) = Some v" using sscanf_sprintf [of v "[]"] assms by simp
  have one: "write_all a (sprintf_d v) w = final_world (poll_store a (sprintf_d v)) w"
    using sprintf_short [OF assms] by (subst write_all.simps) (simp add: Let_def)
  have "length (sprintf_d v) \<le> 4" by (rule sprintf_short [OF assms])
  moreover have "length (attr_name a) \<le> 7" by (cases a) simp_all
  ultimately have "take 4095 (attr_name a @ '': '' @ sprintf_d v @ [char_of (10 :: nat)]) =
      attr_name a @ '': '' @ sprintf_d v @ [char_of (10 :: nat)]"
    by (intro take_all) simp
  then have shown: "result (poll_show a) (write_all a (sprintf_d v) w) =
      attr_name a @ '': '' @ sprintf_d v @ [char_of (10 :: nat)]"
    using poll_store_value(1) [OF s] by (simp add: poll_show_def result_def krun one attr_value_trace del: take_append)
  have "sscanf_d ''1234'' = Some 1234" "sscanf_d ''56'' = Some 56" by code_simp+
  then have "attr_value a (write_all a ''123456'' w) = 56"
    by (subst write_all.simps) (simp add: Let_def, subst write_all.simps, simp add: Let_def poll_store_value)
  then show ?thesis using shown poll_store_value [OF s] one by simp
qed

theorem poll_store_show_witness: "attr_value Trigger (write_all Trigger (sprintf_d 42) bw0) = 42"
  using poll_store_show [of 42 Trigger bw0] by simp

text \<open>When \<^verbatim>\<open>kobject_add\<close> fails the load still reports success, and the object is lost.\<close>

lemma poll_add_failure:
  assumes "\<forall>tr c. is_addr (ret_ptr E tr c)" and "\<forall>tr c. ret_int E tr c \<noteq> 0"
  shows "result (poll_init E) w = 0" and "mykobj (final_world (poll_init E) w) = Null"
  using assms by (auto simp: poll_init_def result_def final_world_def krun)

text \<open>The parameter callbacks keep what the kernel's functions do, but report every failure as -1.\<close>

text \<open>
  A PCI device that is probed stays enabled: the probe does not disable a revision it rejects, and the remove function does
  nothing.
\<close>

lemma pci_stays_enabled:
  assumes "ret_int E (trace w) Pci_enable_device = 0"
  shows "owned (b_ledger (trace (final_world pci_remove (final_world (pci_probe E) w)))) =
      add_mset PciEnabled (owned (b_ledger (trace w)))"
    and "result (pci_probe E) w \<in> {0, - ENODEV}"
  using assms
  by (cases "b_ledger (trace w)")
    (auto simp: pci_probe_def pci_remove_def skel_get_revision_def final_world_def result_def krun ledger_of_append tables)

end
