(* ===== verification/Log_Modules.thy ===== *)
theory Log_Modules
  imports Kernel_Prelude
begin

text \<open>
  The modules that write to the kernel log: the first modules (\<^verbatim>\<open>HelloWorldModule\<close>, \<^verbatim>\<open>ModuleMultipleFile\<close>,
  \<^verbatim>\<open>ModuleDependency\<close>, \<^verbatim>\<open>PrintJiffies\<close>, \<^verbatim>\<open>KOOPS\<close>), the module parameters (\<^verbatim>\<open>ModuleParam\<close>,
  \<^verbatim>\<open>ModuleParamCallback\<close>), the process list (\<^verbatim>\<open>PrintTaskStruct/task1.c\<close>), the memory map of a process
  (\<^verbatim>\<open>MemoryAlloc/vmlist.c\<close>) and the clock in procfs (\<^verbatim>\<open>ProcExample/proc_test.c\<close>). A line of the log is the format of a
  \<^verbatim>\<open>printk\<close> (without its line breaks) with its arguments; a load ends with a status or in an oops.
\<close>

section \<open>The log\<close>

datatype arg = Num int | Addr ulong | Txt string

type_synonym log = "(string \<times> arg list) list"

datatype outcome = Returned int | Oopsed

definition line :: "string \<Rightarrow> arg list \<Rightarrow> log" where
  "line fmt as = [(fmt, as)]"

section \<open>First modules\<close>

definition example1_init :: "log \<times> outcome" where
  "example1_init = (line ''Initing example1'' [], Returned 0)"
definition example1_stop :: log where
  "example1_stop = line ''Exiting example1'' []"

text \<open>\<^verbatim>\<open>file1.c\<close> and \<^verbatim>\<open>file2.c\<close> are the two halves of one module.\<close>

definition files_init :: "log \<times> outcome" where
  "files_init = (line ''Initing example1'' [], Returned 0)"
definition files_stop :: log where
  "files_stop = line ''Exiting example1'' []"

definition dep1_func :: log where
  "dep1_func = line ''I am in dep1 func'' []"
definition dep1_init :: "log \<times> outcome" where
  "dep1_init = (line ''Initing dep1'' [], Returned 0)"
definition dep1_stop :: log where
  "dep1_stop = line ''Exiting dep1'' []"
definition dep2_init :: "log \<times> outcome" where
  "dep2_init = (line ''Initing dep2'' [] @ dep1_func, Returned 0)"
definition dep2_stop :: log where
  "dep2_stop = line ''Exiting dep2'' []"

definition jiffies_init :: "ulong \<Rightarrow> log \<times> outcome" where
  "jiffies_init jiffies = (line ''Entering Jiffies Example'' [] @ line ''The jiffies value=%ld'' [Num (sint jiffies)], Returned 0)"
definition jiffies_exit :: log where
  "jiffies_exit = line ''Exiting Jiffies Example'' []"

definition my_oops_init :: "log \<times> outcome" where
  "my_oops_init = (line ''oops from the module'' [], Oopsed)"
definition my_oops_exit :: log where
  "my_oops_exit = line ''Goodbye world'' []"

section \<open>Module parameters\<close>

function print_array :: "string \<Rightarrow> int list \<Rightarrow> nat \<Rightarrow> log" where
  "print_array fmt a i =
     (if i < length a then line fmt [Num (int i), Num (a ! i)] @ print_array fmt a (i + 1) else [])"
  by auto
termination by (relation "measure (\<lambda>(_, a, i). length a - i)") auto

declare print_array.simps [simp del]

record ex2_params =
  myshort :: int
  myint :: int
  mylong :: int
  mystring :: string
  myintArray :: "int list"
  arr_argc :: int

definition ex2_defaults :: ex2_params where
  "ex2_defaults = \<lparr>myshort = 1, myint = 420, mylong = 9999, mystring = ''blah'', myintArray = [- 1, - 1], arr_argc = 0\<rparr>"

definition example2_init :: "ex2_params \<Rightarrow> log \<times> outcome" where
  "example2_init p =
     (line ''Entering Example2'' [] @
      line ''myshort is a short integer: %hd'' [Num (myshort p)] @
      line ''myint is an integer: %d'' [Num (myint p)] @
      line ''mylong is a long integer: %ld'' [Num (mylong p)] @
      line ''mystring is a string: %s'' [Txt (mystring p)] @
      print_array ''myintArray[%d] = %d'' (myintArray p) 0 @
      line ''got %d arguments for myintArray.'' [Num (arr_argc p)], Returned 0)"
definition example2_exit :: log where
  "example2_exit = line ''Exiting Example2'' []"

record cb_params =
  intVal :: int
  charPVal :: string
  intArray :: "int list"
  intValChgNotify :: int
  count_of_array_elements :: int

definition cb_defaults :: cb_params where
  "cb_defaults = \<lparr>intVal = 0, charPVal = ''HELLO'', intArray = [- 1, - 2, 0, 0], intValChgNotify = 9,
     count_of_array_elements = 0\<rparr>"

definition startUpModule :: "cb_params \<Rightarrow> log \<times> outcome" where
  "startUpModule p =
     (line ''==  Trying to insert module into kernel memory ... '' [] @
      line ''Value of Integer intVal is %d '' [Num (intVal p)] @
      line ''Value of Character Pointer charPval is %s '' [Txt (charPVal p)] @
      line ''Value of Integer to be notified param is %d '' [Num (intValChgNotify p)] @
      print_array ''Value of element number %d = %d '' (intArray p) 0 @
      line ''Number of array elements got %d '' [Num (count_of_array_elements p)] @
      line ''==  Module inserted into kernel memory'' [], Returned 0)"
definition exitModule :: log where
  "exitModule = line ''Kernel Module removed successfully'' []"

text \<open>
  \<^verbatim>\<open>param_set_int\<close> and \<^verbatim>\<open>param_get_int\<close> belong to the kernel: they are arguments, with the parameter's value as their state.
  Both callbacks return a status, the log and the new value, or the text for the reader.
\<close>

definition setNewValue :: "(string \<Rightarrow> int \<Rightarrow> int \<times> int) \<Rightarrow> string \<Rightarrow> cb_params \<Rightarrow> int \<times> log \<times> cb_params" where
  "setNewValue param_set_int newValue p =
     (case param_set_int newValue (intValChgNotify p) of (res, v) \<Rightarrow>
        (let p' = p\<lparr>intValChgNotify := v\<rparr> in
         if res = 0
         then (0, line ''Setter method called '' [] @ line ''New value is = %d '' [Num (intValChgNotify p')], p')
         else (- 1, [], p')))"

definition getCurrentValue :: "(int \<Rightarrow> int \<times> string) \<Rightarrow> cb_params \<Rightarrow> int \<times> log \<times> string" where
  "getCurrentValue param_get_int p =
     (case param_get_int (intValChgNotify p) of (res, s) \<Rightarrow>
        if 0 \<le> res
        then (res, line ''Getter method called '' [] @ line ''Getter method called '' [] @
          line ''Current value is = %d '' [Num (intValChgNotify p)], s)
        else (- 1, line ''Getter method called '' [] @ line ''Error getting value  '' [], s))"

section \<open>Processes and their memory\<close>

record vm_area =
  vm_start :: ulong
  vm_end :: ulong

record mm_struct =
  map_count :: int
  mmap :: "vm_area list"
  start_code :: ulong
  end_code :: ulong
  start_data :: ulong
  end_data :: ulong
  start_stack :: ulong

text \<open>A kernel thread has no memory descriptor.\<close>

record task_struct =
  comm :: string
  pid :: int
  task_state :: int
  mm :: "mm_struct option"

fun procs_loop :: "task_struct list \<Rightarrow> ulong \<Rightarrow> log" where
  "procs_loop [] process_counter = line ''== Number of process: %zu'' [Addr process_counter]"
| "procs_loop (t # ts) process_counter =
     line ''== %s [%d] {%x}'' [Txt (comm t), Num (pid t), Num (task_state t)] @ procs_loop ts (process_counter + 1)"

definition procs_info_print :: "task_struct list \<Rightarrow> log" where
  "procs_info_print tasks = procs_loop tasks 0"

definition task1_init :: "task_struct list \<Rightarrow> log \<times> outcome" where
  "task1_init tasks = (line ''[ INIT =='' [] @ procs_info_print tasks, Returned 0)"
definition task1_cleanup :: log where
  "task1_cleanup = line ''== CLEANUP ]'' []"

fun vma_loop :: "vm_area list \<Rightarrow> int \<Rightarrow> log" where
  "vma_loop [] cnt = []"
| "vma_loop (v # vs) cnt =
     line ''Vma number %d: '' [Num (s32 (cnt + 1))] @
     line ''  Starts at 0x%lx, Ends at 0x%lx'' [Addr (vm_start v), Addr (vm_end v)] @
     vma_loop vs (s32 (cnt + 1))"

text \<open>\<open>None\<close>: the task has no memory descriptor, and the first access through the null pointer is an oops.\<close>

definition print_mem :: "task_struct \<Rightarrow> log option" where
  "print_mem t =
     (case mm t of
        None \<Rightarrow> None
      | Some m \<Rightarrow> Some (
          line ''This mm_struct has %d vmas.'' [Num (map_count m)] @
          vma_loop (mmap m) 0 @
          line ''Code  Segment start = 0x%lx, end = 0x%lx Data  Segment start = 0x%lx, end = 0x%lx Stack Segment start = 0x%lx''
            [Addr (start_code m), Addr (end_code m), Addr (start_data m), Addr (end_data m), Addr (start_stack m)]))"

fun mm_loop :: "int \<Rightarrow> task_struct list \<Rightarrow> log \<times> outcome" where
  "mm_loop pid_mem [] = ([], Returned 0)"
| "mm_loop pid_mem (t # ts) =
     (if pid t = pid_mem
      then (case print_mem t of
              None \<Rightarrow> (line ''%s[%d]'' [Txt (comm t), Num (pid t)], Oopsed)
            | Some l \<Rightarrow> (case mm_loop pid_mem ts of (l', r) \<Rightarrow> (line ''%s[%d]'' [Txt (comm t), Num (pid t)] @ l @ l', r)))
      else mm_loop pid_mem ts)"

definition mm_exp_load :: "int \<Rightarrow> task_struct list \<Rightarrow> log \<times> outcome" where
  "mm_exp_load pid_mem tasks =
     (case mm_loop pid_mem tasks of (l, r) \<Rightarrow> (line ''Got the process id to look up as %d.'' [Num pid_mem] @ l, r))"
definition mm_exp_unload :: log where
  "mm_exp_unload = line ''Print segment information module exiting.'' []"

section \<open>The clock in procfs\<close>

datatype jcall = Proc_create string | Remove_proc_entry string | Single_open

type_synonym jworld = "jcall kworld"

definition hello_proc_show :: "ulong \<Rightarrow> log \<times> int" where
  "hello_proc_show jiffies = (line ''jiffies = %lu'' [Addr jiffies], 0)"

definition hello_proc_open :: "jcall kenv \<Rightarrow> (jworld, int) state" where
  "hello_proc_open E = kint E Single_open"

definition hello_proc_init :: "jcall kenv \<Rightarrow> (jworld, int) state" where
  "hello_proc_init E = do { _ \<leftarrow> kptr_call E (Proc_create ''jiffies_test''); ret 0 }"

definition hello_proc_exit :: "jcall kenv \<Rightarrow> (jworld, unit) state" where
  "hello_proc_exit E = kvoid (Remove_proc_entry ''jiffies_test'')"

datatype jres = Entry string

definition j_acq :: "jcall kevent \<Rightarrow> jres option" where
  "j_acq ev = (case ev of RetP (Proc_create nm) p \<Rightarrow> if is_addr p then Some (Entry nm) else None | _ \<Rightarrow> None)"
definition j_rel :: "jcall kevent \<Rightarrow> jres option" where
  "j_rel ev = (case ev of Void (Remove_proc_entry nm) \<Rightarrow> Some (Entry nm) | _ \<Rightarrow> None)"

declare j_acq_def [tables] j_rel_def [tables]

definition creates :: "jcall kenv \<Rightarrow> bool" where
  "creates E \<longleftrightarrow> (\<forall>tr c. is_addr (ret_ptr E tr c))"

interpretation jiffies_mod: kernel_module hello_proc_init hello_proc_exit j_acq j_rel "\<lambda>_. {#Entry ''jiffies_test''#}" creates
proof (unfold_locales, goal_cases)
  case (1 E w w')
  then show ?case by (auto simp: hello_proc_init_def creates_def krun ledger_of_append tables)
next
  case (2 w M E)
  then show ?case
    by (cases "ledger_of j_acq j_rel (trace w)") (simp add: hello_proc_exit_def final_world_def krun ledger_of_append tables)
qed

text \<open>The load does not look at the result: after a failed creation the unload removes an entry that does not exist.\<close>

lemma jiffies_missing_entry:
  assumes "ret_ptr E [] (Proc_create ''jiffies_test'') = Null"
  shows "result (hello_proc_init E) \<lparr>trace = []\<rparr> = 0"
    and "misused (ledger_of j_acq j_rel (trace (final_world (hello_proc_exit E) (final_world (hello_proc_init E) \<lparr>trace = []\<rparr>)))) =
      {#Entry ''jiffies_test''#}"
  using assms by (simp_all add: hello_proc_init_def hello_proc_exit_def result_def final_world_def krun ledger_of_append ledger_of_def
      ledger_step_def tables)

section \<open>What the logs say\<close>

lemma print_array_lines:
  "print_array fmt a i = map (\<lambda>k. (fmt, [Num (int k), Num (a ! k)])) [i..<length a]"
  by (induction fmt a i rule: print_array.induct)
    (subst print_array.simps, simp add: line_def upt_conv_Cons)

text \<open>The lines name every process and the last one is the number of processes.\<close>

lemma procs_loop_lines:
  "procs_loop ts c =
     map (\<lambda>t. (''== %s [%d] {%x}'', [Txt (comm t), Num (pid t), Num (task_state t)])) ts @
     line ''== Number of process: %zu'' [Addr (c + of_nat (length ts))]"
  by (induction ts arbitrary: c) (simp_all add: line_def algebra_simps)

lemma vma_loop_lines:
  assumes "0 \<le> c" and "c + int (length vs) < 2 ^ 31"
  shows "vma_loop vs c = concat (map (\<lambda>k.
      [(''Vma number %d: '', [Num (c + int k + 1)]),
       (''  Starts at 0x%lx, Ends at 0x%lx'', [Addr (vm_start (vs ! k)), Addr (vm_end (vs ! k))])]) [0..<length vs])"
  using assms
proof (induction vs arbitrary: c)
  case (Cons v vs)
  have s: "s32 (c + 1) = c + 1" using Cons.prems by (intro s32_id) auto
  have u: "[0..<Suc (length vs)] = 0 # map Suc [0..<length vs]" by (simp add: upt_conv_Cons map_Suc_upt del: upt_Suc)
  show ?case
    using Cons by (simp add: s u line_def comp_def algebra_simps del: upt_Suc)
qed simp

text \<open>
  Listing the memory of a process that has none is an oops: the load faults exactly when a process with the wanted
  number is a kernel thread.
\<close>

theorem mm_exp_load_faults:
  "snd (mm_exp_load pid_mem tasks) = (if \<exists>t \<in> set tasks. pid t = pid_mem \<and> mm t = None then Oopsed else Returned 0)"
proof -
  have "snd (mm_loop pid_mem tasks) = (if \<exists>t \<in> set tasks. pid t = pid_mem \<and> mm t = None then Oopsed else Returned 0)"
    by (induction tasks) (auto simp: print_mem_def split: option.splits prod.splits)
  then show ?thesis by (simp add: mm_exp_load_def case_prod_beta)
qed

text \<open>A value that the setter accepts is the value the getter reports.\<close>

lemma callback_set_get:
  assumes "param_set_int s (intValChgNotify p) = (0, v)" and "param_get_int v = (n, s')" and "0 \<le> n"
  shows "snd (snd (setNewValue param_set_int s p)) = p\<lparr>intValChgNotify := v\<rparr>"
    and "getCurrentValue param_get_int (snd (snd (setNewValue param_set_int s p))) =
      (n, line ''Getter method called '' [] @ line ''Getter method called '' [] @ line ''Current value is = %d '' [Num v], s')"
  using assms by (simp_all add: setNewValue_def getCurrentValue_def)

end
