(* ===== verification/Watchdog_Tool.thy ===== *)
theory Watchdog_Tool
  imports C_Decimal
begin

text \<open>
  The watchdog program \<^verbatim>\<open>Watchdog/watchdog.c\<close>: option handling, the ping loop, and the two ways
  it ends. The system calls are answered by an environment as everywhere. The program scans its arguments
  twice; what \<^verbatim>\<open>getopt_long\<close> answers, the options with their arguments in order, is an argument for
  each of the two scans here. \<^verbatim>\<open>Watchdog_Options\<close> derives both from the command line.
\<close>

section \<open>System calls\<close>

datatype wd_cmd =
    WDIOC_GETSUPPORT
  | WDIOC_GETBOOTSTATUS
  | WDIOC_SETOPTIONS
  | WDIOC_KEEPALIVE
  | WDIOC_SETTIMEOUT
  | WDIOC_GETTIMEOUT
  | WDIOC_SETPRETIMEOUT
  | WDIOC_GETPRETIMEOUT
  | WDIOC_GETTIMELEFT

text \<open>
  \<open>Ioctl cmd arg\<close> answers the result of the call, \<open>Stored cmd\<close> the value it left in its argument, and
  \<open>Errno\<close> the error number.
\<close>

datatype wcall =
    Open_dev string
  | Ioctl wd_cmd int
  | Stored wd_cmd
  | Errno
  | Printf string "int list"
  | Print_info
  | Write_v
  | Close_dev
  | Signal_term
  | Sleep u32

type_synonym wd_world = "wcall kworld"

definition WDIOS_DISABLECARD :: int where "WDIOS_DISABLECARD = 1"
definition WDIOS_ENABLECARD :: int where "WDIOS_ENABLECARD = 2"
definition DEFAULT_PING_RATE :: u32 where "DEFAULT_PING_RATE = 1"

abbreviation (input) EACCES :: int where "EACCES \<equiv> 13"

section \<open>\<^verbatim>\<open>strtoul\<close> with base 0\<close>

definition digit_of :: "nat \<Rightarrow> char \<Rightarrow> nat option" where
  "digit_of base c =
     (let n = (of_char c :: nat);
          v = (if 48 \<le> n \<and> n \<le> 57 then n - 48
               else if 97 \<le> n \<and> n \<le> 122 then n - 87
               else if 65 \<le> n \<and> n \<le> 90 then n - 55 else base)
      in if v < base then Some v else None)"

definition base_and_digits :: "string \<Rightarrow> nat \<times> string" where
  "base_and_digits s =
     (case s of
        c # x # d # cs \<Rightarrow>
          if c = CHR ''0'' \<and> (x = CHR ''x'' \<or> x = CHR ''X'') \<and> digit_of 16 d \<noteq> None then (16, d # cs)
          else if c = CHR ''0'' then (8, s) else (10, s)
      | c # cs \<Rightarrow> if c = CHR ''0'' then (8, s) else (10, s)
      | [] \<Rightarrow> (10, s))"

definition scan_base :: "nat \<Rightarrow> string \<Rightarrow> nat" where
  "scan_base base s =
     foldl (\<lambda>a c. a * base + the (digit_of base c)) 0 (takeWhile (\<lambda>c. digit_of base c \<noteq> None) s)"

definition strtoul :: "string \<Rightarrow> ulong" where
  "strtoul s =
     (let s1 = dropWhile is_space s;
          neg = (s1 \<noteq> [] \<and> hd s1 = CHR ''-'');
          s2 = (if s1 \<noteq> [] \<and> (hd s1 = CHR ''-'' \<or> hd s1 = CHR ''+'') then tl s1 else s1);
          v = (case base_and_digits s2 of (base, ds) \<Rightarrow> scan_base base ds)
      in if v \<ge> 2 ^ 64 then - 1 else if neg then - of_nat v else of_nat v)"

text \<open>Its conversions to \<^verbatim>\<open>unsigned int\<close> and \<^verbatim>\<open>int\<close>.\<close>

definition to_uint :: "ulong \<Rightarrow> u32" where "to_uint x = ucast x"
definition to_int :: "ulong \<Rightarrow> int" where "to_int x = s32 (uint x)"

lemma of_char_digit: "d < 10 \<Longrightarrow> (of_char (digit d) :: nat) = 48 + d"
  by (simp add: digit_def)

lemma digit_other: "d < 10 \<Longrightarrow> (of_char c :: nat) \<noteq> 48 + d \<Longrightarrow> digit d \<noteq> c"
  using of_char_digit by metis

lemma digit_of_dec: "is_digit c \<Longrightarrow> digit_of 10 c = Some (digit_val c)"
  by (auto simp: digit_of_def is_digit_def digit_val_def Let_def)

lemma scan_base_dec: "scan_base 10 (nat_dec n) = n"
proof -
  have d: "c \<in> set (nat_dec n) \<Longrightarrow> is_digit c" for c using nat_dec_digits by (simp add: list_all_iff)
  then have "takeWhile (\<lambda>c. digit_of 10 c \<noteq> None) (nat_dec n) = nat_dec n"
    by (simp add: takeWhile_eq_all_conv digit_of_dec)
  moreover have "foldl (\<lambda>a c. a * 10 + the (digit_of 10 c)) 0 (nat_dec n) = foldl (\<lambda>a c. a * 10 + digit_val c) 0 (nat_dec n)"
    using d by (intro foldl_cong) (simp_all add: digit_of_dec)
  ultimately show ?thesis unfolding scan_base_def by (simp only: nat_dec_value)
qed

lemma nat_dec_pos_hd: "0 < n \<Longrightarrow> \<exists>d cs. 0 < d \<and> d < 10 \<and> nat_dec n = digit d # cs"
proof (induction n rule: nat_dec.induct)
  case (1 n)
  show ?case
  proof (cases "n < 10")
    case True
    then show ?thesis using 1 by (subst nat_dec.simps) auto
  next
    case False
    then have "0 < n div 10" by (simp add: div_greater_zero_iff)
    then obtain d cs where "0 < d" "d < 10" "nat_dec (n div 10) = digit d # cs" using 1 False by blast
    then show ?thesis using False by (subst nat_dec.simps) auto
  qed
qed

text \<open>Scanning undoes printing, for every number that fits.\<close>

lemma strtoul_dec:
  assumes "0 < n" and "n < 2 ^ 64"
  shows "strtoul (nat_dec n) = of_nat n"
proof -
  obtain d cs where d: "0 < d" "d < 10" "nat_dec n = digit d # cs" using nat_dec_pos_hd assms by blast
  have c: "digit d \<noteq> CHR ''0''" "digit d \<noteq> CHR ''-''" "digit d \<noteq> CHR ''+''"
    by (rule digit_other; use d in simp)+
  then have "base_and_digits (nat_dec n) = (10, nat_dec n)"
    using d by (auto simp: base_and_digits_def split: list.splits)
  then show ?thesis
    using assms c d scan_base_dec [of n] by (simp add: strtoul_def)
qed

section \<open>The program\<close>

definition keep_alive :: "wcall kenv \<Rightarrow> (wd_world, unit) state" where
  "keep_alive E = do {
     r \<leftarrow> kint E (Ioctl WDIOC_KEEPALIVE 0);
     if r = 0 then kvoid (Printf ''.'' []) else ret () }"

text \<open>The handler of \<^verbatim>\<open>SIGINT\<close>; it ends the process with status 0.\<close>

definition term_handler :: "wcall kenv \<Rightarrow> (wd_world, int) state" where
  "term_handler E = do {
     r \<leftarrow> kint E Write_v;
     kvoid Close_dev;
     (if r < 0 then do { e \<leftarrow> kint E Errno; kvoid (Printf ''Stopping watchdog ticks failed (%d)...'' [e]) }
      else kvoid (Printf ''Stopping watchdog ticks...'' []));
     ret 0 }"

abbreviation (input) tab :: string where "tab \<equiv> [CHR 0x09]"

definition usage_lines :: "string \<Rightarrow> (string \<times> int list) list" where
  "usage_lines progname =
     [(''Usage: '' @ progname @ '' [options]'', []),
      ('' -f, --file'' @ tab @ tab @ ''Open watchdog device file'', []),
      (tab @ tab @ tab @ ''Default is /dev/watchdog'', []),
      ('' -i, --info'' @ tab @ tab @ ''Show watchdog_info'', []),
      ('' -b, --bootstatus'' @ tab @ ''Get last boot status (Watchdog/POR)'', []),
      ('' -d, --disable'' @ tab @ tab @ ''Turn off the watchdog timer'', []),
      ('' -e, --enable'' @ tab @ tab @ ''Turn on the watchdog timer'', []),
      ('' -h, --help'' @ tab @ tab @ ''Print the help message'', []),
      ('' -p, --pingrate=P'' @ tab @ ''Set ping rate to P seconds (default %d)'', [uint DEFAULT_PING_RATE]),
      ('' -t, --timeout=T'' @ tab @ ''Set timeout to T seconds'', []),
      ('' -T, --gettimeout'' @ tab @ ''Get the timeout'', []),
      ('' -n, --pretimeout=T'' @ tab @ ''Set the pretimeout to T seconds'', []),
      ('' -N, --getpretimeout'' @ tab @ ''Get the pretimeout'', []),
      ('' -L, --gettimeleft'' @ tab @ ''Get the time left until timer expires'', []),
      ([], []),
      (''Parameters are parsed left-to-right in real-time.'', []),
      (''Example: '' @ progname @ '' -d -t 10 -p 5 -e'', []),
      (''Example: '' @ progname @ '' -t 12 -T -n 7 -N'', [])]"

fun printf_all :: "(string \<times> int list) list \<Rightarrow> (wd_world, unit) state" where
  "printf_all [] = ret ()"
| "printf_all ((text, args) # ls) = do { kvoid (Printf text args); printf_all ls }"

definition usage :: "string \<Rightarrow> (wd_world, unit) state" where
  "usage progname = printf_all (usage_lines progname)"

definition print_error :: "wcall kenv \<Rightarrow> string \<Rightarrow> (wd_world, unit) state" where
  "print_error E msg = do { e \<leftarrow> kint E Errno; kvoid (Printf msg [e]) }"

text \<open>
  The three shapes of options: ask the driver for a value and print it; set a value and print the one the
  driver made of it; switch the card. The last two give the new value of \<^verbatim>\<open>oneshot\<close>.
\<close>

definition query :: "wcall kenv \<Rightarrow> wd_cmd \<Rightarrow> (int \<Rightarrow> wcall) \<Rightarrow> string \<Rightarrow> (wd_world, unit) state" where
  "query E cmd report msg = do {
     r \<leftarrow> kint E (Ioctl cmd 0);
     if r = 0 then do { flags \<leftarrow> kint E (Stored cmd); kvoid (report flags) } else print_error E msg }"

definition set_value ::
  "wcall kenv \<Rightarrow> wd_cmd \<Rightarrow> int \<Rightarrow> (int \<Rightarrow> wcall) \<Rightarrow> string \<Rightarrow> bool \<Rightarrow> (wd_world, bool) state" where
  "set_value E cmd flags report msg oneshot = do {
     r \<leftarrow> kint E (Ioctl cmd flags);
     if r = 0 then do { v \<leftarrow> kint E (Stored cmd); kvoid (report v); ret oneshot }
     else do { print_error E msg; ret True } }"

definition set_card :: "wcall kenv \<Rightarrow> int \<Rightarrow> string \<Rightarrow> string \<Rightarrow> bool \<Rightarrow> (wd_world, bool) state" where
  "set_card E flags done_msg msg oneshot = do {
     r \<leftarrow> kint E (Ioctl WDIOC_SETOPTIONS flags);
     if r = 0 then do { kvoid (Printf done_msg []); ret oneshot }
     else do { print_error E msg; ret True } }"

text \<open>
  One round of the \<^verbatim>\<open>switch\<close>, from the ping rate and \<^verbatim>\<open>oneshot\<close> to their new values; the first component
  says that the program jumps to the label \<^verbatim>\<open>end\<close>.
\<close>

definition opt_step :: "wcall kenv \<Rightarrow> string \<Rightarrow> char \<times> string \<Rightarrow> u32 \<times> bool \<Rightarrow> (wd_world, bool \<times> u32 \<times> bool) state" where
  "opt_step E progname opt st =
     (let c = fst opt; optarg = snd opt; ping_rate = fst st; oneshot = snd st in
      if c = CHR ''b'' then do {
        query E WDIOC_GETBOOTSTATUS
          (\<lambda>flags. Printf (if flags \<noteq> 0 then ''Last boot is caused by: Watchdog.''
                      else ''Last boot is caused by: Power-On-Reset.'') [])
          ''WDIOC_GETBOOTSTATUS error'';
        ret (False, ping_rate, True) }
      else if c = CHR ''d'' then do {
        o1 \<leftarrow> set_card E WDIOS_DISABLECARD ''Watchdog card disabled.'' ''WDIOS_DISABLECARD error'' oneshot;
        ret (False, ping_rate, o1) }
      else if c = CHR ''e'' then do {
        o1 \<leftarrow> set_card E WDIOS_ENABLECARD ''Watchdog card enabled.'' ''WDIOS_ENABLECARD error'' oneshot;
        ret (False, ping_rate, o1) }
      else if c = CHR ''p'' then
        (let p = to_uint (strtoul optarg); p' = (if p = 0 then DEFAULT_PING_RATE else p) in do {
           kvoid (Printf ''Watchdog ping rate set to %u seconds.'' [uint p']);
           ret (False, p', oneshot) })
      else if c = CHR ''t'' then do {
        o1 \<leftarrow> set_value E WDIOC_SETTIMEOUT (to_int (strtoul optarg))
          (\<lambda>v. Printf ''Watchdog timeout set to %u seconds.'' [v]) ''WDIOC_SETTIMEOUT error'' oneshot;
        ret (False, ping_rate, o1) }
      else if c = CHR ''T'' then do {
        query E WDIOC_GETTIMEOUT (\<lambda>v. Printf ''WDIOC_GETTIMEOUT returns %u seconds.'' [v]) ''WDIOC_GETTIMEOUT error'';
        ret (False, ping_rate, True) }
      else if c = CHR ''n'' then do {
        o1 \<leftarrow> set_value E WDIOC_SETPRETIMEOUT (to_int (strtoul optarg))
          (\<lambda>v. Printf ''Watchdog pretimeout set to %u seconds.'' [v]) ''WDIOC_SETPRETIMEOUT error'' oneshot;
        ret (False, ping_rate, o1) }
      else if c = CHR ''N'' then do {
        query E WDIOC_GETPRETIMEOUT (\<lambda>v. Printf ''WDIOC_GETPRETIMEOUT returns %u seconds.'' [v])
          ''WDIOC_GETPRETIMEOUT error'';
        ret (False, ping_rate, True) }
      else if c = CHR ''L'' then do {
        query E WDIOC_GETTIMELEFT (\<lambda>v. Printf ''WDIOC_GETTIMELEFT returns %u seconds.'' [v])
          ''WDIOC_GETTIMELEFT error'';
        ret (False, ping_rate, True) }
      else if c = CHR ''f'' then ret (False, ping_rate, oneshot)
      else if c = CHR ''i'' then do { kvoid Print_info; ret (False, ping_rate, True) }
      else do { usage progname; ret (True, ping_rate, oneshot) })"

fun opt_loop ::
  "wcall kenv \<Rightarrow> string \<Rightarrow> (char \<times> string) list \<Rightarrow> u32 \<times> bool \<Rightarrow> (wd_world, bool \<times> u32 \<times> bool) state" where
  "opt_loop E progname [] st = ret (False, st)"
| "opt_loop E progname (opt # opts) st = do {
     r \<leftarrow> opt_step E progname opt st;
     if fst r then ret r else opt_loop E progname opts (snd r) }"

definition find_file :: "(char \<times> string) list \<Rightarrow> string" where
  "find_file opts = fold (\<lambda>(c, optarg) file. if c = CHR ''f'' then optarg else file) opts ''/dev/watchdog''"

text \<open>The label \<^verbatim>\<open>end\<close>.\<close>

definition wd_end :: "wcall kenv \<Rightarrow> (wd_world, unit) state" where
  "wd_end E = do {
     r \<leftarrow> kint E Write_v;
     (if r < 0 then do { e \<leftarrow> kint E Errno; kvoid (Printf ''Stopping watchdog ticks failed (%d)...'' [e]) }
      else ret ());
     kvoid Close_dev }"

text \<open>\<^verbatim>\<open>main\<close> up to the ping loop: it has ended with a status, or it is ticking at some rate.\<close>

datatype wd_exit = Exit int | Ticking u32

definition wd_main ::
  "wcall kenv \<Rightarrow> string \<Rightarrow> (char \<times> string) list \<Rightarrow> (char \<times> string) list \<Rightarrow> (wd_world, wd_exit) state" where
  "wd_main E progname opts1 opts = do {
     fd \<leftarrow> kint E (Open_dev (find_file opts1));
     if fd = - 1 then do {
       e \<leftarrow> kint E Errno;
       (if e = ENOENT then kvoid (Printf ''Watchdog device not found.'' [])
        else if e = EACCES then kvoid (Printf ''Run watchdog as root.'' [])
        else kvoid (Printf ''Watchdog device open failed'' [e]));
       ret (Exit (- 1)) }
     else do {
       r \<leftarrow> kint E (Ioctl WDIOC_GETSUPPORT 0);
       if r \<noteq> 0 then do { print_error E ''WDIOC_GETSUPPORT error''; kvoid Close_dev; ret (Exit r) }
       else do {
         s \<leftarrow> opt_loop E progname opts (DEFAULT_PING_RATE, False);
         if fst s \<or> snd (snd s) then do { wd_end E; ret (Exit 0) }
         else do {
           kvoid (Printf ''Watchdog Ticking Away!'' []);
           kvoid Signal_term;
           ret (Ticking (fst (snd s))) } } } }"

text \<open>Complete rounds of the ping loop.\<close>

fun ping_loop :: "wcall kenv \<Rightarrow> u32 \<Rightarrow> nat \<Rightarrow> (wd_world, unit) state" where
  "ping_loop E p 0 = ret ()"
| "ping_loop E p (Suc n) = do { keep_alive E; kvoid (Sleep p); ping_loop E p n }"

text \<open>
  The program when nothing interrupts it, for some rounds of its endless loop. The result is the exit status, if it ends.
\<close>

definition wd_ticks ::
  "wcall kenv \<Rightarrow> string \<Rightarrow> (char \<times> string) list \<Rightarrow> (char \<times> string) list \<Rightarrow> nat \<Rightarrow> (wd_world, int option) state" where
  "wd_ticks E progname opts1 opts n = do {
     r \<leftarrow> wd_main E progname opts1 opts;
     (case r of
        Exit s \<Rightarrow> ret (Some s)
      | Ticking p \<Rightarrow> do { ping_loop E p n; ret None }) }"

text \<open>
  A whole run. \<^verbatim>\<open>SIGINT\<close> arrives after \<open>k\<close> system calls of the program, at any moment of it: in the option handling, at the end, in the
  middle of a round. Before \<^verbatim>\<open>signal(SIGINT, term)\<close> it has the default action and kills the process; after that it runs the handler, which
  ends it. A program that has ended before is not interrupted.
\<close>

datatype wd_status = Exited int | Killed_by_SIGINT

definition wd_run ::
  "wcall kenv \<Rightarrow> string \<Rightarrow> (char \<times> string) list \<Rightarrow> (char \<times> string) list \<Rightarrow> nat \<Rightarrow> nat \<Rightarrow> (wd_world, wd_status) state" where
  "wd_run E progname opts1 opts n k = State (\<lambda>w.
     let (s, w1) = run_state (wd_ticks E progname opts1 opts n) w;
         evs = drop (length (trace w)) (trace w1);
         w2 = w\<lparr>trace := trace w @ take k evs\<rparr>
     in if s \<noteq> None \<and> length evs \<le> k then (Exited (the s), w1)
        else if Void Signal_term \<in> set (take k evs) then (Exited (result (term_handler E) w2), final_world (term_handler E) w2)
        else (Killed_by_SIGINT, w2))"

section \<open>What the option handling does to the device\<close>

text \<open>The magic character, or the close.\<close>

definition ends_watch :: "wcall kevent \<Rightarrow> bool" where
  "ends_watch ev \<longleftrightarrow> (case ev of RetI Write_v _ \<Rightarrow> True | Void Close_dev \<Rightarrow> True | _ \<Rightarrow> False)"

definition is_ioctl :: "wcall kevent \<Rightarrow> bool" where
  "is_ioctl ev \<longleftrightarrow> (case ev of RetI (Ioctl _ _) _ \<Rightarrow> True | _ \<Rightarrow> False)"

lemma ends_watch_simps [simp]:
  "ends_watch (RetI Write_v r)" "ends_watch (Void Close_dev)" "\<not> ends_watch (RetI (Ioctl c a) r)"
  "\<not> ends_watch (RetI Errno r)" "\<not> ends_watch (RetI (Stored c) r)" "\<not> ends_watch (RetI (Open_dev f) r)"
  "\<not> ends_watch (Void (Printf s xs))" "\<not> ends_watch (Void Print_info)"
  "\<not> ends_watch (Void (Sleep p))" "\<not> ends_watch (Void Signal_term)"
  by (simp_all add: ends_watch_def)

definition holds_watch :: "wcall kevent \<Rightarrow> bool" where
  "holds_watch ev \<longleftrightarrow> \<not> ends_watch ev \<and> ev \<noteq> Void Signal_term"

text \<open>A piece of the program that neither writes the character nor closes the device nor installs the handler.\<close>

definition keeps_open :: "(wd_world, 'a) state \<Rightarrow> bool" where
  "keeps_open m \<longleftrightarrow>
     (\<forall>w. \<exists>evs. trace (final_world m w) = trace w @ evs \<and> list_all holds_watch evs)"

named_theorems open_rules \<open>pieces that keep the device open\<close>

lemma keeps_open_ret [open_rules]: "keeps_open (ret x)"
  by (simp add: keeps_open_def final_world_def)

lemma keeps_open_kint [open_rules]: "(\<And>r. holds_watch (RetI c r)) \<Longrightarrow> keeps_open (kint E c)"
  by (simp add: keeps_open_def final_world_def krun)

lemma keeps_open_kvoid [open_rules]: "holds_watch (Void c) \<Longrightarrow> keeps_open (kvoid c)"
  by (simp add: keeps_open_def final_world_def krun)

lemma keeps_open_bind [open_rules]:
  assumes "keeps_open m" and "\<And>x. keeps_open (f x)"
  shows "keeps_open (m \<bind> f)"
  unfolding keeps_open_def
proof
  fix w
  obtain x w1 where m: "run_state m w = (x, w1)" by fastforce
  obtain e1 e2 where "trace w1 = trace w @ e1" "list_all holds_watch e1"
    "trace (final_world (f x) w1) = trace w1 @ e2" "list_all holds_watch e2"
    using assms m unfolding keeps_open_def by (metis final_world_def snd_conv)
  then show "\<exists>evs. trace (final_world (m \<bind> f) w) = trace w @ evs \<and> list_all holds_watch evs"
    by (intro exI [of _ "e1 @ e2"]) (simp add: final_world_def m)
qed

lemma keeps_open_if [open_rules]: "keeps_open a \<Longrightarrow> keeps_open b \<Longrightarrow> keeps_open (if c then a else b)"
  by simp

lemma printf_all_keeps_open: "keeps_open (printf_all ls)"
  by (induction ls rule: printf_all.induct) (auto intro!: open_rules simp: holds_watch_def)

lemma usage_keeps_open [open_rules]: "keeps_open (usage progname)"
  by (simp add: usage_def printf_all_keeps_open)

lemma opt_step_keeps_open [open_rules]: "keeps_open (opt_step E progname opt st)"
  unfolding opt_step_def query_def set_value_def set_card_def print_error_def Let_def
  by (intro open_rules) (auto simp: holds_watch_def)

lemma opt_loop_keeps_open [open_rules]: "keeps_open (opt_loop E progname opts st)"
  by (induction opts arbitrary: st) (auto intro!: open_rules simp: holds_watch_def)

lemma keep_alive_keeps_open [open_rules]: "keeps_open (keep_alive E)"
  unfolding keep_alive_def by (intro open_rules) (auto simp: holds_watch_def)

lemma ping_loop_keeps_open [open_rules]: "keeps_open (ping_loop E p n)"
  by (induction n) (auto intro!: open_rules simp: holds_watch_def)

text \<open>A piece that writes the character, then closes the device, and sends no more commands after that.\<close>

definition closes_with_v :: "(wd_world, 'a) state \<Rightarrow> bool" where
  "closes_with_v m \<longleftrightarrow>
     (\<forall>w. \<exists>evs r. trace (final_world m w) = trace w @ evs \<and>
        filter ends_watch evs = [RetI Write_v r, Void Close_dev] \<and>
        list_all (\<lambda>ev. \<not> is_ioctl ev) (dropWhile (\<lambda>ev. \<not> ends_watch ev) evs))"

lemma wd_end_closes [open_rules]: "closes_with_v (do { wd_end E; ret x })"
  by (auto simp: closes_with_v_def wd_end_def final_world_def krun is_ioctl_def)

lemma term_handler_closes [open_rules]: "closes_with_v (term_handler E)"
  by (auto simp: closes_with_v_def term_handler_def final_world_def krun is_ioctl_def)

text \<open>The world of the program is its trace.\<close>

lemma wd_world_eq: "(w1 :: wd_world) = w\<lparr>trace := trace w1\<rparr>"
  by (cases w; cases w1) simp

lemma keeps_open_run:
  assumes "keeps_open m"
  obtains x evs where "run_state m w = (x, w\<lparr>trace := trace w @ evs\<rparr>)" and "list_all holds_watch evs"
proof -
  obtain evs where "trace (snd (run_state m w)) = trace w @ evs" "list_all holds_watch evs"
    using assms unfolding keeps_open_def final_world_def by blast
  then show thesis
    using that [of "fst (run_state m w)" evs] wd_world_eq [of "snd (run_state m w)" w] by (metis prod.collapse)
qed

text \<open>
  What the program does when nothing interrupts it and it recognises the device: it ends by itself, with the character and the
  close, and does not install the handler; or it ticks, and neither writes nor closes.
\<close>

lemma wd_ticks_recognised:
  assumes "ret_int E (trace w) (Open_dev (find_file opts1)) = fd" and "fd \<noteq> - 1"
    and "ret_int E (trace w @ [RetI (Open_dev (find_file opts1)) fd]) (Ioctl WDIOC_GETSUPPORT 0) = 0"
  obtains (Ends) s pre evs v where "run_state (wd_ticks E progname opts1 opts n) w = (Some s, w\<lparr>trace := trace w @ pre @ evs\<rparr>)"
      "list_all holds_watch pre" "Void Signal_term \<notin> set evs" "filter ends_watch evs = [RetI Write_v v, Void Close_dev]"
      "list_all (\<lambda>ev. \<not> is_ioctl ev) (dropWhile (\<lambda>ev. \<not> ends_watch ev) evs)"
    | (Ticks) evs where "run_state (wd_ticks E progname opts1 opts n) w = (None, w\<lparr>trace := trace w @ evs\<rparr>)"
      "list_all (\<lambda>ev. \<not> ends_watch ev) evs"
proof -
  let ?pre = "[RetI (Open_dev (find_file opts1)) fd, RetI (Ioctl WDIOC_GETSUPPORT 0) 0]"
  obtain s e1 where s: "run_state (opt_loop E progname opts (DEFAULT_PING_RATE, False)) (w\<lparr>trace := trace w @ ?pre\<rparr>) =
      (s, w\<lparr>trace := trace w @ ?pre @ e1\<rparr>)" and e1: "list_all holds_watch e1"
    by (rule keeps_open_run [OF opt_loop_keeps_open [of E progname opts "(DEFAULT_PING_RATE, False)"], of "w\<lparr>trace := trace w @ ?pre\<rparr>"]) simp
  have p: "list_all holds_watch (?pre @ e1)" using e1 by (simp add: holds_watch_def)
  have h: "list_all holds_watch evs \<Longrightarrow> list_all (\<lambda>ev. \<not> ends_watch ev) evs" for evs
    by (auto simp: list_all_iff holds_watch_def)
  show thesis
  proof (cases "fst s \<or> snd (snd s)")
    case True
    let ?v = "ret_int E (trace w @ ?pre @ e1) Write_v"
    let ?t = "trace w @ ?pre @ e1 @ [RetI Write_v ?v]"
    let ?tail = "RetI Write_v ?v # (if ?v < 0 then [RetI Errno (ret_int E ?t Errno), Void (Printf ''Stopping watchdog ticks failed (%d)...'' [ret_int E ?t Errno])] else [])
      @ [Void Close_dev]"
    have "run_state (wd_ticks E progname opts1 opts n) w = (Some 0, w\<lparr>trace := trace w @ (?pre @ e1) @ ?tail\<rparr>)"
      using assms s True by (simp add: wd_ticks_def wd_main_def wd_end_def krun case_prod_beta)
    then show thesis by (rule Ends [OF _ p]) (simp_all add: is_ioctl_def)
  next
    case False
    let ?t = "trace w @ ?pre @ e1 @ [Void (Printf ''Watchdog Ticking Away!'' []), Void Signal_term]"
    obtain x e2 where e2: "run_state (ping_loop E (fst (snd s)) n) (w\<lparr>trace := ?t\<rparr>) = (x, w\<lparr>trace := ?t @ e2\<rparr>)" "list_all holds_watch e2"
      by (rule keeps_open_run [OF ping_loop_keeps_open [of E "fst (snd s)" n], of "w\<lparr>trace := ?t\<rparr>"]) simp
    have "run_state (wd_ticks E progname opts1 opts n) w =
        (None, w\<lparr>trace := trace w @ (?pre @ e1) @ [Void (Printf ''Watchdog Ticking Away!'' []), Void Signal_term] @ e2\<rparr>)"
      using assms s False e2(1) by (simp add: wd_ticks_def wd_main_def krun case_prod_beta)
    then show thesis by (rule Ticks) (use h [OF p] h [OF e2(2)] in simp)
  qed
qed

lemma wd_ticks_not_recognised:
  assumes "ret_int E (trace w) (Open_dev (find_file opts1)) = fd"
    and "fd = - 1 \<or> ret_int E (trace w @ [RetI (Open_dev (find_file opts1)) fd]) (Ioctl WDIOC_GETSUPPORT 0) \<noteq> 0"
  obtains s evs where "run_state (wd_ticks E progname opts1 opts n) w = (Some s, w\<lparr>trace := trace w @ evs\<rparr>)"
    "Void Signal_term \<notin> set evs" "filter ends_watch evs = (if fd = - 1 then [] else [Void Close_dev])"
proof -
  have "\<exists>s evs. run_state (wd_ticks E progname opts1 opts n) w = (Some s, w\<lparr>trace := trace w @ evs\<rparr>) \<and>
      Void Signal_term \<notin> set evs \<and> filter ends_watch evs = (if fd = - 1 then [] else [Void Close_dev])"
    using assms by (auto simp: wd_ticks_def wd_main_def print_error_def krun)
  then show thesis using that by blast
qed

text \<open>The interrupted run, from the run that is not interrupted.\<close>

lemma wd_run_from:
  assumes "run_state (wd_ticks E progname opts1 opts n) w = (s, w\<lparr>trace := trace w @ evs\<rparr>)"
  shows "run_state (wd_run E progname opts1 opts n k) w =
    (let w2 = w\<lparr>trace := trace w @ take k evs\<rparr> in
     if s \<noteq> None \<and> length evs \<le> k then (Exited (the s), w\<lparr>trace := trace w @ evs\<rparr>)
     else if Void Signal_term \<in> set (take k evs) then (Exited (result (term_handler E) w2), final_world (term_handler E) w2)
     else (Killed_by_SIGINT, w2))"
  using assms by (simp add: wd_run_def)

lemma term_handler_after:
  assumes "list_all (\<lambda>ev. \<not> ends_watch ev) evs"
  shows "\<exists>evs' v. trace (final_world (term_handler E) (w\<lparr>trace := trace w @ evs\<rparr>)) = trace w @ evs' \<and>
    filter ends_watch evs' = [RetI Write_v v, Void Close_dev] \<and>
    list_all (\<lambda>ev. \<not> is_ioctl ev) (dropWhile (\<lambda>ev. \<not> ends_watch ev) evs')"
proof -
  obtain e r where e: "trace (final_world (term_handler E) (w\<lparr>trace := trace w @ evs\<rparr>)) = trace w @ evs @ e"
    "filter ends_watch e = [RetI Write_v r, Void Close_dev]" "list_all (\<lambda>ev. \<not> is_ioctl ev) (dropWhile (\<lambda>ev. \<not> ends_watch ev) e)"
    using term_handler_closes [of E, unfolded closes_with_v_def, rule_format, of "w\<lparr>trace := trace w @ evs\<rparr>"] by auto
  have "filter ends_watch evs = []" "dropWhile (\<lambda>ev. \<not> ends_watch ev) (evs @ e) = dropWhile (\<lambda>ev. \<not> ends_watch ev) e"
    using assms by (auto simp: filter_empty_conv list_all_iff dropWhile_append2)
  then show ?thesis using e by (intro exI [of _ "evs @ e"] exI [of _ r]) simp
qed

text \<open>The three outcomes: the program has ended by itself, the handler has run, or the process was killed before the handler was there.\<close>

lemma wd_run_cases:
  assumes "run_state (wd_ticks E progname opts1 opts n) w = (s, w\<lparr>trace := trace w @ evs\<rparr>)"
    and "s \<noteq> None \<Longrightarrow> ok evs"
    and "Void Signal_term \<in> set evs \<Longrightarrow> \<exists>evs'. trace (final_world (term_handler E) (w\<lparr>trace := trace w @ take k evs\<rparr>)) = trace w @ evs' \<and> ok evs'"
  shows "\<exists>evs. trace (final_world (wd_run E progname opts1 opts n k) w) = trace w @ evs \<and>
    (if result (wd_run E progname opts1 opts n k) w = Killed_by_SIGINT then Void Signal_term \<notin> set evs else ok evs)"
proof -
  consider (ended) "s \<noteq> None" "length evs \<le> k" | (handled) "\<not> (s \<noteq> None \<and> length evs \<le> k)" "Void Signal_term \<in> set (take k evs)"
    | (killed) "\<not> (s \<noteq> None \<and> length evs \<le> k)" "Void Signal_term \<notin> set (take k evs)" by blast
  then show ?thesis
  proof cases
    case ended
    then show ?thesis using assms(2) by (simp add: final_world_def result_def wd_run_from [OF assms(1)] Let_def)
  next
    case handled
    then have "Void Signal_term \<in> set evs" using set_take_subset by fast
    then show ?thesis
      using assms(3) handled by (simp only: final_world_def result_def wd_run_from [OF assms(1)] Let_def if_False if_True fst_conv snd_conv wd_status.distinct)
  next
    case killed
    then show ?thesis by (auto simp: final_world_def result_def wd_run_from [OF assms(1)] Let_def)
  qed
qed

text \<open>
  C15. The watchdog program leaves a device it has recognised with the magic character, unless it is killed before it has installed its
  handler: however the driver answers, whatever the options are, and whenever the interrupt arrives, if the process is not killed it
  writes the character exactly once, then closes the device exactly once, and sends no command in between or afterwards. If it is killed,
  that was before \<^verbatim>\<open>signal(SIGINT, term)\<close>. A device that cannot be opened is not closed, and one that is not a watchdog is closed
  without the character (unless the process was killed before).
\<close>

theorem wd_magic_close:
  assumes "fd = ret_int E (trace w) (Open_dev (find_file opts1))"
    and "r = ret_int E (trace w @ [RetI (Open_dev (find_file opts1)) fd]) (Ioctl WDIOC_GETSUPPORT 0)"
  shows "\<exists>evs. trace (final_world (wd_run E progname opts1 opts n k) w) = trace w @ evs \<and>
    (if result (wd_run E progname opts1 opts n k) w = Killed_by_SIGINT then Void Signal_term \<notin> set evs
     else (fd = - 1 \<longrightarrow> filter ends_watch evs = []) \<and>
       (fd \<noteq> - 1 \<and> r \<noteq> 0 \<longrightarrow> filter ends_watch evs = [Void Close_dev]) \<and>
       (fd \<noteq> - 1 \<and> r = 0 \<longrightarrow> (\<exists>v. filter ends_watch evs = [RetI Write_v v, Void Close_dev]) \<and>
          list_all (\<lambda>ev. \<not> is_ioctl ev) (dropWhile (\<lambda>ev. \<not> ends_watch ev) evs)))"
proof -
  let ?ok = "\<lambda>evs. (fd = - 1 \<longrightarrow> filter ends_watch evs = []) \<and> (fd \<noteq> - 1 \<and> r \<noteq> 0 \<longrightarrow> filter ends_watch evs = [Void Close_dev]) \<and>
    (fd \<noteq> - 1 \<and> r = 0 \<longrightarrow> (\<exists>v. filter ends_watch evs = [RetI Write_v v, Void Close_dev]) \<and>
       list_all (\<lambda>ev. \<not> is_ioctl ev) (dropWhile (\<lambda>ev. \<not> ends_watch ev) evs))"
  note goal_from = wd_run_cases [of E progname opts1 opts n w _ _ ?ok k]
  show ?thesis
  proof (cases "fd = - 1 \<or> r \<noteq> 0")
    case True
    obtain s evs where e: "run_state (wd_ticks E progname opts1 opts n) w = (Some s, w\<lparr>trace := trace w @ evs\<rparr>)"
      "Void Signal_term \<notin> set evs" "filter ends_watch evs = (if fd = - 1 then [] else [Void Close_dev])"
      by (rule wd_ticks_not_recognised [of E w opts1 fd progname opts n]) (use assms True in auto)
    then have "?ok evs" using True by simp
    with e show ?thesis by (intro goal_from [OF e(1)]) simp_all
  next
    case False
    have rec: "ret_int E (trace w) (Open_dev (find_file opts1)) = fd" "fd \<noteq> - 1"
      "ret_int E (trace w @ [RetI (Open_dev (find_file opts1)) fd]) (Ioctl WDIOC_GETSUPPORT 0) = 0"
      using assms False by auto
    show ?thesis
    proof (rule wd_ticks_recognised [OF rec, of progname opts n])
      fix s pre evs v
      assume e: "run_state (wd_ticks E progname opts1 opts n) w = (Some s, w\<lparr>trace := trace w @ pre @ evs\<rparr>)"
        "list_all holds_watch pre" "Void Signal_term \<notin> set evs" "filter ends_watch evs = [RetI Write_v v, Void Close_dev]"
        "list_all (\<lambda>ev. \<not> is_ioctl ev) (dropWhile (\<lambda>ev. \<not> ends_watch ev) evs)"
      have n: "Void Signal_term \<notin> set (pre @ evs)" "filter ends_watch pre = []"
        "dropWhile (\<lambda>ev. \<not> ends_watch ev) (pre @ evs) = dropWhile (\<lambda>ev. \<not> ends_watch ev) evs"
        using e(2,3) by (auto simp: list_all_iff holds_watch_def filter_empty_conv dropWhile_append2)
      then have "?ok (pre @ evs)" using False e(4,5) by simp
      with n(1) show ?thesis by (intro goal_from [OF e(1)]) simp_all
    next
      fix evs
      assume e: "run_state (wd_ticks E progname opts1 opts n) w = (None, w\<lparr>trace := trace w @ evs\<rparr>)" "list_all (\<lambda>ev. \<not> ends_watch ev) evs"
      have "\<exists>evs'. trace (final_world (term_handler E) (w\<lparr>trace := trace w @ take k evs\<rparr>)) = trace w @ evs' \<and> ?ok evs'"
        using term_handler_after [of "take k evs" E w] e(2) False by (auto simp: list_all_iff dest: in_set_takeD)
      then show ?thesis by (intro goal_from [OF e(1)]) simp_all
    qed
  qed
qed

definition wd_env :: "wcall kenv" where
  "wd_env = \<lparr>ret_int = (\<lambda>tr c. if c = Write_v then 1 else 0), ret_ptr = (\<lambda>tr c. Null)\<rparr>"

lemmas wd_eval = wd_run_def wd_ticks_def wd_main_def opt_step_def set_card_def set_value_def keep_alive_def term_handler_def find_file_def
  wd_env_def krun result_def final_world_def eval_nat_numeral Let_def case_prod_beta

theorem wd_magic_close_witness:
  "\<exists>evs v. trace (final_world (wd_run wd_env ''watchdog'' [] [(CHR ''e'', [])] 3 7) \<lparr>trace = []\<rparr>) = evs \<and>
     filter ends_watch evs = [RetI Write_v v, Void Close_dev]"
proof -
  have "result (wd_run wd_env ''watchdog'' [] [(CHR ''e'', [])] 3 7) \<lparr>trace = []\<rparr> = Exited 0" by (simp add: wd_eval)
  then show ?thesis
    using wd_magic_close [of 0 wd_env "\<lparr>trace = []\<rparr>" "[]" 0 "''watchdog''" "[(CHR ''e'', [])]" 3 7]
    by (auto simp: wd_env_def)
qed

text \<open>An interrupt in the option handling: the card is enabled, and the process dies without the character.\<close>

lemma wd_killed_enabled:
  "run_state (wd_run wd_env ''watchdog'' [] [(CHR ''e'', [])] 3 3) \<lparr>trace = []\<rparr> =
     (Killed_by_SIGINT, \<lparr>trace = [RetI (Open_dev ''/dev/watchdog'') 0, RetI (Ioctl WDIOC_GETSUPPORT 0) 0,
       RetI (Ioctl WDIOC_SETOPTIONS WDIOS_ENABLECARD) 0]\<rparr>)"
  by (simp add: wd_eval)

section \<open>Which options make it tick\<close>

text \<open>The ping rate the options ask for.\<close>

definition rate_of :: "string \<Rightarrow> u32" where
  "rate_of optarg = (let p = to_uint (strtoul optarg) in if p = 0 then DEFAULT_PING_RATE else p)"

lemma rate_of_ne: "rate_of optarg \<noteq> 0"
  by (simp add: rate_of_def Let_def DEFAULT_PING_RATE_def)

lemma rate_of_dec:
  assumes "0 < n" and "n < 2 ^ 32"
  shows "rate_of (nat_dec n) = of_nat n"
proof -
  have "to_uint (strtoul (nat_dec n)) = of_nat n"
    using strtoul_dec [of n] assms by (simp add: to_uint_def unsigned_of_nat take_bit_nat_eq_self)
  moreover have "(of_nat n :: u32) \<noteq> 0"
    using assms by (simp add: word_of_nat_eq_0_iff nat_dvd_not_less)
  ultimately show ?thesis by (simp add: rate_of_def Let_def)
qed

definition ping_rate :: "(char \<times> string) list \<Rightarrow> u32 \<Rightarrow> u32" where
  "ping_rate opts p = fold (\<lambda>(c, optarg) p. if c = CHR ''p'' then rate_of optarg else p) opts p"

definition ticking_option :: "char \<Rightarrow> bool" where
  "ticking_option c \<longleftrightarrow> c \<in> set ''deptnf''"

definition commands_succeed :: "wcall kenv \<Rightarrow> bool" where
  "commands_succeed E \<longleftrightarrow> (\<forall>tr cmd a. ret_int E tr (Ioctl cmd a) = 0)"

lemma opt_step_result:
  assumes "commands_succeed E"
  shows "let r = result (opt_step E progname (c, optarg) (p, o1)) w in
    (ticking_option c \<longrightarrow> r = (False, if c = CHR ''p'' then rate_of optarg else p, o1)) \<and>
    (\<not> ticking_option c \<longrightarrow> fst r \<or> snd (snd r))"
  using assms
  by (auto simp: opt_step_def query_def set_value_def set_card_def result_def krun commands_succeed_def ticking_option_def
      rate_of_def Let_def case_prod_beta)

lemma opt_loop_stays:
  assumes "commands_succeed E"
  shows "let r = result (opt_loop E progname opts (p, True)) w in fst r \<or> snd (snd r)"
proof (induction opts arbitrary: p w)
  case (Cons opt opts)
  obtain r w1 where s: "run_state (opt_step E progname opt (p, True)) w = (r, w1)" by fastforce
  then have "fst r \<or> snd (snd r)"
    using opt_step_result [OF assms, of progname "fst opt" "snd opt" p True w]
    by (cases "ticking_option (fst opt)") (auto simp: result_def Let_def)
  then show ?case
    using Cons.IH [of "fst (snd r)" w1] s by (cases r) (auto simp: result_def Let_def)
qed (simp add: result_def)

lemma opt_loop_result:
  assumes "commands_succeed E"
  shows "let r = result (opt_loop E progname opts (p, False)) w in
    (list_all (ticking_option \<circ> fst) opts \<longrightarrow> r = (False, ping_rate opts p, False)) \<and>
    (\<not> list_all (ticking_option \<circ> fst) opts \<longrightarrow> fst r \<or> snd (snd r))"
proof (induction opts arbitrary: p w)
  case (Cons opt opts)
  obtain s q o1 w1 where s: "run_state (opt_step E progname opt (p, False)) w = ((s, q, o1), w1)" by (metis surj_pair)
  note st = opt_step_result [OF assms, of progname "fst opt" "snd opt" p False w]
  show ?case
  proof (cases "ticking_option (fst opt)")
    case True
    then show ?thesis
      using st s Cons.IH [of q w1] by (auto simp: result_def Let_def ping_rate_def case_prod_beta)
  next
    case False
    then have "s \<or> o1" using st s by (auto simp: result_def Let_def)
    then show ?thesis
      using False s opt_loop_stays [OF assms, of progname opts q w1] by (cases o1) (auto simp: result_def Let_def)
  qed
qed (simp add: result_def ping_rate_def)

text \<open>
  On a watchdog that accepts its commands the program ticks exactly when every option is one of \<^verbatim>\<open>d\<close>, \<^verbatim>\<open>e\<close>, \<^verbatim>\<open>p\<close>,
  \<^verbatim>\<open>t\<close>, \<^verbatim>\<open>n\<close> and \<^verbatim>\<open>f\<close>; any option that asks for something, and any unknown one, makes it end with status 0. It
  ticks at the rate of the last \<^verbatim>\<open>p\<close>, which is never 0, and a decimal number is taken at its value.
\<close>

lemma wd_main_result:
  assumes "commands_succeed E" and "ret_int E (trace w) (Open_dev (find_file opts1)) \<noteq> - 1"
  shows "result (wd_main E progname opts1 opts) w =
      (if list_all (ticking_option \<circ> fst) opts then Ticking (ping_rate opts DEFAULT_PING_RATE) else Exit 0)"
proof -
  let ?w = "w\<lparr>trace := trace w @ [RetI (Open_dev (find_file opts1)) (ret_int E (trace w) (Open_dev (find_file opts1))),
    RetI (Ioctl WDIOC_GETSUPPORT 0) 0]\<rparr>"
  obtain s q o1 w1 where s: "run_state (opt_loop E progname opts (DEFAULT_PING_RATE, False)) ?w = ((s, q, o1), w1)"
    by (metis surj_pair)
  have l: "list_all (ticking_option \<circ> fst) opts \<Longrightarrow> (s, q, o1) = (False, ping_rate opts DEFAULT_PING_RATE, False)"
    "\<not> list_all (ticking_option \<circ> fst) opts \<Longrightarrow> s \<or> o1"
    using opt_loop_result [OF assms(1), of progname opts DEFAULT_PING_RATE ?w] unfolding result_def s Let_def by simp_all
  have "result (wd_main E progname opts1 opts) w = (if s \<or> o1 then Exit 0 else Ticking q)"
    using assms s by (simp add: wd_main_def result_def krun commands_succeed_def case_prod_beta)
  then show ?thesis
    using l by (cases "list_all (ticking_option \<circ> fst) opts") simp_all
qed

lemma ping_rate_ne: "p \<noteq> 0 \<Longrightarrow> ping_rate opts p \<noteq> 0"
  using rate_of_ne by (induction opts arbitrary: p) (simp_all add: ping_rate_def case_prod_beta)

lemma ping_rate_last: "0 < n \<Longrightarrow> n < 2 ^ 32 \<Longrightarrow> ping_rate (opts @ [(CHR ''p'', nat_dec n)]) p = of_nat n"
  by (simp add: ping_rate_def rate_of_dec)

end
