(* ===== verification/Watchdog_Options.thy ===== *)
theory Watchdog_Options
  imports Watchdog_Tool "HOL-Library.Sublist"
begin

text \<open>
  The command line of the watchdog program \<^verbatim>\<open>Watchdog/watchdog.c\<close>: its two option tables and the scan
  \<^verbatim>\<open>getopt_long\<close> of the C library makes of the argument vector with them. The scan moves the operands
  behind the options while it goes, and the program scans the vector twice: once for the name of the
  device, and again, after \<^verbatim>\<open>optind = 0\<close>, for everything else. A specification of command lines
  (\<open>cmdline\<close>) says which options a vector spells; the scan finds exactly those, both times. The environment variable
  \<^verbatim>\<open>POSIXLY_CORRECT\<close>, with which the scan would stop at the first operand, is taken to be unset.
\<close>

section \<open>The option tables\<close>

datatype has_arg = No_argument | Required_argument

definition sopts :: string where
  "sopts = ''bdehp:t:Tn:NLf:i''"

definition lopts :: "(string \<times> has_arg \<times> char) list" where
  "lopts =
     [(''bootstatus'', No_argument, CHR ''b''),
      (''disable'', No_argument, CHR ''d''),
      (''enable'', No_argument, CHR ''e''),
      (''help'', No_argument, CHR ''h''),
      (''pingrate'', Required_argument, CHR ''p''),
      (''timeout'', Required_argument, CHR ''t''),
      (''gettimeout'', No_argument, CHR ''T''),
      (''pretimeout'', Required_argument, CHR ''n''),
      (''getpretimeout'', No_argument, CHR ''N''),
      (''gettimeleft'', No_argument, CHR ''L''),
      (''file'', Required_argument, CHR ''f''),
      (''info'', No_argument, CHR ''i'')]"

section \<open>\<^verbatim>\<open>getopt_long\<close>\<close>

text \<open>A letter of the short table, and whether a colon follows it.\<close>

fun short_arg :: "string \<Rightarrow> char \<Rightarrow> has_arg option" where
  "short_arg [] c = None"
| "short_arg (x # xs) c =
     (if x = c \<and> c \<noteq> CHR '':'' \<and> c \<noteq> CHR '';''
      then Some (if xs \<noteq> [] \<and> hd xs = CHR '':'' then Required_argument else No_argument)
      else short_arg xs c)"

text \<open>A long name: one that is in the table, or the beginning of exactly one that is.\<close>

definition long_option :: "string \<Rightarrow> (has_arg \<times> char) option" where
  "long_option name =
     (case map_of lopts name of
        Some v \<Rightarrow> Some v
      | None \<Rightarrow> (case filter (\<lambda>p. prefix name (fst p)) lopts of [p] \<Rightarrow> Some (snd p) | _ \<Rightarrow> None))"

text \<open>
  What one element of the vector gives: the options in it, how many of the elements behind it were taken as
  arguments, and the option that found no element left to take.
\<close>

type_synonym found = "(char \<times> string) list \<times> nat \<times> char option"

definition take_arg :: "char \<Rightarrow> string list \<Rightarrow> found" where
  "take_arg c rest = (case rest of [] \<Rightarrow> ([(CHR ''?'', [])], 0, Some c) | a # _ \<Rightarrow> ([(c, a)], 1, None))"

fun cluster :: "string \<Rightarrow> string list \<Rightarrow> found" where
  "cluster [] rest = ([], 0, None)"
| "cluster (c # cs) rest =
     (case short_arg sopts c of
        Some Required_argument \<Rightarrow> if cs \<noteq> [] then ([(c, cs)], 0, None) else take_arg c rest
      | Some No_argument \<Rightarrow> apfst (Cons (c, [])) (cluster cs rest)
      | None \<Rightarrow> apfst (Cons (CHR ''?'', [])) (cluster cs rest))"

definition long_element :: "string \<Rightarrow> string list \<Rightarrow> found" where
  "long_element body rest =
     (let name = takeWhile (\<lambda>c. c \<noteq> CHR ''='') body; value = dropWhile (\<lambda>c. c \<noteq> CHR ''='') body in
      case long_option name of
        None \<Rightarrow> ([(CHR ''?'', [])], 0, None)
      | Some (No_argument, c) \<Rightarrow> ([if value = [] then (c, []) else (CHR ''?'', [])], 0, None)
      | Some (Required_argument, c) \<Rightarrow> if value \<noteq> [] then ([(c, tl value)], 0, None) else take_arg c rest)"

definition is_option :: "string \<Rightarrow> bool" where
  "is_option a \<longleftrightarrow> 2 \<le> length a \<and> hd a = CHR ''-''"

definition element :: "string \<Rightarrow> string list \<Rightarrow> found" where
  "element a rest = (if a ! 1 = CHR ''-'' then long_element (drop 2 a) rest else cluster (drop 1 a) rest)"

text \<open>
  A scan of the whole vector: what the calls return one after the other, the vector it leaves behind (in front the
  options with their arguments, then the operands), and how it ended: at the terminator, at the end of the
  vector, or at an option that has no argument left.
\<close>

datatype scan_end = Terminated | Ran_out | Starved char

function scan :: "string list \<Rightarrow> (char \<times> string) list \<times> string list \<times> string list \<times> scan_end" where
  "scan [] = ([], [], [], Ran_out)"
| "scan (a # rest) =
     (if a = ''--'' then ([], [a], rest, Terminated)
      else if is_option a then
        (case element a rest of
           (os, n, Some c) \<Rightarrow> (os, [a], rest, Starved c)
         | (os, n, None) \<Rightarrow>
             (case scan (drop n rest) of (os', front, operands, e) \<Rightarrow> (os @ os', a # take n rest @ front, operands, e)))
      else (case scan rest of (os, front, operands, e) \<Rightarrow> (os, front, a # operands, e)))"
  by pat_completeness auto
termination by (relation "measure length") auto

definition getopt_all :: "string list \<Rightarrow> (char \<times> string) list" where
  "getopt_all argv = fst (scan argv)"

definition permuted :: "string list \<Rightarrow> string list" where
  "permuted argv = (case scan argv of (os, front, operands, e) \<Rightarrow> front @ operands)"

text \<open>The program with its arguments: the first scan sees the vector as it was given, the second what the first has made of it.\<close>

definition watchdog :: "wcall kenv \<Rightarrow> string \<Rightarrow> string list \<Rightarrow> nat \<Rightarrow> nat \<Rightarrow> (wd_world, wd_status) state" where
  "watchdog E progname argv n k = wd_run E progname (getopt_all argv) (getopt_all (permuted argv)) n k"

section \<open>The tables\<close>

text \<open>The two tables agree on every option, and the help text lists it with both its names.\<close>

lemma lopts_short:
  assumes "(name, h, c) \<in> set lopts"
  shows "short_arg sopts c = Some h" and "c \<noteq> CHR ''-''" and "c \<noteq> CHR ''?''"
proof -
  have "list_all (\<lambda>(name, h, c). short_arg sopts c = Some h \<and> c \<noteq> CHR ''-'' \<and> c \<noteq> CHR ''?'') lopts" by code_simp
  then show "short_arg sopts c = Some h" and "c \<noteq> CHR ''-''" and "c \<noteq> CHR ''?''"
    using assms by (auto simp: list_all_iff)
qed

lemma short_arg_mem: "short_arg xs c = Some h \<Longrightarrow> c \<in> set xs"
  by (induction xs) (auto split: if_splits)

lemma lopts_complete:
  assumes "short_arg sopts c = Some h"
  shows "\<exists>name. (name, h, c) \<in> set lopts"
proof -
  have "list_all (\<lambda>c. case short_arg sopts c of None \<Rightarrow> True
      | Some h \<Rightarrow> list_ex (\<lambda>p. snd p = (h, c)) lopts) sopts" by code_simp
  then have "case short_arg sopts c of None \<Rightarrow> True | Some h \<Rightarrow> list_ex (\<lambda>p. snd p = (h, c)) lopts"
    using short_arg_mem [OF assms] unfolding list_all_iff by (rule bspec)
  then have "list_ex (\<lambda>p. snd p = (h, c)) lopts" unfolding assms by simp
  then show ?thesis unfolding list_ex_iff by (auto simp del: prod.collapse)
qed

lemma lopts_documented:
  assumes "(name, h, c) \<in> set lopts"
  shows "\<exists>l \<in> set (usage_lines progname). prefix ('' -'' @ [c] @ '', --'' @ name) (fst l)"
proof -
  have "list_all (\<lambda>(name, h, c). list_ex (\<lambda>l. prefix ('' -'' @ [c] @ '', --'' @ name) (fst l))
      (take 13 (tl (usage_lines [])))) lopts" by code_simp
  moreover have "set (take 13 (tl (usage_lines []))) \<subseteq> set (usage_lines progname)"
    by (simp add: usage_lines_def)
  ultimately show ?thesis using assms unfolding list_all_iff list_ex_iff by fastforce
qed

lemma lopts_names: "distinct (map fst lopts)"
  by code_simp

lemma long_option_table:
  assumes "long_option name = Some (h, c)"
  shows "\<exists>n. (n, h, c) \<in> set lopts"
proof (cases "map_of lopts name")
  case None
  then obtain p where "filter (\<lambda>p. prefix name (fst p)) lopts = [p]" "snd p = (h, c)"
    using assms by (auto simp: long_option_def split: list.splits)
  then have "p \<in> set lopts" by (metis filter_is_subset list.set_intros(1) subsetD)
  then show ?thesis using \<open>snd p = (h, c)\<close> by (metis prod.collapse)
next
  case (Some v)
  then show ?thesis using assms map_of_SomeD [OF Some] by (auto simp: long_option_def)
qed

lemma long_option_Nil [simp]: "long_option [] = None"
  by code_simp

lemma long_option_name: "(name, h, c) \<in> set lopts \<Longrightarrow> long_option name = Some (h, c)"
  using lopts_names by (simp add: long_option_def)

section \<open>Command lines\<close>

text \<open>
  The ways to write an option: its letter or an abbreviation of its name that is not ambiguous; an argument
  behind a letter, behind an equals sign, or as an element of its own.
\<close>

definition spells_name :: "has_arg \<Rightarrow> char \<Rightarrow> string \<Rightarrow> bool" where
  "spells_name h c name \<longleftrightarrow> long_option name = Some (h, c) \<and> CHR ''='' \<notin> set name"

inductive spells :: "char \<times> string \<Rightarrow> string list \<Rightarrow> bool" where
  short_flag: "short_arg sopts c = Some No_argument \<Longrightarrow> spells (c, []) [[CHR ''-'', c]]"
| long_flag: "spells_name No_argument c name \<Longrightarrow> spells (c, []) [''--'' @ name]"
| short_joined: "short_arg sopts c = Some Required_argument \<Longrightarrow> arg \<noteq> [] \<Longrightarrow> spells (c, arg) [[CHR ''-'', c] @ arg]"
| short_apart: "short_arg sopts c = Some Required_argument \<Longrightarrow> spells (c, arg) [[CHR ''-'', c], arg]"
| long_joined: "spells_name Required_argument c name \<Longrightarrow> spells (c, arg) [''--'' @ name @ ''='' @ arg]"
| long_apart: "spells_name Required_argument c name \<Longrightarrow> spells (c, arg) [''--'' @ name, arg]"

text \<open>
  A command line: options in any order with operands between them; everything behind \<^verbatim>\<open>--\<close> is an operand.
\<close>

inductive cmdline :: "(char \<times> string) list \<Rightarrow> string list \<Rightarrow> bool" where
  nothing: "cmdline [] []"
| terminator: "cmdline [] (''--'' # operands)"
| operand: "\<not> is_option a \<Longrightarrow> cmdline os argv \<Longrightarrow> cmdline os (a # argv)"
| option: "spells opt ws \<Longrightarrow> cmdline os argv \<Longrightarrow> cmdline (opt # os) (ws @ argv)"

lemma element_long:
  assumes "spells_name h c name"
  shows "is_option (''--'' @ name @ v)" "''--'' @ name @ v \<noteq> ''--''"
    "v = [] \<or> hd v = CHR ''='' \<Longrightarrow> element (''--'' @ name @ v) rest =
       (case h of No_argument \<Rightarrow> ([if v = [] then (c, []) else (CHR ''?'', [])], 0, None)
        | Required_argument \<Rightarrow> if v \<noteq> [] then ([(c, tl v)], 0, None) else take_arg c rest)"
proof -
  have n: "name \<noteq> []" using assms by (auto simp: spells_name_def)
  then show "is_option (''--'' @ name @ v)" "''--'' @ name @ v \<noteq> ''--''" by (auto simp: is_option_def)
  assume v: "v = [] \<or> hd v = CHR ''=''"
  have "takeWhile (\<lambda>c. c \<noteq> CHR ''='') (name @ v) = name" "dropWhile (\<lambda>c. c \<noteq> CHR ''='') (name @ v) = v"
    using assms v by (auto simp: spells_name_def takeWhile_append dropWhile_append takeWhile_eq_Nil_iff dropWhile_eq_self_iff
        dropWhile_eq_Nil_conv)
  then show "element (''--'' @ name @ v) rest =
       (case h of No_argument \<Rightarrow> ([if v = [] then (c, []) else (CHR ''?'', [])], 0, None)
        | Required_argument \<Rightarrow> if v \<noteq> [] then ([(c, tl v)], 0, None) else take_arg c rest)"
    using assms by (simp add: element_def long_element_def spells_name_def split: has_arg.splits)
qed

lemma element_short:
  assumes "short_arg sopts c = Some h"
  shows "is_option ([CHR ''-'', c] @ v)" "[CHR ''-'', c] @ v \<noteq> ''--''"
    "element ([CHR ''-'', c] @ v) rest =
       (case h of No_argument \<Rightarrow> apfst (Cons (c, [])) (cluster v rest)
        | Required_argument \<Rightarrow> if v \<noteq> [] then ([(c, v)], 0, None) else take_arg c rest)"
proof -
  obtain name where "(name, h, c) \<in> set lopts" using lopts_complete [OF assms] by blast
  then have "c \<noteq> CHR ''-''" by (rule lopts_short)
  then show "is_option ([CHR ''-'', c] @ v)" "[CHR ''-'', c] @ v \<noteq> ''--''"
    "element ([CHR ''-'', c] @ v) rest =
       (case h of No_argument \<Rightarrow> apfst (Cons (c, [])) (cluster v rest)
        | Required_argument \<Rightarrow> if v \<noteq> [] then ([(c, v)], 0, None) else take_arg c rest)"
    using assms by (simp_all add: is_option_def element_def split: has_arg.splits)
qed

lemma scan_spelled:
  assumes "spells opt ws" and "scan argv = (os, front, operands, e)"
  shows "scan (ws @ argv) = (opt # os, ws @ front, operands, e)"
  using assms(1)
proof cases
  case (short_flag c)
  then show ?thesis using element_short [of c No_argument "[]"] assms(2) by simp
next
  case (long_flag c name)
  then show ?thesis using element_long [of No_argument c name "[]"] assms(2) by simp
next
  case (short_joined c arg)
  then show ?thesis using element_short [of c Required_argument arg] assms(2) by simp
next
  case (short_apart c arg)
  then show ?thesis using element_short [of c Required_argument "[]"] assms(2) by (simp add: take_arg_def)
next
  case (long_joined c name arg)
  then show ?thesis using element_long [of Required_argument c name "''='' @ arg"] assms(2) by simp
next
  case (long_apart c name arg)
  then show ?thesis using element_long [of Required_argument c name "[]"] assms(2) by (simp add: take_arg_def)
qed

lemma not_option_dashes: "is_option ''--''"
  by (simp add: is_option_def)

lemma scan_cmdline:
  "cmdline os argv \<Longrightarrow> \<exists>front operands e. scan argv = (os, front, operands, e) \<and> (e = Terminated \<or> e = Ran_out)"
proof (induction rule: cmdline.induct)
  case (operand a os argv)
  then show ?case using not_option_dashes by auto
next
  case (option opt ws os argv)
  then show ?case using scan_spelled by blast
qed auto

section \<open>The second scan\<close>

text \<open>An element looks at what follows it only for the argument of its last option.\<close>

lemma take_arg_rest: "\<exists>os d. \<forall>rest. take_arg c rest = apfst (append os) (take_arg d rest)"
  by (intro exI [of _ "[]"] exI [of _ c]) (simp add: apfst_def map_prod_def)

lemma cluster_rest:
  "(\<exists>os. \<forall>rest. cluster cs rest = (os, 0, None)) \<or>
   (\<exists>os c. \<forall>rest. cluster cs rest = apfst (append os) (take_arg c rest))"
proof (induction cs)
  case (Cons c cs)
  have pre: "(\<exists>os. \<forall>rest. apfst (Cons x) (cluster cs rest) = (os, 0, None)) \<or>
      (\<exists>os d. \<forall>rest. apfst (Cons x) (cluster cs rest) = apfst (append os) (take_arg d rest))" for x
    using Cons.IH
  proof
    assume "\<exists>os d. \<forall>rest. cluster cs rest = apfst (append os) (take_arg d rest)"
    then obtain os d where "\<forall>rest. cluster cs rest = apfst (append os) (take_arg d rest)" by blast
    then have "\<forall>rest. apfst (Cons x) (cluster cs rest) = apfst (append (x # os)) (take_arg d rest)"
      by (simp add: apfst_compose comp_def)
    then show ?thesis by blast
  qed force
  show ?case
    using take_arg_rest [of c] pre [of "(c, [])"] pre [of "(CHR ''?'', [])"]
    by (cases "short_arg sopts c"; cases "the (short_arg sopts c)"; cases "cs = []") auto
qed simp

lemma long_element_rest:
  "(\<exists>os. \<forall>rest. long_element body rest = (os, 0, None)) \<or>
   (\<exists>os c. \<forall>rest. long_element body rest = apfst (append os) (take_arg c rest))"
proof (cases "long_option (takeWhile (\<lambda>c. c \<noteq> CHR ''='') body)")
  case (Some v)
  obtain h c where "v = (h, c)" by (cases v)
  then show ?thesis
    using Some take_arg_rest [of c]
    by (cases h; cases "dropWhile (\<lambda>c. c \<noteq> CHR ''='') body = []") (simp_all add: long_element_def)
qed (simp add: long_element_def)

lemma element_rest:
  obtains os where "\<And>rest. element a rest = (os, 0, None)"
  | os c where "\<And>rest. element a rest = apfst (append os) (take_arg c rest)"
  using cluster_rest [of "drop 1 a"] long_element_rest [of "drop 2 a"] unfolding element_def by (cases "a ! 1 = CHR ''-''") auto

lemma scan_operands: "list_all (\<lambda>a. \<not> is_option a) ys \<Longrightarrow> scan ys = ([], [], ys, Ran_out)"
  using not_option_dashes by (induction ys) auto

text \<open>What a scan of the vector an earlier scan left behind finds, with any operands \<open>ys\<close> behind the options.\<close>

definition rescans :: "string list \<Rightarrow> bool" where
  "rescans argv =
     (case scan argv of (os, front, operands, e) \<Rightarrow>
        (case e of
           Terminated \<Rightarrow> (\<forall>ys. scan (front @ ys) = (os, front, ys, Terminated))
         | Ran_out \<Rightarrow> list_all (\<lambda>a. \<not> is_option a) operands \<and>
             (\<forall>ys. list_all (\<lambda>a. \<not> is_option a) ys \<longrightarrow> scan (front @ ys) = (os, front, ys, Ran_out))
         | Starved c \<Rightarrow> list_all (\<lambda>a. \<not> is_option a) operands \<and> os \<noteq> [] \<and> fst (last os) = CHR ''?'' \<and>
             scan front = (os, front, [], Starved c) \<and>
             (\<forall>y ys. list_all (\<lambda>a. \<not> is_option a) ys \<longrightarrow>
                scan (front @ y # ys) = (butlast os @ [(c, y)], front @ [y], ys, Ran_out))))"

lemma rescans_option:
  assumes "a \<noteq> ''--''" "is_option a" "rescans argv" "length ws \<le> 1"
    and "\<And>rest. element a (ws @ rest) = (os, length ws, None)"
  shows "rescans (a # ws @ argv)"
proof -
  have s: "scan (a # ws @ rest) = (case scan rest of (os', front, operands, e) \<Rightarrow> (os @ os', a # ws @ front, operands, e))" for rest
    using assms by (simp add: case_prod_beta)
  show ?thesis
    using assms(3) unfolding rescans_def s
    by (cases "scan argv") (auto simp: s butlast_append simp del: scan.simps split: scan_end.splits)
qed

lemma rescans_all: "rescans argv"
proof (induction argv rule: measure_induct_rule [where f=length])
  case (less argv)
  show ?case
  proof (cases argv)
    case (Cons a rest)
    then have IH: "rescans rest" using less by simp
    consider "a = ''--''" | "\<not> is_option a" | "a \<noteq> ''--''" "is_option a" by blast
    then show ?thesis
    proof cases
      case 2
      then have "a \<noteq> ''--''" using not_option_dashes by auto
      then show ?thesis using 2 IH Cons by (cases "scan rest") (auto simp: rescans_def split: scan_end.splits)
    next
      case 3
      show ?thesis
      proof (cases a rule: element_rest)
        case (1 os)
        then show ?thesis using rescans_option [of a rest "[]" os] 3 IH Cons by simp
      next
        case (2 os c)
        show ?thesis
        proof (cases rest)
          case Nil
          then show ?thesis using 2 3 Cons by (auto simp: rescans_def take_arg_def scan_operands)
        next
          case (Cons x r)
          have "rescans r" using less Cons \<open>argv = a # rest\<close> by simp
          then show ?thesis
            using rescans_option [of a r "[x]" "os @ [(c, x)]"] 2 3 Cons \<open>argv = a # rest\<close> by (simp add: take_arg_def)
        qed
      qed
    qed (simp add: rescans_def Cons)
  qed (simp add: rescans_def scan_operands)
qed

text \<open>
  The second scan of the arguments, which has to do with the vector the first one has rearranged, finds the same options as
  the first, with one exception: when the last option lacks its argument and there are operands, the first scan reports
  an error, and the second takes the first operand for the argument and acts on it.
\<close>

theorem wd_rescan:
  "watchdog E progname argv n k =
     wd_run E progname (getopt_all argv)
       (case scan argv of
          (os, front, y # operands, Starved c) \<Rightarrow> butlast os @ [(c, y)]
        | (os, _) \<Rightarrow> os) n k"
proof -
  obtain os front operands e where s: "scan argv = (os, front, operands, e)" by (metis surj_pair)
  then show ?thesis
    using rescans_all [of argv]
    by (auto simp: watchdog_def getopt_all_def permuted_def rescans_def split: scan_end.splits list.splits)
qed

text \<open>
  C16. The program obeys its command line: whatever the order and the spelling of the options, abbreviated or not, with the
  operands anywhere between them, both scans find the options the command line spells. So the run is that of the option list,
  and on a watchdog that accepts its commands the program starts to tick exactly when no option asks for anything else, at
  the rate of the last \<^verbatim>\<open>p\<close>, which is never 0.
\<close>

theorem wd_command_line:
  assumes "cmdline os argv"
  shows "getopt_all argv = os \<and> getopt_all (permuted argv) = os \<and>
    watchdog E progname argv n k = wd_run E progname os os n k \<and>
    (commands_succeed E \<and> ret_int E (trace w) (Open_dev (find_file os)) \<noteq> - 1 \<longrightarrow>
      result (wd_main E progname (getopt_all argv) (getopt_all (permuted argv))) w =
        (if list_all (ticking_option \<circ> fst) os then Ticking (ping_rate os DEFAULT_PING_RATE) else Exit 0)) \<and>
    ping_rate os DEFAULT_PING_RATE \<noteq> 0"
proof -
  obtain front operands e where s: "scan argv = (os, front, operands, e)" and e: "e = Terminated \<or> e = Ran_out"
    using scan_cmdline [OF assms] by blast
  have g: "getopt_all argv = os" using s by (simp add: getopt_all_def)
  have p: "getopt_all (permuted argv) = os"
    using s e rescans_all [of argv] by (auto simp: getopt_all_def permuted_def rescans_def)
  have "ping_rate os DEFAULT_PING_RATE \<noteq> 0" by (rule ping_rate_ne) (simp add: DEFAULT_PING_RATE_def)
  then show ?thesis using wd_main_result by (simp add: watchdog_def g p)
qed

lemma example_cmdline:
  "cmdline [(CHR ''d'', []), (CHR ''p'', ''5''), (CHR ''f'', ''/dev/wd1'')]
     [''--dis'', ''x'', ''-p'', ''5'', ''--file=/dev/wd1'', ''--'', ''-T'']"
proof -
  have "spells_name No_argument (CHR ''d'') ''dis''" by (simp add: spells_name_def) code_simp
  from long_flag [OF this] have d: "spells (CHR ''d'', []) [''--dis'']" by simp
  have p: "spells (CHR ''p'', ''5'') [''-p'', ''5'']"
    by (rule short_apart) (simp add: sopts_def)
  have "spells_name Required_argument (CHR ''f'') ''file''" by (simp add: spells_name_def) code_simp
  from long_joined [OF this, of "''/dev/wd1''"] have f: "spells (CHR ''f'', ''/dev/wd1'') [''--file=/dev/wd1'']" by simp
  show ?thesis
    using cmdline.option [OF d, OF cmdline.operand [of "''x''"], OF _ cmdline.option [OF p], OF _ cmdline.option [OF f],
        OF _ cmdline.terminator [of "[''-T'']"]]
    by (simp add: is_option_def)
qed

theorem wd_command_line_witness:
  "getopt_all (permuted [''--dis'', ''x'', ''-p'', ''5'', ''--file=/dev/wd1'', ''--'', ''-T'']) =
     [(CHR ''d'', []), (CHR ''p'', ''5''), (CHR ''f'', ''/dev/wd1'')] \<and>
   ping_rate [(CHR ''d'', []), (CHR ''p'', ''5''), (CHR ''f'', ''/dev/wd1'')] DEFAULT_PING_RATE \<noteq> 0"
  using wd_command_line [OF example_cmdline] by blast

text \<open>The argument that is missing in the first scan and the operand the second scan takes for it.\<close>

lemma wd_operand_taken:
  "getopt_all [''x'', ''-e'', ''-p''] = [(CHR ''e'', []), (CHR ''?'', [])] \<and>
   getopt_all (permuted [''x'', ''-e'', ''-p'']) = [(CHR ''e'', []), (CHR ''p'', ''x'')]"
  by code_simp

end
