(* ===== verification/Socket_Chat.thy ===== *)
theory Socket_Chat
  imports Kernel_Prelude "HOL-Library.Sublist"
begin

text \<open>
  The chat programs \<^verbatim>\<open>SocketTCP/tcpserv1.c\<close> and \<^verbatim>\<open>SocketTCP/tcpclient1.c\<close>, connected by two byte streams and
  interleaved call by call, and the datagram pair \<^verbatim>\<open>SocketUDP/udpserv1.c\<close> and
  \<^verbatim>\<open>SocketUDP/udpclient1.c\<close>. How many bytes a \<^verbatim>\<open>read\<close> delivers is an argument of the step.
\<close>

section \<open>The line buffer\<close>

definition CHAT_MAX :: nat where "CHAT_MAX = 80"

text \<open>
  \<^verbatim>\<open>while ((buff[n++] = getchar()) != '\n');\<close>: the buffer with the line and the rest of the
  keyboard input. \<open>None\<close> is a store outside the buffer, which is also what happens at the end of the
  input, where \<^verbatim>\<open>getchar\<close> answers \<^verbatim>\<open>EOF\<close> for ever.
\<close>

fun getchar_loop :: "nat \<Rightarrow> byte list \<Rightarrow> byte list \<Rightarrow> (byte list \<times> byte list) option" where
  "getchar_loop n buff [] = None"
| "getchar_loop n buff (c # cs) =
     (if length buff \<le> n then None
      else if c = 10 then Some (buff[n := c], cs) else getchar_loop (Suc n) (buff[n := c]) cs)"

text \<open>\<^verbatim>\<open>strncmp("exit", buff, 4) == 0\<close>\<close>

definition says_exit :: "byte list \<Rightarrow> bool" where
  "says_exit buff \<longleftrightarrow> take 4 buff = [101, 120, 105, 116]"

text \<open>\<^verbatim>\<open>read(sockfd, buff, sizeof(buff))\<close> into a cleared buffer, when \<open>k\<close> bytes are delivered.\<close>

definition read_into :: "nat \<Rightarrow> byte list \<Rightarrow> byte list \<times> byte list" where
  "read_into k stream =
     (let m = min k (min CHAT_MAX (length stream)) in (take m stream @ replicate (CHAT_MAX - m) 0, drop m stream))"

section \<open>The two programs\<close>

datatype pc = Sending | Receiving | Done | Fault

record chat =
  c_pc :: pc
  s_pc :: pc
  c_in :: "byte list"
  s_in :: "byte list"
  c2s :: "byte list"
  s2c :: "byte list"
  c_out :: "byte list list"
  s_out :: "byte list list"

text \<open>
  \<^verbatim>\<open>func\<close> of the client: type a line and send the buffer; then read an answer, print it, and leave the
  loop when it starts with \<^verbatim>\<open>exit\<close>. A read with nothing in flight waits, or answers 0 when the
  peer has closed the connection.
\<close>

definition client_step :: "nat \<Rightarrow> chat \<Rightarrow> chat" where
  "client_step k s =
     (case c_pc s of
        Sending \<Rightarrow>
          (case getchar_loop 0 (replicate CHAT_MAX 0) (c_in s) of
             None \<Rightarrow> s\<lparr>c_pc := Fault\<rparr>
           | Some (buff, rest) \<Rightarrow> s\<lparr>c_pc := Receiving, c_in := rest, c2s := c2s s @ buff\<rparr>)
      | Receiving \<Rightarrow>
          (if s2c s = [] \<and> s_pc s \<noteq> Done \<or> s2c s \<noteq> [] \<and> k = 0 then s
           else (case read_into k (s2c s) of (buff, rest) \<Rightarrow>
             (case c_string buff of
                None \<Rightarrow> s\<lparr>c_pc := Fault\<rparr>
              | Some str \<Rightarrow>
                  s\<lparr>c_pc := (if says_exit buff then Done else Sending), s2c := rest, c_out := c_out s @ [str]\<rparr>)))
      | _ \<Rightarrow> s)"

text \<open>
  \<^verbatim>\<open>func\<close> of the server: read a message and print it; then type the answer, send it, and leave the loop when
  the answer starts with \<^verbatim>\<open>exit\<close>.
\<close>

definition server_step :: "nat \<Rightarrow> chat \<Rightarrow> chat" where
  "server_step k s =
     (case s_pc s of
        Receiving \<Rightarrow>
          (if c2s s = [] \<and> c_pc s \<noteq> Done \<or> c2s s \<noteq> [] \<and> k = 0 then s
           else (case read_into k (c2s s) of (buff, rest) \<Rightarrow>
             (case c_string buff of
                None \<Rightarrow> s\<lparr>s_pc := Fault\<rparr>
              | Some str \<Rightarrow> s\<lparr>s_pc := Sending, c2s := rest, s_out := s_out s @ [str]\<rparr>)))
      | Sending \<Rightarrow>
          (case getchar_loop 0 (replicate CHAT_MAX 0) (s_in s) of
             None \<Rightarrow> s\<lparr>s_pc := Fault\<rparr>
           | Some (buff, rest) \<Rightarrow>
               s\<lparr>s_pc := (if says_exit buff then Done else Receiving), s_in := rest, s2c := s2c s @ buff\<rparr>)
      | _ \<Rightarrow> s)"

datatype turn = Client nat | Server nat

fun chat_step :: "turn \<Rightarrow> chat \<Rightarrow> chat" where
  "chat_step (Client k) s = client_step k s"
| "chat_step (Server k) s = server_step k s"

definition chat_run :: "turn list \<Rightarrow> chat \<Rightarrow> chat" where
  "chat_run ts s = fold chat_step ts s"

definition chat_start :: "byte list \<Rightarrow> byte list \<Rightarrow> chat" where
  "chat_start keys1 keys2 = \<lparr>c_pc = Sending, s_pc = Receiving, c_in = keys1, s_in = keys2, c2s = [], s2c = [],
     c_out = [], s_out = []\<rparr>"

section \<open>One line\<close>

text \<open>A line that fits with its terminating zero.\<close>

definition line_ok :: "byte list \<Rightarrow> bool" where
  "line_ok l \<longleftrightarrow> (\<exists>t. l = t @ [10] \<and> length t \<le> 78 \<and> 0 \<notin> set t \<and> 10 \<notin> set t)"

definition padded :: "byte list \<Rightarrow> byte list" where
  "padded l = l @ replicate (CHAT_MAX - length l) 0"

lemma getchar_loop_types:
  assumes "10 \<notin> set t" and "length pre + length t < CHAT_MAX"
  shows "getchar_loop (length pre) (pre @ replicate (CHAT_MAX - length pre) 0) (t @ 10 # rest) = Some (padded (pre @ t @ [10]), rest)"
  using assms
proof (induction t arbitrary: pre)
  case Nil
  then obtain m where "CHAT_MAX - length pre = Suc m" by (cases "CHAT_MAX - length pre") auto
  moreover from this have "CHAT_MAX - Suc (length pre) = m" by simp
  ultimately show ?case using Nil by (simp add: padded_def list_update_append)
next
  case (Cons c t)
  obtain m where m: "CHAT_MAX - length pre = Suc m" using Cons.prems by (cases "CHAT_MAX - length pre") auto
  then have "CHAT_MAX - Suc (length pre) = m" by simp
  then show ?case
    using Cons.IH [of "pre @ [c]"] Cons.prems m by (simp add: list_update_append)
qed

lemma getchar_line:
  assumes "line_ok l"
  shows "getchar_loop 0 (replicate CHAT_MAX 0) (l @ rest) = Some (padded l, rest)"
proof -
  obtain t where "l = t @ [10]" "length t \<le> 78" "10 \<notin> set t" using assms unfolding line_ok_def by blast
  then show ?thesis using getchar_loop_types [of t "[]" rest] by (simp add: CHAT_MAX_def)
qed

lemma padded_facts:
  assumes "line_ok l"
  shows "length (padded l) = CHAT_MAX" "c_string (padded l) = Some l" "padded l \<noteq> []" "says_exit (padded l) = says_exit l"
    "k \<ge> CHAT_MAX \<Longrightarrow> read_into k (padded l) = (padded l, [])"
proof -
  obtain t where t: "l = t @ [10]" "length t \<le> 78" "0 \<notin> set t" using assms unfolding line_ok_def by blast
  then have l: "length l < CHAT_MAX" "0 \<notin> set l" "l \<noteq> []" by (auto simp: CHAT_MAX_def)
  then have "takeWhile (\<lambda>b. b \<noteq> 0) (padded l) = l"
    by (auto simp: padded_def takeWhile_append takeWhile_replicate)
  then show "c_string (padded l) = Some l"
    using l by (simp add: c_string_def padded_def)
  show len: "length (padded l) = CHAT_MAX" using l by (simp add: padded_def)
  then show "padded l \<noteq> []" by (auto simp: CHAT_MAX_def)
  show "k \<ge> CHAT_MAX \<Longrightarrow> read_into k (padded l) = (padded l, [])"
    using len by (simp add: read_into_def Let_def)
  show "says_exit (padded l) = says_exit l"
  proof (cases "4 \<le> length l")
    case True
    then show ?thesis by (simp add: says_exit_def padded_def)
  next
    case False
    have "take 4 l \<noteq> [101, 120, 105, 116]" using False by (auto dest: arg_cong [where f = length])
    moreover have "0 \<in> set (take 4 (padded l))"
      using False l(1) by (simp add: padded_def)
    then have "take 4 (padded l) \<noteq> [101, 120, 105, 116]" by auto
    ultimately show ?thesis by (simp add: says_exit_def)
  qed
qed

section \<open>Reads of any size\<close>



lemma concat_drop_line:
  assumes "list_all line_ok ls" and "n < length ls"
  shows "getchar_loop 0 (replicate CHAT_MAX 0) (concat (drop n ls)) = Some (padded (ls ! n), concat (drop (Suc n) ls))"
  using assms getchar_line [of "ls ! n" "concat (drop (Suc n) ls)"]
  by (simp add: Cons_nth_drop_Suc [symmetric] list_all_length)

lemmas take_next = take_Suc_conv_app_nth








section \<open>The conversation\<close>






fun whole :: "turn \<Rightarrow> bool" where
  "whole (Client k) \<longleftrightarrow> CHAT_MAX \<le> k"
| "whole (Server k) \<longleftrightarrow> CHAT_MAX \<le> k"








text \<open>
  The conversation up to answer \<open>n\<close>, the first \<^verbatim>\<open>exit\<close>, in \<open>4 * (n + 1)\<close> moves: in each exchange the client types, the server
  reads, the server types and the client reads. \<open>conv i\<close> is the state after \<open>i\<close> of them.
\<close>

definition stage :: "byte list list \<Rightarrow> byte list list \<Rightarrow> nat \<Rightarrow> nat \<Rightarrow> chat" where
  "stage qs as m ph = \<lparr>c_pc = (if ph = 0 then Sending else Receiving),
     s_pc = (if ph = 2 then Sending else if ph = 3 \<and> says_exit (as ! m) then Done else Receiving),
     c_in = concat (drop (if ph = 0 then m else Suc m) qs), s_in = concat (drop (if ph = 3 then Suc m else m) as),
     c2s = (if ph = 1 then padded (qs ! m) else []), s2c = (if ph = 3 then padded (as ! m) else []),
     c_out = take m as, s_out = take (if ph = 0 \<or> ph = 1 then m else Suc m) qs\<rparr>"

definition over :: "byte list list \<Rightarrow> byte list list \<Rightarrow> nat \<Rightarrow> chat" where
  "over qs as n = \<lparr>c_pc = Done, s_pc = Done, c_in = concat (drop (Suc n) qs), s_in = concat (drop (Suc n) as), c2s = [], s2c = [],
     c_out = take (Suc n) as, s_out = take (Suc n) qs\<rparr>"

definition conv :: "byte list list \<Rightarrow> byte list list \<Rightarrow> nat \<Rightarrow> nat \<Rightarrow> chat" where
  "conv qs as n i = (if i < 4 * Suc n then stage qs as (i div 4) (i mod 4) else over qs as n)"

fun moves :: "turn \<Rightarrow> nat \<Rightarrow> bool" where
  "moves (Client k) i \<longleftrightarrow> i mod 4 = 0 \<or> i mod 4 = 3"
| "moves (Server k) i \<longleftrightarrow> i mod 4 = 1 \<or> i mod 4 = 2"

definition first_exit :: "byte list list \<Rightarrow> byte list list \<Rightarrow> nat \<Rightarrow> bool" where
  "first_exit qs as n \<longleftrightarrow> n < length qs \<and> n < length as \<and> says_exit (as ! n) \<and> (\<forall>i < n. \<not> says_exit (as ! i))"

lemma stage_step:
  assumes "list_all line_ok qs" and "list_all line_ok as" and "first_exit qs as n" and "m \<le> n" and "ph < 4" and "whole t"
  shows "chat_step t (stage qs as m ph) =
    (if \<not> moves t ph then stage qs as m ph
     else if ph < 3 then stage qs as m (Suc ph) else if m = n then over qs as n else stage qs as (Suc m) 0)"
proof -
  have b: "m < length qs" "m < length as" "says_exit (as ! m) = (m = n)"
    using assms(3,4) unfolding first_exit_def by (simp_all, metis le_neq_implies_less)
  have n: "n < length qs" "n < length as" using assms(3) by (simp_all add: first_exit_def)
  have l: "line_ok (qs ! m)" "line_ok (as ! m)" using assms(1,2) b by (simp_all add: list_all_length)
  note f = padded_facts [OF l(1)] padded_facts [OF l(2)]
  obtain k where k: "CHAT_MAX \<le> k" "k \<noteq> 0" "t = Client k \<or> t = Server k" using assms(6) by (cases t) (auto simp: CHAT_MAX_def)
  have "ph = 0 \<or> ph = 1 \<or> ph = 2 \<or> ph = 3" using assms(5) by auto
  then show ?thesis
    using k(3) by (elim disjE) (simp_all add: stage_def over_def client_step_def server_step_def concat_drop_line [OF assms(1)]
        concat_drop_line [OF assms(2)] b n f k(1,2) take_next)
qed

lemma conv_step:
  assumes "list_all line_ok qs" and "list_all line_ok as" and "first_exit qs as n" and "whole t"
  shows "chat_step t (conv qs as n i) = conv qs as n (if i < 4 * Suc n \<and> moves t i then Suc i else i)"
proof (cases "i < 4 * Suc n")
  case True
  define m ph where "m = i div 4" and "ph = i mod 4"
  have i: "i = 4 * m + ph" "ph < 4" "m \<le> n" using True by (auto simp: m_def ph_def)
  have mv: "moves t i = moves t ph" by (cases t) (simp_all add: ph_def)
  have nxt: "conv qs as n (Suc i) = (if ph < 3 then stage qs as m (Suc ph) else if m = n then over qs as n else stage qs as (Suc m) 0)"
  proof (cases "ph < 3")
    case True
    then have "Suc i div 4 = m" "Suc i mod 4 = Suc ph" "Suc i < 4 * Suc n" using i by presburger+
    then show ?thesis using True by (simp add: conv_def)
  next
    case False
    then have "Suc i = 4 * Suc m" using i by simp
    then show ?thesis using False i(3) by (auto simp: conv_def)
  qed
  have "conv qs as n i = stage qs as m ph" using True by (simp add: conv_def m_def ph_def)
  then show ?thesis
    using stage_step [OF assms(1-3) i(3,2) assms(4)] True by (cases "moves t ph") (simp_all only: mv nxt if_True if_False simp_thms)
next
  case False
  then show ?thesis by (cases t) (simp_all add: conv_def over_def client_step_def server_step_def)
qed

lemma conv_run:
  assumes "list_all line_ok qs" and "list_all line_ok as" and "first_exit qs as n" and "list_all whole ts" and "i \<le> 4 * Suc n"
  shows "\<exists>j. i \<le> j \<and> j \<le> 4 * Suc n \<and> chat_run ts (conv qs as n i) = conv qs as n j \<and>
    (i < 4 * Suc n \<and> (\<exists>t\<in>set ts. moves t i) \<longrightarrow> i < j)"
  using assms(4,5)
proof (induction ts arbitrary: i)
  case (Cons t ts)
  let ?i = "if i < 4 * Suc n \<and> moves t i then Suc i else i"
  have "?i \<le> 4 * Suc n" using Cons.prems(2) by simp
  then obtain j where j: "?i \<le> j" "j \<le> 4 * Suc n" "chat_run ts (conv qs as n ?i) = conv qs as n j"
    "?i < 4 * Suc n \<and> (\<exists>t\<in>set ts. moves t ?i) \<longrightarrow> ?i < j"
    using Cons.IH [of ?i] Cons.prems(1) by auto
  have "chat_run (t # ts) (conv qs as n i) = conv qs as n j"
    using conv_step [OF assms(1-3), of t i] Cons.prems(1) j(3) by (simp add: chat_run_def)
  then show ?case using j(1,2,4) by (intro exI [of _ j]) (auto split: if_splits)
qed (auto simp: chat_run_def)

lemma chat_run_append: "chat_run (ts @ us) s = chat_run us (chat_run ts s)"
  by (simp add: chat_run_def)

text \<open>A stretch of the schedule in which both programs have a turn.\<close>

definition both_turns :: "turn list \<Rightarrow> bool" where
  "both_turns ts \<longleftrightarrow> (\<exists>k. Client k \<in> set ts) \<and> (\<exists>k. Server k \<in> set ts)"

lemma both_turns_moves: "both_turns ts \<Longrightarrow> \<exists>t\<in>set ts. moves t i"
proof -
  assume "both_turns ts"
  then obtain k l where "Client k \<in> set ts" "Server l \<in> set ts" by (auto simp: both_turns_def)
  moreover have "i mod 4 = 0 \<or> i mod 4 = 3 \<or> i mod 4 = 1 \<or> i mod 4 = 2" by presburger
  ultimately show ?thesis by (metis moves.simps)
qed

lemma conv_blocks:
  assumes "list_all line_ok qs" and "list_all line_ok as" and "first_exit qs as n"
    and "list_all (\<lambda>b. list_all whole b \<and> both_turns b) blocks" and "i \<le> 4 * Suc n"
  shows "\<exists>j. min (4 * Suc n) (i + length blocks) \<le> j \<and> j \<le> 4 * Suc n \<and> chat_run (concat blocks) (conv qs as n i) = conv qs as n j"
  using assms(4,5)
proof (induction blocks arbitrary: i)
  case (Cons b bs)
  then have b: "list_all whole b" "both_turns b" and bs: "list_all (\<lambda>b. list_all whole b \<and> both_turns b) bs" by simp_all
  obtain j where j: "i \<le> j" "j \<le> 4 * Suc n" "chat_run b (conv qs as n i) = conv qs as n j" "i < 4 * Suc n \<longrightarrow> i < j"
    using conv_run [OF assms(1-3) b(1) Cons.prems(2)] both_turns_moves [OF b(2), of i] by blast
  obtain l where l: "min (4 * Suc n) (j + length bs) \<le> l" "l \<le> 4 * Suc n" "chat_run (concat bs) (conv qs as n j) = conv qs as n l"
    using Cons.IH [OF bs j(2)] by blast
  have "min (4 * Suc n) (i + length (b # bs)) \<le> l" using l(1) j(1,2,4) Cons.prems(2) by (auto simp: min_def split: if_splits)
  then show ?case using l(2,3) j(3) by (intro exI [of _ l]) (simp add: chat_run_append)
qed (auto simp: chat_run_def)

text \<open>
  C32. The conversation ends under every fair schedule whose reads deliver whole messages, if the lines have at most 78
  characters: when the answer number \<open>n\<close> is the first one that starts with \<^verbatim>\<open>exit\<close> and the client has a line for every answer, any
  sequence of at least \<open>4 * (n + 1)\<close> stretches in each of which both programs have a turn brings both to their end, each having
  printed everything the other one typed up to there.
\<close>

theorem chat_ends:
  assumes "list_all line_ok qs" and "list_all line_ok as" and "first_exit qs as n"
    and "list_all (\<lambda>b. list_all whole b \<and> both_turns b) blocks" and "4 * Suc n \<le> length blocks"
  shows "let s = chat_run (concat blocks) (chat_start (concat qs) (concat as)) in
    c_pc s = Done \<and> s_pc s = Done \<and> s_out s = take (Suc n) qs \<and> c_out s = take (Suc n) as"
proof -
  have "chat_start (concat qs) (concat as) = conv qs as n 0" by (simp add: chat_start_def conv_def stage_def)
  moreover have "chat_run (concat blocks) (conv qs as n 0) = conv qs as n (4 * Suc n)"
    using conv_blocks [OF assms(1-4), of 0] assms(5) by (metis le_antisym le0 min.absorb1 add_0)
  ultimately show ?thesis by (simp add: conv_def over_def)
qed

definition hi_line :: "byte list" where "hi_line = [104, 105, 10]"
definition exit_line :: "byte list" where "exit_line = [101, 120, 105, 116, 10]"

lemma demo_lines: "line_ok hi_line" "line_ok exit_line" "\<not> says_exit hi_line" "says_exit exit_line"
proof -
  have "hi_line = [104, 105] @ [10]" "exit_line = [101, 120, 105, 116] @ [10]"
    by (simp_all add: hi_line_def exit_line_def)
  then show "line_ok hi_line" "line_ok exit_line" unfolding line_ok_def by fastforce+
qed (simp_all add: says_exit_def hi_line_def exit_line_def)


theorem chat_ends_witness:
  "c_pc (chat_run (concat (replicate 8 [Server 90, Client 80])) (chat_start (concat [hi_line, hi_line]) (concat [hi_line, exit_line]))) = Done"
proof -
  have "first_exit [hi_line, hi_line] [hi_line, exit_line] 1" using demo_lines by (simp add: first_exit_def)
  then show ?thesis
    using chat_ends [of "[hi_line, hi_line]" "[hi_line, exit_line]" 1 "replicate 8 [Server 90, Client 80]"] demo_lines
    by (simp add: Let_def CHAT_MAX_def both_turns_def list_all_iff)
qed

text \<open>
  Why reads have to deliver whole messages: when the server reads \<^verbatim>\<open>hi\<close> in two pieces, it takes the second piece for the next message, and
  the client the next answer for the answer to it. And a piece that starts with \<^verbatim>\<open>exit\<close> ends the client although no answer did.
\<close>

lemma chat_split_read:
  "s_out (chat_run [Client 80, Server 1, Server 80, Server 80] (chat_start (concat [hi_line]) (concat [hi_line, hi_line]))) = [[104], [105, 10]]"
  "c_pc (chat_run [Client 80, Server 80, Server 80, Client 2, Client 80, Client 80] (chat_start (concat [hi_line, hi_line]) (concat [[104, 105] @ exit_line]))) = Done"
  by code_simp+

text \<open>
  A line of 79 characters fills the buffer: it is sent, and the peer's \<^verbatim>\<open>printf\<close> runs past its buffer.
  A longer one is already stored outside the buffer of the sender.
\<close>

lemma line_79_unterminated:
  assumes "length t = 79" and "0 \<notin> set t" and "10 \<notin> set t"
  shows "getchar_loop 0 (replicate CHAT_MAX 0) (t @ 10 # rest) = Some (t @ [10], rest)" and "c_string (t @ [10]) = None"
  using assms getchar_loop_types [of t "[]" rest] by (simp_all add: padded_def c_string_def CHAT_MAX_def)

lemma line_80_overflows:
  assumes "length buff \<le> n + length t" and "10 \<notin> set t"
  shows "getchar_loop n buff (t @ rest) = None"
  using assms
proof (induction t arbitrary: n buff)
  case Nil
  then show ?case by (cases rest) auto
next
  case (Cons c t)
  then show ?case using Cons.IH [of "buff[n := c]" "Suc n"] by auto
qed

section \<open>The programs around the chat\<close>

datatype ncall =
    Socket
  | Bind nat
  | Listen nat
  | Accept
  | Connect nat
  | Recvfrom
  | Sendto "byte list"
  | Print "byte list"
  | Log string
  | Perror string
  | Close_sock int

definition PORT :: nat where "PORT = 8081"

text \<open>
  \<^verbatim>\<open>main\<close> of the server and of the client, around their \<^verbatim>\<open>func\<close>. Every failure ends the program with status 0.
\<close>

definition tcp_server_main :: "ncall kenv \<Rightarrow> (int \<Rightarrow> (ncall kworld, unit) state) \<Rightarrow> (ncall kworld, int) state" where
  "tcp_server_main E func = do {
     sockfd \<leftarrow> kint E Socket;
     if sockfd = - 1 then do { kvoid (Log ''socket creation failed...''); ret 0 }
     else do {
       kvoid (Log ''Socket successfully created..'');
       b \<leftarrow> kint E (Bind PORT);
       if b \<noteq> 0 then do { kvoid (Log ''socket bind failed...''); ret 0 }
       else do {
         kvoid (Log ''Socket successfully binded..'');
         l \<leftarrow> kint E (Listen 5);
         if l \<noteq> 0 then do { kvoid (Log ''Listen failed...''); ret 0 }
         else do {
           kvoid (Log ''Server listening..'');
           connfd \<leftarrow> kint E Accept;
           if connfd < 0 then do { kvoid (Log ''server acccept failed...''); ret 0 }
           else do {
             kvoid (Log ''server acccept the client...'');
             func connfd;
             kvoid (Close_sock sockfd);
             ret 0 } } } } }"

definition tcp_client_main :: "ncall kenv \<Rightarrow> (int \<Rightarrow> (ncall kworld, unit) state) \<Rightarrow> (ncall kworld, int) state" where
  "tcp_client_main E func = do {
     sockfd \<leftarrow> kint E Socket;
     if sockfd = - 1 then do { kvoid (Log ''socket creation failed...''); ret 0 }
     else do {
       kvoid (Log ''Socket successfully created..'');
       c \<leftarrow> kint E (Connect PORT);
       if c \<noteq> 0 then do { kvoid (Log ''connection with the server failed...''); ret 0 }
       else do {
         kvoid (Log ''connected to the server..'');
         func sockfd;
         kvoid (Close_sock sockfd);
         ret 0 } } }"

section \<open>Datagrams\<close>

definition MAXLINE :: nat where "MAXLINE = 1024"
definition UDP_PORT :: nat where "UDP_PORT = 8080"

text \<open>
  \<^verbatim>\<open>n = recvfrom(...); buffer[n] = '\0'; printf("%s", buffer)\<close>. The kernel delivers a datagram cut to the size of the
  buffer, or fails with -1 (\<open>None\<close>); the result is the string that is printed, \<open>None\<close> when the
  zero is stored outside the buffer. The content of the buffer before the call is arbitrary.
\<close>

definition recv_print :: "byte list \<Rightarrow> byte list option \<Rightarrow> byte list option" where
  "recv_print buffer dgram =
     (case dgram of
        None \<Rightarrow> None
      | Some d \<Rightarrow>
          (let n = min (length d) MAXLINE; buffer' = take n d @ drop n buffer in
           if MAXLINE \<le> n then None else c_string (buffer'[n := 0])))"

definition hello_server :: "byte list" where
  "hello_server = map (of_nat \<circ> of_char) ''Hello from server''"

definition hello_client :: "byte list" where
  "hello_client = map (of_nat \<circ> of_char) ''Hello from client''"

definition print_or_oops :: "byte list option \<Rightarrow> (ncall kworld, unit) state" where
  "print_or_oops s = (case s of None \<Rightarrow> koops ''store outside buffer'' | Some str \<Rightarrow> kvoid (Print str))"

definition udp_server_main :: "ncall kenv \<Rightarrow> byte list \<Rightarrow> byte list option \<Rightarrow> (ncall kworld, int) state" where
  "udp_server_main E buffer dgram = do {
     sockfd \<leftarrow> kint E Socket;
     if sockfd < 0 then do { kvoid (Perror ''socket creation failed''); ret 1 }
     else do {
       b \<leftarrow> kint E (Bind UDP_PORT);
       if b < 0 then do { kvoid (Perror ''bind failed''); ret 1 }
       else do {
         kvoid Recvfrom;
         print_or_oops (recv_print buffer dgram);
         kvoid (Sendto hello_server);
         kvoid (Log ''Hello message sent.'');
         ret 0 } } }"

definition udp_client_main :: "ncall kenv \<Rightarrow> byte list \<Rightarrow> byte list option \<Rightarrow> (ncall kworld, int) state" where
  "udp_client_main E buffer dgram = do {
     sockfd \<leftarrow> kint E Socket;
     if sockfd < 0 then do { kvoid (Perror ''socket creation failed''); ret 1 }
     else do {
       kvoid (Sendto hello_client);
       kvoid (Log ''Hello message sent.'');
       kvoid Recvfrom;
       print_or_oops (recv_print buffer dgram);
       kvoid (Close_sock sockfd);
       ret 0 } }"

text \<open>The datagrams a trace sends, and what it prints.\<close>

fun sent :: "ncall ktrace \<Rightarrow> byte list list" where
  "sent [] = []"
| "sent (Void (Sendto d) # tr) = d # sent tr"
| "sent (_ # tr) = sent tr"

fun printed :: "ncall ktrace \<Rightarrow> byte list list" where
  "printed [] = []"
| "printed (Void (Print d) # tr) = d # printed tr"
| "printed (_ # tr) = printed tr"

lemma recv_print_fits:
  assumes "length buffer = MAXLINE"
  shows "recv_print buffer (Some d) = (if length d < MAXLINE then Some (takeWhile (\<lambda>b. b \<noteq> 0) d) else None)"
proof (cases "length d < MAXLINE")
  case True
  then obtain x xs where x: "drop (length d) buffer = x # xs"
    using assms by (cases "drop (length d) buffer") auto
  have "takeWhile (\<lambda>b. b \<noteq> 0) (d @ 0 # xs) = takeWhile (\<lambda>b. b \<noteq> 0) d"
    by (induction d) auto
  then show ?thesis
    using True x by (simp add: recv_print_def Let_def min_def c_string_def)
qed (simp add: recv_print_def Let_def min_def)

text \<open>
  The datagram pair works, inside its limits: whatever the two buffers contained, the server prints the client's
  greeting and the client prints the server's answer. The zero behind a received datagram is stored inside the buffer
  exactly when the datagram is shorter than the buffer: a datagram of 1024 bytes or more, and a failed receive, make both
  programs write outside it.
\<close>

theorem udp_hello:
  assumes "length b1 = MAXLINE" and "length b2 = MAXLINE" and "\<forall>tr c. ret_int E tr c = 0"
  shows "let c1 = sent (trace (final_world (udp_client_main E b1 reply) \<lparr>trace = []\<rparr>));
             t2 = trace (final_world (udp_server_main E b2 (Some (hd c1))) \<lparr>trace = []\<rparr>);
             t1 = trace (final_world (udp_client_main E b1 (Some (hd (sent t2)))) \<lparr>trace = []\<rparr>)
    in printed t2 = [hello_client] \<and> printed t1 = [hello_server] \<and> never_faults t1 \<and> never_faults t2 \<and>
       (never_faults (trace (final_world (udp_server_main E b2 dgram) \<lparr>trace = []\<rparr>)) \<longleftrightarrow>
          (\<exists>d. dgram = Some d \<and> length d < MAXLINE))"
proof -
  have h: "length hello_client < MAXLINE" "length hello_server < MAXLINE"
    by (simp_all add: hello_client_def hello_server_def MAXLINE_def)
  have z: "takeWhile (\<lambda>b. b \<noteq> 0) hello_client = hello_client" "takeWhile (\<lambda>b. b \<noteq> 0) hello_server = hello_server"
    by (simp_all add: hello_client_def hello_server_def)
  have s: "hd (sent (trace (final_world (udp_client_main E b1 reply) \<lparr>trace = []\<rparr>))) = hello_client"
    using assms(3)
    by (cases "recv_print b1 reply") (simp_all add: udp_client_main_def print_or_oops_def final_world_def krun)
  have p2: "trace (final_world (udp_server_main E b2 (Some hello_client)) \<lparr>trace = []\<rparr>) =
      [RetI Socket 0, RetI (Bind UDP_PORT) 0, Void Recvfrom, Void (Print hello_client), Void (Sendto hello_server),
       Void (Log ''Hello message sent.'')]"
    using assms h z
    by (simp add: udp_server_main_def print_or_oops_def recv_print_fits final_world_def krun)
  have p1: "trace (final_world (udp_client_main E b1 (Some hello_server)) \<lparr>trace = []\<rparr>) =
      [RetI Socket 0, Void (Sendto hello_client), Void (Log ''Hello message sent.''), Void Recvfrom,
       Void (Print hello_server), Void (Close_sock 0)]"
    using assms h z
    by (simp add: udp_client_main_def print_or_oops_def recv_print_fits final_world_def krun)
  have "never_faults (trace (final_world (udp_server_main E b2 dgram) \<lparr>trace = []\<rparr>)) \<longleftrightarrow>
      (\<exists>d. dgram = Some d \<and> length d < MAXLINE)"
  proof (cases dgram)
    case None
    then show ?thesis
      using assms by (simp add: udp_server_main_def print_or_oops_def recv_print_def final_world_def krun)
  next
    case (Some d)
    then show ?thesis
      using assms by (auto simp: udp_server_main_def print_or_oops_def recv_print_fits final_world_def krun)
  qed
  then show ?thesis by (simp add: s p1 p2)
qed

theorem udp_hello_witness:
  "printed (trace (final_world (udp_server_main \<lparr>ret_int = \<lambda>_ _. 0, ret_ptr = \<lambda>_ _. Null\<rparr> (replicate MAXLINE 7)
     (Some (hd (sent (trace (final_world (udp_client_main \<lparr>ret_int = \<lambda>_ _. 0, ret_ptr = \<lambda>_ _. Null\<rparr>
       (replicate MAXLINE 7) None) \<lparr>trace = []\<rparr>)))))) \<lparr>trace = []\<rparr>)) = [hello_client]"
  using udp_hello [of "replicate MAXLINE 7" "replicate MAXLINE 7" "\<lparr>ret_int = \<lambda>_ _. 0, ret_ptr = \<lambda>_ _. Null\<rparr>" None]
  by (simp add: Let_def)

end
