(* ===== verification/Uart_Driver.thy ===== *)
theory Uart_Driver
  imports Kernel_Prelude
begin

text \<open>
  The serial driver \<^verbatim>\<open>UartDriver/test_serial.c\<close>: a timer that feeds a character to the terminal and
  drains the transmit ring of the port. The ring is filled by the serial core; the driver
  takes characters from its tail.
\<close>

unbundle bit_operations_syntax

section \<open>The port\<close>

definition UART_XMIT_SIZE :: nat where "UART_XMIT_SIZE = 4096"
definition WAKEUP_CHARS :: nat where "WAKEUP_CHARS = 256"
definition TEST_DATA_CHARACTER :: byte where "TEST_DATA_CHARACTER = 116"
definition DELAY_TIME :: "ulong \<Rightarrow> ulong" where "DELAY_TIME HZ = HZ * 2"

record uart_port =
  x_char :: byte
  icount_tx :: u32
  fifosize :: u32
  xbuf :: "byte list"
  xhead :: nat
  xtail :: nat
  tx_stopped :: bool
  uartclk :: u32

definition uart_circ_empty :: "uart_port \<Rightarrow> bool" where
  "uart_circ_empty p \<longleftrightarrow> xhead p = xtail p"

definition uart_circ_chars_pending :: "uart_port \<Rightarrow> nat" where
  "uart_circ_chars_pending p = nat ((int (xhead p) - int (xtail p)) AND (int UART_XMIT_SIZE - 1))"

text \<open>One pass of the loop body: send the character at the tail and advance.\<close>

definition tx_one :: "uart_port \<Rightarrow> byte \<times> uart_port" where
  "tx_one p = (xbuf p ! xtail p,
     p\<lparr>xtail := (xtail p + 1) AND (UART_XMIT_SIZE - 1), icount_tx := icount_tx p + 1\<rparr>)"

function tx_loop :: "int \<Rightarrow> uart_port \<Rightarrow> byte list \<Rightarrow> byte list \<times> uart_port" where
  "tx_loop cnt p sent =
     (let (c, p') = tx_one p; sent' = sent @ [c] in
      if uart_circ_empty p' then (sent', p')
      else if 0 < cnt - 1 then tx_loop (cnt - 1) p' sent' else (sent', p'))"
  by auto
termination by (relation "measure (\<lambda>(cnt, _). nat cnt)") auto

declare tx_loop.simps [simp del]

text \<open>The callbacks with nothing to do: the driver has no hardware.\<close>

definition test_stop_tx :: "uart_port \<Rightarrow> uart_port" where "test_stop_tx p = p"
definition test_stop_rx :: "uart_port \<Rightarrow> uart_port" where "test_stop_rx p = p"
definition test_enable_ms :: "uart_port \<Rightarrow> uart_port" where "test_enable_ms p = p"
definition test_start_tx :: "uart_port \<Rightarrow> uart_port" where "test_start_tx p = p"
definition test_tx_empty :: "uart_port \<Rightarrow> u32" where "test_tx_empty p = 0"
definition test_get_mctrl :: "uart_port \<Rightarrow> u32" where "test_get_mctrl p = 0"
definition test_set_mctrl :: "u32 \<Rightarrow> uart_port \<Rightarrow> uart_port" where "test_set_mctrl mctrl p = p"
definition test_break_ctl :: "int \<Rightarrow> uart_port \<Rightarrow> uart_port" where "test_break_ctl break_state p = p"
definition test_type :: "uart_port \<Rightarrow> string" where "test_type p = ''testtty''"
definition test_release_port :: "uart_port \<Rightarrow> uart_port" where "test_release_port p = p"
definition test_request_port :: "uart_port \<Rightarrow> int" where "test_request_port p = 0"
definition test_config_port :: "int \<Rightarrow> uart_port \<Rightarrow> uart_port" where "test_config_port flags p = p"
definition test_verify_port :: "uart_port \<Rightarrow> int" where "test_verify_port p = 0"

text \<open>
  The result: the characters written to the line, whether the writers were woken, and the
  port.
\<close>

definition test_tx_chars :: "uart_port \<Rightarrow> byte list \<times> bool \<times> uart_port" where
  "test_tx_chars p =
     (if x_char p \<noteq> 0 then ([x_char p], False, p\<lparr>icount_tx := icount_tx p + 1, x_char := 0\<rparr>)
      else if uart_circ_empty p \<or> tx_stopped p then ([], False, test_stop_tx p)
      else (let (sent, p') = tx_loop (int (unat (drop_bit 1 (fifosize p)))) p []
            in (sent, uart_circ_chars_pending p' < WAKEUP_CHARS, if uart_circ_empty p' then test_stop_tx p' else p')))"

declare test_stop_tx_def [simp]

section \<open>Timer, start-up and shutdown\<close>

definition TEST_SERIAL_MAJOR :: int where "TEST_SERIAL_MAJOR = 240"
definition TEST_SERIAL_MINORS :: int where "TEST_SERIAL_MINORS = 1"
definition UART_NR :: int where "UART_NR = 1"
definition TEST_SERIAL_NAME :: string where "TEST_SERIAL_NAME = ''ttytest''"

record uart_driver =
  driver_name :: string
  dev_name :: string
  uart_major :: int
  uart_minor :: int
  uart_nr :: int

definition test_reg :: uart_driver where
  "test_reg = \<lparr>driver_name = TEST_SERIAL_NAME, dev_name = TEST_SERIAL_NAME, uart_major = TEST_SERIAL_MAJOR,
     uart_minor = TEST_SERIAL_MINORS, uart_nr = UART_NR\<rparr>"

datatype tcall =
    Kmalloc_timer
  | Timer_setup
  | Add_timer ulong
  | Del_timer
  | Tty_insert_flip_char byte
  | Tty_flip_buffer_push
  | Line_out "byte list"
  | Uart_write_wakeup
  | Uart_register_driver uart_driver
  | Uart_unregister_driver uart_driver
  | Uart_add_one_port uart_driver
  | Uart_get_baud_rate u32 u32
  | Uart_get_divisor int
  | Log string

record tworld = "tcall kworld" +
  timer :: kptr
  timer_expires :: ulong
  port :: uart_port

text \<open>
  \<open>has_port\<close>, \<open>has_state\<close>, \<open>has_tty\<close>: whether the pointers the callback follows are set.
\<close>

definition test_timer :: "ulong \<Rightarrow> ulong \<Rightarrow> bool \<Rightarrow> bool \<Rightarrow> bool \<Rightarrow> (tworld, unit) state" where
  "test_timer jiffies HZ has_port has_state has_tty =
     (if \<not> has_port then ret ()
      else if \<not> has_state then ret ()
      else if \<not> has_tty then ret ()
      else do {
        kvoid (Tty_insert_flip_char TEST_DATA_CHARACTER);
        kvoid Tty_flip_buffer_push;
        modify (\<lambda>w. w\<lparr>timer_expires := jiffies + DELAY_TIME HZ\<rparr>);
        kvoid (Add_timer (jiffies + DELAY_TIME HZ));
        p \<leftarrow> gets port;
        (case test_tx_chars p of (sent, wake, p') \<Rightarrow> do {
           kvoid (Line_out sent);
           modify (\<lambda>w. w\<lparr>port := p'\<rparr>);
           (if wake then kvoid Uart_write_wakeup else ret ()) }) })"

definition test_startup :: "ulong \<Rightarrow> ulong \<Rightarrow> tcall kenv \<Rightarrow> (tworld, int) state" where
  "test_startup jiffies HZ E = do {
     t \<leftarrow> gets timer;
     (if t = Null then do {
        m \<leftarrow> kptr_call E Kmalloc_timer;
        modify (\<lambda>w. w\<lparr>timer := m\<rparr>) }
      else ret ());
     t' \<leftarrow> gets timer;
     if t' = Null then ret (- ENOMEM)
     else do {
       kvoid Timer_setup;
       modify (\<lambda>w. w\<lparr>timer_expires := jiffies + DELAY_TIME HZ\<rparr>);
       kvoid (Add_timer (jiffies + DELAY_TIME HZ));
       ret 0 } }"

definition test_shutdown :: "tcall kenv \<Rightarrow> (tworld, unit) state" where
  "test_shutdown E = kvoid Del_timer"

text \<open>The bits of the control flags and what is logged for them.\<close>

definition CSIZE :: u32 where "CSIZE = 0x30"
definition CS5 :: u32 where "CS5 = 0"
definition CS6 :: u32 where "CS6 = 0x10"
definition CS7 :: u32 where "CS7 = 0x20"
definition CSTOPB :: u32 where "CSTOPB = 0x40"
definition PARENB :: u32 where "PARENB = 0x100"
definition PARODD :: u32 where "PARODD = 0x200"
definition CRTSCTS :: u32 where "CRTSCTS = 0x80000000"

definition test_set_termios :: "tcall kenv \<Rightarrow> u32 \<Rightarrow> (tworld, unit) state" where
  "test_set_termios E cflag = do {
     kvoid (Log (if cflag AND CSIZE = CS5 then ''data bits = 5''
       else if cflag AND CSIZE = CS6 then ''data bits = 6''
       else if cflag AND CSIZE = CS7 then ''data bits = 7'' else ''data bits = 8''));
     kvoid (Log (if cflag AND PARENB \<noteq> 0
       then (if cflag AND PARODD \<noteq> 0 then ''parity = odd'' else ''parity = even'')
       else ''parity = none''));
     kvoid (Log (if cflag AND CSTOPB \<noteq> 0 then ''stop bits = 2'' else ''stop bits = 1''));
     kvoid (Log (if cflag AND CRTSCTS \<noteq> 0 then ''RTS/CTS is enabled'' else ''RTS/CTS is disabled''));
     p \<leftarrow> gets port;
     baud \<leftarrow> kint E (Uart_get_baud_rate 0 (uartclk p div 16));
     quot \<leftarrow> kint E (Uart_get_divisor (s32 baud));
     ret () }"

text \<open>The operations the serial core calls, and the port it gets: the driver sets nothing but the operations.\<close>

record uart_ops =
  op_tx_empty :: "uart_port \<Rightarrow> u32"
  op_set_mctrl :: "u32 \<Rightarrow> uart_port \<Rightarrow> uart_port"
  op_get_mctrl :: "uart_port \<Rightarrow> u32"
  op_stop_tx :: "uart_port \<Rightarrow> uart_port"
  op_start_tx :: "uart_port \<Rightarrow> uart_port"
  op_stop_rx :: "uart_port \<Rightarrow> uart_port"
  op_enable_ms :: "uart_port \<Rightarrow> uart_port"
  op_break_ctl :: "int \<Rightarrow> uart_port \<Rightarrow> uart_port"
  op_startup :: "ulong \<Rightarrow> ulong \<Rightarrow> tcall kenv \<Rightarrow> (tworld, int) state"
  op_shutdown :: "tcall kenv \<Rightarrow> (tworld, unit) state"
  op_set_termios :: "tcall kenv \<Rightarrow> u32 \<Rightarrow> (tworld, unit) state"
  op_type :: "uart_port \<Rightarrow> string"
  op_release_port :: "uart_port \<Rightarrow> uart_port"
  op_request_port :: "uart_port \<Rightarrow> int"
  op_config_port :: "int \<Rightarrow> uart_port \<Rightarrow> uart_port"
  op_verify_port :: "uart_port \<Rightarrow> int"

definition test_ops :: uart_ops where
  "test_ops = \<lparr>op_tx_empty = test_tx_empty, op_set_mctrl = test_set_mctrl, op_get_mctrl = test_get_mctrl, op_stop_tx = test_stop_tx,
     op_start_tx = test_start_tx, op_stop_rx = test_stop_rx, op_enable_ms = test_enable_ms, op_break_ctl = test_break_ctl,
     op_startup = test_startup, op_shutdown = test_shutdown, op_set_termios = test_set_termios, op_type = test_type,
     op_release_port = test_release_port, op_request_port = test_request_port, op_config_port = test_config_port,
     op_verify_port = test_verify_port\<rparr>"

text \<open>\<open>buf\<close> is the page the serial core attaches to the port.\<close>

definition test_port :: "byte list \<Rightarrow> uart_port" where
  "test_port buf = \<lparr>x_char = 0, icount_tx = 0, fifosize = 0, xbuf = buf, xhead = 0, xtail = 0, tx_stopped = False, uartclk = 0\<rparr>"

definition test_init :: "tcall kenv \<Rightarrow> (tworld, int) state" where
  "test_init E = do {
     kvoid (Log ''test serial driver loaded'');
     r \<leftarrow> kint E (Uart_register_driver test_reg);
     if r \<noteq> 0 then ret r
     else do {
       a \<leftarrow> kint E (Uart_add_one_port test_reg);
       (if a \<noteq> 0 then kvoid (Uart_unregister_driver test_reg) else ret ());
       ret a } }"

text \<open>The driver stays registered exactly when the load succeeds, and then with its port.\<close>

lemma test_init_undoes:
  "let evs = drop (length (trace w)) (trace (final_world (test_init E) w)) in
   result (test_init E) w = 0 \<longleftrightarrow> RetI (Uart_add_one_port test_reg) 0 \<in> set evs \<and> Void (Uart_unregister_driver test_reg) \<notin> set evs"
  by (auto simp: test_init_def result_def final_world_def krun Let_def)

text \<open>The clock of the port is never set: the range of rates the driver asks for is empty.\<close>

lemma termios_rate_range:
  assumes "port w = test_port buf"
  shows "\<exists>r q. drop (length (trace w) + 4) (trace (final_world (op_set_termios test_ops E cflag) w)) =
    [RetI (Uart_get_baud_rate 0 0) r, RetI (Uart_get_divisor (s32 r)) q]"
  by (simp add: test_ops_def test_set_termios_def final_world_def krun assms test_port_def)

section \<open>The ring as a list\<close>

definition xfer_wf :: "uart_port \<Rightarrow> bool" where
  "xfer_wf p \<longleftrightarrow> length (xbuf p) = 4096 \<and> xhead p < 4096 \<and> xtail p < 4096"

definition xcount :: "uart_port \<Rightarrow> nat" where
  "xcount p = (xhead p + 4096 - xtail p) mod 4096"

definition xitems :: "uart_port \<Rightarrow> byte list" where
  "xitems p = map (\<lambda>i. xbuf p ! ((xtail p + i) mod 4096)) [0..<xcount p]"

lemma mask4096: "n AND (UART_XMIT_SIZE - 1) = n mod 4096"
  using take_bit_eq_mask [of 12 n] by (simp add: UART_XMIT_SIZE_def take_bit_eq_mod mask_eq_exp_minus_1)

lemma pending_xcount: "xfer_wf p \<Longrightarrow> uart_circ_chars_pending p = xcount p"
proof -
  assume w: "xfer_wf p"
  have "(int (xhead p) - int (xtail p)) AND 4095 = (int (xhead p) - int (xtail p)) mod 4096"
    using take_bit_eq_mask [of 12 "int (xhead p) - int (xtail p)"]
    by (simp add: take_bit_eq_mod mask_eq_exp_minus_1)
  also have "\<dots> = (int (xhead p) + 4096 - int (xtail p)) mod 4096"
    using mod_add_self2 [of "int (xhead p) - int (xtail p)" 4096] by (simp add: algebra_simps)
  also have "\<dots> = int ((xhead p + 4096 - xtail p) mod 4096)"
    using w by (simp add: xfer_wf_def zmod_int of_nat_diff)
  finally show ?thesis by (simp add: uart_circ_chars_pending_def UART_XMIT_SIZE_def xcount_def)
qed

lemma empty_xcount: "xfer_wf p \<Longrightarrow> uart_circ_empty p \<longleftrightarrow> xcount p = 0"
  by (auto simp: xfer_wf_def uart_circ_empty_def xcount_def mod_if split: if_splits)

lemma tx_one_step:
  assumes "xfer_wf p" and "xcount p \<noteq> 0" and "tx_one p = (c, p')"
  shows "xfer_wf p' \<and> xitems p = c # xitems p' \<and> xcount p = Suc (xcount p') \<and>
    icount_tx p' = icount_tx p + 1 \<and> fifosize p' = fifosize p \<and> x_char p' = x_char p \<and>
    tx_stopped p' = tx_stopped p"
proof -
  have p': "p' = p\<lparr>xtail := (xtail p + 1) mod 4096, icount_tx := icount_tx p + 1\<rparr>" and c: "c = xbuf p ! xtail p"
    using assms(3) by (simp_all add: tx_one_def mask4096 del: One_nat_def)
  have n: "xcount p = Suc (xcount p')"
    using assms(1,2) by (auto simp: p' xcount_def xfer_wf_def mod_if split: if_splits)
  have "xitems p = xbuf p ! xtail p # map (\<lambda>i. xbuf p ! ((xtail p + Suc i) mod 4096)) [0..<xcount p']"
    using assms(1) by (simp only: xitems_def n map_upt_Suc) (simp add: xfer_wf_def)
  moreover have "((xtail p + 1) mod 4096 + i) mod 4096 = (xtail p + Suc i) mod 4096" for i
    by (simp add: mod_simps)
  ultimately show ?thesis using assms(1) n by (simp add: c p' xitems_def xfer_wf_def)
qed

definition burst :: "int \<Rightarrow> nat" where
  "burst cnt = nat (max 1 cnt)"

lemma tx_loop_sends:
  assumes "xfer_wf p" and "xcount p \<noteq> 0"
  shows "case tx_loop cnt p sent of (out, p') \<Rightarrow>
    out = sent @ take (burst cnt) (xitems p) \<and> xitems p' = drop (burst cnt) (xitems p) \<and> xfer_wf p' \<and>
    icount_tx p' = icount_tx p + of_nat (length (take (burst cnt) (xitems p))) \<and>
    fifosize p' = fifosize p \<and> x_char p' = x_char p \<and> tx_stopped p' = tx_stopped p"
  using assms
proof (induction cnt p sent rule: tx_loop.induct)
  case (1 cnt p sent)
  obtain c p1 where c: "tx_one p = (c, p1)" by fastforce
  note st = tx_one_step [OF 1(2,3) c]
  have e: "uart_circ_empty p1 \<longleftrightarrow> xcount p1 = 0" using st by (intro empty_xcount) simp
  have b: "burst cnt = Suc (if 0 < cnt - 1 then burst (cnt - 1) else 0)"
    by (auto simp: burst_def)
  have len: "length (xitems p1) = xcount p1" by (simp add: xitems_def)
  show ?case
  proof (cases "\<not> uart_circ_empty p1 \<and> 0 < cnt - 1")
    case True
    have ih: "case tx_loop (cnt - 1) p1 (sent @ [c]) of (out, p') \<Rightarrow>
        out = (sent @ [c]) @ take (burst (cnt - 1)) (xitems p1) \<and> xitems p' = drop (burst (cnt - 1)) (xitems p1) \<and>
        xfer_wf p' \<and> icount_tx p' = icount_tx p1 + of_nat (length (take (burst (cnt - 1)) (xitems p1))) \<and>
        fifosize p' = fifosize p1 \<and> x_char p' = x_char p1 \<and> tx_stopped p' = tx_stopped p1"
      using True st e by (intro 1(1) [OF c [symmetric] refl]) auto
    moreover have "tx_loop cnt p sent = tx_loop (cnt - 1) p1 (sent @ [c])"
      using True by (subst tx_loop.simps) (simp add: c)
    ultimately show ?thesis
      using st b True by (auto simp: case_prod_beta algebra_simps)
  next
    case False
    then have t: "tx_loop cnt p sent = (sent @ [c], p1)"
      by (subst tx_loop.simps) (auto simp: c Let_def)
    show ?thesis
    proof (cases "uart_circ_empty p1")
      case True
      then have "xitems p1 = []" using e len by simp
      then show ?thesis using t st b by (auto simp: case_prod_beta)
    next
      case f: False
      then have "burst cnt = 1" using False b by simp
      then show ?thesis using t st by simp
    qed
  qed
qed

lemma fifo_half: "burst (int (unat (drop_bit 1 (f :: u32)))) = max 1 (unat f div 2)"
proof -
  have "unat (drop_bit 1 f) = unat f div 2"
    by (simp add: unat_drop_bit_eq) (simp add: drop_bit_eq_div unat_div)
  then show ?thesis by (auto simp: burst_def max_def nat_eq_iff)
qed

lemma uart_tx_step:
  assumes "xfer_wf p"
  shows "case test_tx_chars p of (sent, wake, p') \<Rightarrow>
    xfer_wf p' \<and> icount_tx p' = icount_tx p + of_nat (length sent) \<and>
    (x_char p \<noteq> 0 \<longrightarrow> sent = [x_char p] \<and> x_char p' = 0 \<and> xitems p' = xitems p) \<and>
    (x_char p = 0 \<and> (tx_stopped p \<or> xitems p = []) \<longrightarrow> sent = [] \<and> p' = p) \<and>
    (x_char p = 0 \<and> \<not> tx_stopped p \<and> xitems p \<noteq> [] \<longrightarrow>
       sent = take (max 1 (unat (fifosize p) div 2)) (xitems p) \<and>
       xitems p' = drop (max 1 (unat (fifosize p) div 2)) (xitems p) \<and>
       wake = (length (xitems p') < 256) \<and> x_char p' = 0 \<and> \<not> tx_stopped p')"
proof -
  have e: "uart_circ_empty p \<longleftrightarrow> xitems p = []"
    using empty_xcount [OF assms] by (simp add: xitems_def)
  let ?c = "int (unat (drop_bit 1 (fifosize p)))"
  obtain out p1 where l: "tx_loop ?c p [] = (out, p1)" by fastforce
  have "xcount p \<noteq> 0 \<Longrightarrow> out = take (max 1 (unat (fifosize p) div 2)) (xitems p) \<and>
      xitems p1 = drop (max 1 (unat (fifosize p) div 2)) (xitems p) \<and> xfer_wf p1 \<and>
      icount_tx p1 = icount_tx p + of_nat (length out) \<and> x_char p1 = x_char p \<and> tx_stopped p1 = tx_stopped p"
    using tx_loop_sends [OF assms, where cnt = ?c and sent = "[]"] unfolding l fifo_half by simp
  moreover have "xfer_wf p1 \<Longrightarrow> uart_circ_chars_pending p1 = length (xitems p1)"
    by (simp add: pending_xcount xitems_def)
  moreover have "xitems p = [] \<longleftrightarrow> xcount p = 0" by (simp add: xitems_def)
  moreover have "xfer_wf (p\<lparr>icount_tx := a, x_char := b\<rparr>) = xfer_wf p"
    "xitems (p\<lparr>icount_tx := a, x_char := b\<rparr>) = xitems p" for a b
    by (simp_all add: xfer_wf_def xitems_def xcount_def)
  ultimately show ?thesis
    using assms e l by (auto simp: test_tx_chars_def WAKEUP_CHARS_def)
qed

section \<open>Properties\<close>

text \<open>
  One call of the transmitter: a pending control character goes first and alone; a
  stopped or empty port sends nothing; otherwise half the FIFO size, but at least one
  character, is taken from the front of the ring in order, the statistics count exactly what
  was sent, and the writers are woken exactly when fewer than 256 characters remain.
\<close>

theorem uart_tx_chars_sends:
  assumes "xfer_wf p"
  shows "case test_tx_chars p of (sent, wake, p') \<Rightarrow>
    xfer_wf p' \<and> icount_tx p' = icount_tx p + of_nat (length sent) \<and>
    (x_char p \<noteq> 0 \<longrightarrow> sent = [x_char p] \<and> x_char p' = 0 \<and> xitems p' = xitems p) \<and>
    (x_char p = 0 \<and> (tx_stopped p \<or> xitems p = []) \<longrightarrow> sent = [] \<and> p' = p) \<and>
    (x_char p = 0 \<and> \<not> tx_stopped p \<and> xitems p \<noteq> [] \<longrightarrow>
       sent = take (max 1 (unat (fifosize p) div 2)) (xitems p) \<and>
       xitems p' = drop (max 1 (unat (fifosize p) div 2)) (xitems p) \<and>
       wake = (length (xitems p') < 256))"
  using uart_tx_step [OF assms] by auto

definition port0 :: uart_port where
  "port0 = \<lparr>x_char = 0, icount_tx = 0, fifosize = 0, xbuf = replicate 4096 65, xhead = 1, xtail = 4094,
     tx_stopped = False, uartclk = 0\<rparr>"

lemma port0_facts: "xfer_wf port0" "xitems port0 = [65, 65, 65]"
  by (simp_all add: port0_def xfer_wf_def xitems_def xcount_def upt_rec)

theorem uart_tx_chars_sends_witness: "fst (test_tx_chars port0) = [65]"
  using uart_tx_chars_sends [OF port0_facts(1)] port0_facts(2)
  by (simp add: case_prod_beta) (simp add: port0_def)




end
