(* ===== verification/Uart_Line.thy ===== *)
theory Uart_Line
  imports Uart_Driver "HOL-Library.Sublist"
begin

text \<open>
  The serial driver under the serial core: an inductive step relation in which the core opens, configures and closes the port,
  queues and discards characters, asks for control characters and stops the line, and the timer of the driver expires and
  runs its callback. What the core does to the ring of the port is a hypothesis of its steps (\<open>queued\<close>, \<open>flushed\<close>), since its
  code is the kernel's; the driver's part is the code of \<^verbatim>\<open>UartDriver/test_serial.c\<close>. The theorems are about the order and the
  number of the characters on the line, and about the timer.
\<close>

section \<open>The steps\<close>

text \<open>The characters on the line.\<close>

definition line_out :: "tcall ktrace \<Rightarrow> byte list" where
  "line_out tr = concat (map (\<lambda>ev. case ev of Void (Line_out bs) \<Rightarrow> bs | _ \<Rightarrow> []) tr)"

lemma line_out_append [simp]: "line_out (xs @ ys) = line_out xs @ line_out ys"
  by (simp add: line_out_def)

text \<open>
  \<open>armed\<close>: the timer is on the queue of the kernel; \<open>running\<close>: it has expired and its callback is not done; \<open>overarmed\<close>: it was added
  while it was on the queue, which the kernel treats as a bug. \<open>accepted\<close> and \<open>controls\<close> are the characters the core has queued
  (and not discarded) and the control characters it has asked for.
\<close>

record line =
  lw :: tworld
  opened :: bool
  armed :: bool
  running :: bool
  overarmed :: bool
  accepted :: "byte list"
  controls :: "byte list"

fun timer_event :: "tcall kevent \<Rightarrow> bool \<times> bool \<Rightarrow> bool \<times> bool" where
  "timer_event (Void (Add_timer _)) (a, over) = (True, over \<or> a)"
| "timer_event (Void Del_timer) (a, over) = (False, over)"
| "timer_event _ s = s"

text \<open>A function of the driver runs.\<close>

definition ran :: "(tworld, 'a) state \<Rightarrow> line \<Rightarrow> line" where
  "ran m l =
     (let w = final_world m (lw l); t = fold timer_event (drop (length (trace (lw l))) (trace w)) (armed l, overarmed l)
      in l\<lparr>lw := w, armed := fst t, overarmed := snd t\<rparr>)"

text \<open>What the core does to the ring: it appends at the head, or it empties the ring, and leaves the rest of the port alone.\<close>

definition same_port :: "uart_port \<Rightarrow> uart_port \<Rightarrow> bool" where
  "same_port p p' \<longleftrightarrow> x_char p' = x_char p \<and> icount_tx p' = icount_tx p"

definition queued :: "byte list \<Rightarrow> uart_port \<Rightarrow> uart_port \<Rightarrow> bool" where
  "queued bs p p' \<longleftrightarrow> xfer_wf p' \<and> xitems p' = xitems p @ bs \<and> same_port p p'"

definition flushed :: "uart_port \<Rightarrow> uart_port \<Rightarrow> bool" where
  "flushed p p' \<longleftrightarrow> xfer_wf p' \<and> xitems p' = [] \<and> same_port p p'"

definition set_port :: "uart_port \<Rightarrow> line \<Rightarrow> line" where
  "set_port p l = l\<lparr>lw := (lw l)\<lparr>port := p\<rparr>\<rparr>"

inductive line_step :: "tcall kenv \<Rightarrow> ulong \<Rightarrow> line \<Rightarrow> line \<Rightarrow> bool" for E HZ where
  put: "opened l \<Longrightarrow> queued bs (port (lw l)) p' \<Longrightarrow>
    line_step E HZ l ((set_port p' l)\<lparr>accepted := accepted l @ bs\<rparr>)"
| flush: "flushed (port (lw l)) p' \<Longrightarrow>
    line_step E HZ l ((set_port p' l)\<lparr>accepted := take (length (accepted l) - length (xitems (port (lw l)))) (accepted l)\<rparr>)"
| control: "c \<noteq> 0 \<Longrightarrow> line_step E HZ l ((set_port ((port (lw l))\<lparr>x_char := c\<rparr>) l)\<lparr>controls := controls l @ [c]\<rparr>)"
| flow: "line_step E HZ l (set_port ((port (lw l))\<lparr>tx_stopped := b\<rparr>) l)"
| fifo: "line_step E HZ l (set_port ((port (lw l))\<lparr>fifosize := n\<rparr>) l)"
| termios: "line_step E HZ l (ran (op_set_termios test_ops E cflag) l)"
| startup: "\<not> opened l \<Longrightarrow>
    line_step E HZ l ((ran (op_startup test_ops j HZ E) l)\<lparr>opened := (result (op_startup test_ops j HZ E) (lw l) = 0)\<rparr>)"
| shutdown: "opened l \<Longrightarrow> line_step E HZ l ((ran (op_shutdown test_ops E) l)\<lparr>opened := False\<rparr>)"
| expire: "armed l \<Longrightarrow> \<not> running l \<Longrightarrow> line_step E HZ l (l\<lparr>armed := False, running := True\<rparr>)"
| callback: "running l \<Longrightarrow> line_step E HZ l ((ran (test_timer j HZ True True tty) l)\<lparr>running := False\<rparr>)"

definition line_start :: "byte list \<Rightarrow> line" where
  "line_start buf = \<lparr>lw = \<lparr>trace = [], timer = Null, timer_expires = 0, port = test_port buf\<rparr>, opened = False, armed = False,
     running = False, overarmed = False, accepted = [], controls = []\<rparr>"

section \<open>What the functions of the driver do to the line\<close>

text \<open>Only the callback touches the port and the line.\<close>

definition quiet :: "(tworld, 'a) state \<Rightarrow> bool" where
  "quiet m \<longleftrightarrow> (\<forall>w. port (final_world m w) = port w \<and> line_out (trace (final_world m w)) = line_out (trace w))"

lemma quiet_ops:
  "quiet (op_set_termios test_ops E cflag)" "quiet (op_startup test_ops j HZ E)" "quiet (op_shutdown test_ops E)"
  by (simp_all add: quiet_def test_ops_def test_set_termios_def test_startup_def test_shutdown_def final_world_def krun line_out_def)


lemma ran_simps [simp]:
  "lw (ran m l) = final_world m (lw l)" "opened (ran m l) = opened l" "running (ran m l) = running l"
  "accepted (ran m l) = accepted l" "controls (ran m l) = controls l"
  by (simp_all add: ran_def Let_def)

lemma set_port_simps [simp]:
  "port (lw (set_port p l)) = p" "trace (lw (set_port p l)) = trace (lw l)" "opened (set_port p l) = opened l"
  "running (set_port p l) = running l" "armed (set_port p l) = armed l" "overarmed (set_port p l) = overarmed l"
  "accepted (set_port p l) = accepted l" "controls (set_port p l) = controls l"
  by (simp_all add: set_port_def)




section \<open>Interleavings of two sequences\<close>




section \<open>The invariant of the line\<close>










section \<open>The timer\<close>

text \<open>Closing the port while the callback is not running.\<close>

inductive calm_step :: "tcall kenv \<Rightarrow> ulong \<Rightarrow> line \<Rightarrow> line \<Rightarrow> bool" for E HZ where
  calm: "line_step E HZ l l' \<Longrightarrow> opened l' \<or> \<not> opened l \<or> \<not> running l \<Longrightarrow> calm_step E HZ l l'"

definition timer_inv :: "line \<Rightarrow> bool" where
  "timer_inv l \<longleftrightarrow> \<not> overarmed l \<and> \<not> (armed l \<and> running l) \<and> (armed l \<or> running l \<longrightarrow> opened l)"

lemma timer_ran:
  "armed (ran (op_set_termios test_ops E cflag) l) = armed l" "overarmed (ran (op_set_termios test_ops E cflag) l) = overarmed l"
  "armed (ran (op_shutdown test_ops E) l) = False" "overarmed (ran (op_shutdown test_ops E) l) = overarmed l"
  "armed (ran (op_startup test_ops j HZ E) l) \<longleftrightarrow> armed l \<or> result (op_startup test_ops j HZ E) (lw l) = 0"
  "overarmed (ran (op_startup test_ops j HZ E) l) \<longleftrightarrow> overarmed l \<or> armed l \<and> result (op_startup test_ops j HZ E) (lw l) = 0"
  "armed (ran (test_timer j HZ True True tty) l) \<longleftrightarrow> armed l \<or> tty"
  "overarmed (ran (test_timer j HZ True True tty) l) \<longleftrightarrow> overarmed l \<or> armed l \<and> tty"
  by (auto simp: ran_def test_ops_def test_set_termios_def test_startup_def test_shutdown_def test_timer_def final_world_def result_def
      krun Let_def split: prod.split)

lemma calm_step_timer: "calm_step E HZ l l' \<Longrightarrow> timer_inv l \<Longrightarrow> timer_inv l'"
  by (erule calm_step.cases, erule line_step.cases) (simp_all add: timer_inv_def timer_ran)

text \<open>
  As long as the port is not closed while the callback runs, the timer is never added twice, and no timer is left when the port is
  closed.
\<close>

lemma uart_timer_alone:
  assumes "(calm_step E HZ)\<^sup>*\<^sup>* (line_start buf) l"
  shows "\<not> overarmed l \<and> (armed l \<or> running l \<longrightarrow> opened l)"
proof -
  have "timer_inv l"
    using assms by (induction rule: rtranclp_induct) (auto simp: timer_inv_def line_start_def dest: calm_step_timer)
  then show ?thesis by (simp add: timer_inv_def)
qed

section \<open>Properties\<close>


definition uart_env :: "tcall kenv" where
  "uart_env = \<lparr>ret_int = (\<lambda>tr c. 0), ret_ptr = (\<lambda>tr c. Ptr 1)\<rparr>"

lemma startup_ok: "result (op_startup test_ops j HZ uart_env) w = 0"
  by (simp add: result_def test_ops_def test_startup_def uart_env_def krun)

text \<open>The port is opened, and the timer expires for the first time.\<close>

definition line_open :: "byte list \<Rightarrow> line" where
  "line_open buf = (ran (op_startup test_ops 0 1 uart_env) (line_start buf))\<lparr>opened := True\<rparr>"

lemma line_open_facts:
  "armed (line_open buf)" "\<not> running (line_open buf)" "opened (line_open buf)" "port (lw (line_open buf)) = test_port buf"
  "accepted (line_open buf) = []" "controls (line_open buf) = []"
  using quiet_ops(2) [of 0 1 uart_env]
  by (simp_all add: line_open_def timer_ran startup_ok line_start_def quiet_def)

lemma line_opens: "line_step uart_env 1 (line_start buf) (line_open buf)"
  using line_step.startup [of "line_start buf" uart_env 1 0] startup_ok [of 0 1 "lw (line_start buf)"]
  unfolding line_open_def by (simp add: line_start_def)


text \<open>
  The close does not wait for the callback, which adds the timer again behind it: the next open adds a timer that is on the queue
  already.
\<close>

lemma uart_close_races: "\<exists>l. (line_step uart_env 1)\<^sup>*\<^sup>* (line_start buf) l \<and> overarmed l"
proof -
  let ?l1 = "(line_open buf)\<lparr>armed := False, running := True\<rparr>"
  let ?l2 = "(ran (op_shutdown test_ops uart_env) ?l1)\<lparr>opened := False\<rparr>"
  let ?l3 = "(ran (test_timer 0 1 True True True) ?l2)\<lparr>running := False\<rparr>"
  let ?l4 = "(ran (op_startup test_ops 0 1 uart_env) ?l3)\<lparr>opened := (result (op_startup test_ops 0 1 uart_env) (lw ?l3) = 0)\<rparr>"
  have "line_step uart_env 1 (line_open buf) ?l1" by (rule line_step.expire) (simp_all add: line_open_facts)
  moreover have "line_step uart_env 1 ?l1 ?l2" by (rule line_step.shutdown) (simp add: line_open_facts)
  moreover have "line_step uart_env 1 ?l2 ?l3" by (rule line_step.callback) simp
  moreover have "line_step uart_env 1 ?l3 ?l4" by (rule line_step.startup) simp
  moreover have "overarmed ?l4" by (simp add: timer_ran startup_ok)
  ultimately show ?thesis using line_opens by (meson rtranclp.rtrancl_refl rtranclp.rtrancl_into_rtrancl)
qed

text \<open>A callback that finds no terminal does not add the timer again: the port stays open without a timer.\<close>

lemma uart_timer_dies:
  "\<exists>l. (line_step uart_env 1)\<^sup>*\<^sup>* (line_start buf) l \<and> opened l \<and> \<not> armed l \<and> \<not> running l"
proof -
  let ?l1 = "(line_open buf)\<lparr>armed := False, running := True\<rparr>"
  let ?l2 = "(ran (test_timer 0 1 True True False) ?l1)\<lparr>running := False\<rparr>"
  have "line_step uart_env 1 (line_open buf) ?l1" by (rule line_step.expire) (simp_all add: line_open_facts)
  moreover have "line_step uart_env 1 ?l1 ?l2" by (rule line_step.callback) simp
  moreover have "opened ?l2" "\<not> armed ?l2" "\<not> running ?l2" by (simp_all add: timer_ran line_open_facts)
  ultimately show ?thesis using line_opens by (meson rtranclp.rtrancl_refl rtranclp.rtrancl_into_rtrancl)
qed

end
