(* ===== verification/Framebuffer.thy ===== *)
theory Framebuffer
  imports Kernel_Prelude
begin

text \<open>
  The frame-buffer driver \<^verbatim>\<open>Framebuffer/fbexample.c\<close>: checking a mode, programming the LCD
  controller, setting a palette entry, probing and removing. Device memory is a map from
  addresses to bytes, a register four of them; arithmetic is 32 bits wide as in the code.
\<close>

unbundle bit_operations_syntax

section \<open>Registers and mode\<close>

definition LCD_CONTROLLER_BASE :: u32 where "LCD_CONTROLLER_BASE = 0x01000D00"
definition LCD_CONTROLLER_SIZE :: u32 where "LCD_CONTROLLER_SIZE = 32"
definition SIZE_REG :: ulong where "SIZE_REG = ucast LCD_CONTROLLER_BASE"
definition HSYNC_REG :: ulong where "HSYNC_REG = ucast LCD_CONTROLLER_BASE + 4"
definition VSYNC_REG :: ulong where "VSYNC_REG = ucast LCD_CONTROLLER_BASE + 8"
definition CONF_REG :: ulong where "CONF_REG = ucast LCD_CONTROLLER_BASE + 12"
definition CTRL_REG :: ulong where "CTRL_REG = ucast LCD_CONTROLLER_BASE + 16"
definition DMA_REG :: ulong where "DMA_REG = ucast LCD_CONTROLLER_BASE + 20"
definition STATUS_REG :: ulong where "STATUS_REG = ucast LCD_CONTROLLER_BASE + 24"
definition CONTRAST_REG :: ulong where "CONTRAST_REG = ucast LCD_CONTROLLER_BASE + 28"

record fb_bitfield =
  fb_offset :: u32
  fb_length :: u32

record fb_var =
  xres :: u32
  yres :: u32
  xres_virtual :: u32
  xoffset :: u32
  yoffset :: u32
  bits_per_pixel :: u32
  hsync_len :: u32
  vsync_len :: u32
  left_margin :: u32
  right_margin :: u32
  upper_margin :: u32
  lower_margin :: u32
  red :: fb_bitfield
  green :: fb_bitfield
  blue :: fb_bitfield
  transp :: fb_bitfield

datatype fb_visual = FB_VISUAL_MONO | FB_VISUAL_TRUECOLOR | FB_VISUAL_OTHER nat

record fb_info =
  var :: fb_var
  smem_start :: ulong
  screen_base :: kptr
  line_length :: u32
  visual :: fb_visual
  accel_none :: bool
  pseudo_palette :: "u32 list"

type_synonym iomem = "ulong \<Rightarrow> byte"

text \<open>A 32-bit access to device memory: four bytes, the lowest first.\<close>

definition readl :: "iomem \<Rightarrow> ulong \<Rightarrow> u32" where
  "readl m a = ucast (m a) OR push_bit 8 (ucast (m (a + 1))) OR push_bit 16 (ucast (m (a + 2))) OR push_bit 24 (ucast (m (a + 3)))"

definition writel :: "u32 \<Rightarrow> ulong \<Rightarrow> iomem \<Rightarrow> iomem" where
  "writel v a m = m(a := ucast v, a + 1 := ucast (drop_bit 8 v), a + 2 := ucast (drop_bit 16 v), a + 3 := ucast (drop_bit 24 v))"

text \<open>
  \<^verbatim>\<open>__raw_writel(v, (unsigned long *)DMA_REG)\<close>: \<^verbatim>\<open>DMA_REG\<close> is already the content of the register, so
  the write goes to the address found in it.
\<close>

definition myfb_set_par :: "fb_info \<Rightarrow> iomem \<Rightarrow> int \<times> fb_info \<times> iomem" where
  "myfb_set_par info m =
     (let v = var info;
          m1 = writel (push_bit 16 (hsync_len v) OR push_bit 8 (left_margin v) OR right_margin v) HSYNC_REG m;
          m2 = writel (push_bit 16 (vsync_len v) OR push_bit 8 (upper_margin v) OR lower_margin v) VSYNC_REG m1;
          m3 = writel (push_bit 16 (xres v) OR yres v) SIZE_REG m2;
          start = smem_start info +
            ucast ((yoffset v * xres_virtual v + xoffset v) * bits_per_pixel v div 8);
          m4 = writel (ucast start) (ucast (readl m3 DMA_REG)) m3
      in (0, info\<lparr>accel_none := True, visual := FB_VISUAL_TRUECOLOR,
            line_length := xres_virtual v * bits_per_pixel v div 8\<rparr>, m4))"

definition rgb565 :: "fb_var \<Rightarrow> fb_var" where
  "rgb565 v = v\<lparr>red := \<lparr>fb_offset = 11, fb_length = 5\<rparr>, green := \<lparr>fb_offset = 5, fb_length = 6\<rparr>,
     blue := \<lparr>fb_offset = 0, fb_length = 5\<rparr>, transp := \<lparr>fb_offset = 0, fb_length = 0\<rparr>\<rparr>"

definition myfb_check_var :: "fb_var \<Rightarrow> int \<times> fb_var" where
  "myfb_check_var v =
     (let v1 = (if xres v < 64 then v\<lparr>xres := 64\<rparr> else v);
          v2 = (if yres v1 < 64 then v1\<lparr>yres := 64\<rparr> else v1);
          v3 = (if bits_per_pixel v2 = 16 then rgb565 v2 else v2)
      in (0, v3))"

datatype blank_mode = FB_BLANK_UNBLANK | FB_BLANK_NORMAL | FB_BLANK_VSYNC_SUSPEND
  | FB_BLANK_HSYNC_SUSPEND | FB_BLANK_POWERDOWN | Blank_other int

text \<open>The bodies of the two routines are comments: no register is written.\<close>

definition myfb_enable_controller :: "fb_info \<Rightarrow> iomem \<Rightarrow> iomem" where
  "myfb_enable_controller info m = m"

definition myfb_disable_controller :: "fb_info \<Rightarrow> iomem \<Rightarrow> iomem" where
  "myfb_disable_controller info m = m"

definition myfb_blank :: "blank_mode \<Rightarrow> fb_info \<Rightarrow> iomem \<Rightarrow> int \<times> iomem" where
  "myfb_blank mode info m = (case mode of
     FB_BLANK_POWERDOWN \<Rightarrow> (0, myfb_disable_controller info m)
   | FB_BLANK_VSYNC_SUSPEND \<Rightarrow> (0, myfb_disable_controller info m)
   | FB_BLANK_HSYNC_SUSPEND \<Rightarrow> (0, myfb_disable_controller info m)
   | FB_BLANK_NORMAL \<Rightarrow> (0, myfb_disable_controller info m)
   | FB_BLANK_UNBLANK \<Rightarrow> (0, myfb_enable_controller info m)
   | Blank_other _ \<Rightarrow> (0, m))"

text \<open>\<open>None\<close>: the palette is written outside its bounds.\<close>

definition myfb_setcolreg :: "u32 \<Rightarrow> u32 \<Rightarrow> u32 \<Rightarrow> u32 \<Rightarrow> u32 \<Rightarrow> fb_info \<Rightarrow> (int \<times> fb_info) option" where
  "myfb_setcolreg color_index r g b t info =
     (if visual info = FB_VISUAL_TRUECOLOR then
        (if unat color_index < length (pseudo_palette info) then
           Some (0, info\<lparr>pseudo_palette := (pseudo_palette info)[unat color_index :=
             push_bit (unat (fb_offset (red (var info)))) r OR push_bit (unat (fb_offset (green (var info)))) g OR
             push_bit (unat (fb_offset (blue (var info)))) b OR push_bit (unat (fb_offset (transp (var info)))) t]\<rparr>)
         else None)
      else Some (0, info))"

section \<open>Probe and remove\<close>

datatype fcall =
    Framebuffer_alloc
  | Platform_get_resource
  | Request_mem_region u32 u32
  | Release_mem_region u32 u32
  | Initialize_fb_info
  | Fb_alloc_cmap
  | Fb_dealloc_cmap
  | Dma_alloc_coherent
  | Dma_handle
  | Copy_from_user nat
  | Register_framebuffer kptr
  | Unregister_framebuffer kptr
  | Framebuffer_release kptr
  | Kfree_palette
  | Platform_device_add
  | Platform_device_unregister
  | Platform_driver_register
  | Platform_driver_unregister

record fworld = "fcall kworld" +
  drvdata :: kptr
  fbi :: fb_info
  io :: iomem

text \<open>The resource of the platform device: \<^verbatim>\<open>.start\<close> and \<^verbatim>\<open>.end\<close>.\<close>

definition myfb_resources :: "u32 \<times> u32" where
  "myfb_resources = (LCD_CONTROLLER_BASE, LCD_CONTROLLER_SIZE)"

definition region_len :: u32 where
  "region_len = snd myfb_resources - fst myfb_resources + 1"

text \<open>
  The ioctl copies four bytes from the user (the command number announces one) and does
  nothing with them yet.
\<close>

datatype fb_cmd = MYFB_SET_BRIGHTNESS | Fb_other nat

definition myfb_ioctl :: "fcall kenv \<Rightarrow> fb_cmd \<Rightarrow> (fworld, int) state" where
  "myfb_ioctl E cmd = (case cmd of
     MYFB_SET_BRIGHTNESS \<Rightarrow> do { _ \<leftarrow> kint E (Copy_from_user 4); ret 0 }
   | Fb_other _ \<Rightarrow> ret (- EINVAL))"

text \<open>
  \<open>init_info\<close> is \<^verbatim>\<open>initialize_fb_info\<close>, which the file does not define; \<^verbatim>\<open>dma_alloc_coherent\<close> answers with the address of the buffer
  and, through its third argument, with the address the hardware uses.
\<close>

definition myfb_probe :: "(fb_info \<Rightarrow> fb_info) \<Rightarrow> fcall kenv \<Rightarrow> (fworld, int) state" where
  "myfb_probe init_info E = do {
     info \<leftarrow> kptr_call E Framebuffer_alloc;
     r \<leftarrow> kptr_call E Platform_get_resource;
     q \<leftarrow> kptr_call E (Request_mem_region (fst myfb_resources) region_len);
     (if info = Null then koops ''info is NULL'' else ret ());
     modify (\<lambda>w. w\<lparr>fbi := init_info (fbi w)\<rparr>);
     c \<leftarrow> kint E Fb_alloc_cmap;
     s \<leftarrow> kptr_call E Dma_alloc_coherent;
     h \<leftarrow> kint E Dma_handle;
     modify (\<lambda>w. w\<lparr>fbi := (fbi w)\<lparr>screen_base := s, smem_start := word_of_int h\<rparr>\<rparr>);
     modify (\<lambda>w. case myfb_set_par (fbi w) (io w) of (_, i, m) \<Rightarrow> w\<lparr>fbi := i, io := m\<rparr>);
     g \<leftarrow> kint E (Register_framebuffer info);
     ret 0 }"

definition myfb_remove :: "fcall kenv \<Rightarrow> (fworld, int) state" where
  "myfb_remove E = do {
     info \<leftarrow> gets drvdata;
     modify (\<lambda>w. w\<lparr>io := myfb_disable_controller (fbi w) (io w)\<rparr>);
     kvoid (Unregister_framebuffer info);
     (if info = Null then koops ''info is NULL'' else ret ());
     kvoid Fb_dealloc_cmap;
     kvoid Kfree_palette;
     kvoid (Framebuffer_release info);
     r \<leftarrow> kptr_call E Platform_get_resource;
     kvoid (Release_mem_region (fst myfb_resources) region_len);
     modify (\<lambda>w. w\<lparr>drvdata := Null\<rparr>);
     ret 0 }"

definition myfb_init :: "fcall kenv \<Rightarrow> (fworld, int) state" where
  "myfb_init E = do { a \<leftarrow> kint E Platform_device_add; kint E Platform_driver_register }"

definition myfb_exit :: "(fworld, unit) state" where
  "myfb_exit = do { kvoid Platform_driver_unregister; kvoid Platform_device_unregister }"

section \<open>Packing\<close>

text \<open>The bits \<open>o\<close> to \<open>o + n - 1\<close> of a word.\<close>

definition field :: "nat \<Rightarrow> nat \<Rightarrow> u32 \<Rightarrow> u32" where
  "field off n x = take_bit n (drop_bit off x)"

lemma bit_small:
  assumes "(x :: u32) < 2 ^ n" and "n \<le> i"
  shows "\<not> bit x i"
  using assms less_mask_eq [of x n] by (metis bit_and_iff bit_mask_iff not_le)

text \<open>Three values in disjoint ranges can be read back.\<close>

lemma pack3:
  fixes a b c :: u32
  assumes "a < 2 ^ na" "b < 2 ^ nb" "c < 2 ^ nc" and "oc = 0" "nc \<le> ob" "ob + nb \<le> oa" "oa + na \<le> 32"
  shows "field oa na (push_bit oa a OR push_bit ob b OR c) = a \<and>
    field ob nb (push_bit oa a OR push_bit ob b OR c) = b \<and>
    field 0 nc (push_bit oa a OR push_bit ob b OR c) = c"
proof -
  have z: "i < na" if "bit a i" for i using bit_small [OF assms(1), of i] that by (meson not_le)
  have y: "i < nb" if "bit b i" for i using bit_small [OF assms(2), of i] that by (meson not_le)
  have x: "i < nc" if "bit c i" for i using bit_small [OF assms(3), of i] that by (meson not_le)
  have f: "bit (field oa na (push_bit oa a OR push_bit ob b OR c)) i = bit a i"
    "bit (field ob nb (push_bit oa a OR push_bit ob b OR c)) i = bit b i"
    "bit (field 0 nc (push_bit oa a OR push_bit ob b OR c)) i = bit c i" if "i < 32" for i
    using assms(4-7) that z [of i] y [of i] x [of i] y [of "oa + i - ob"] x [of "oa + i"] x [of "ob + i"]
    by (auto simp: field_def bit_simps)
  then show ?thesis by (auto intro!: bit_word_eqI)
qed

section \<open>Device memory\<close>

text \<open>The bytes of a 32-bit access; two accesses are apart when they share none.\<close>

definition bytes_at :: "ulong \<Rightarrow> ulong set" where
  "bytes_at a = {a, a + 1, a + 2, a + 3}"

definition apart :: "ulong \<Rightarrow> ulong \<Rightarrow> bool" where
  "apart a b \<longleftrightarrow> bytes_at a \<inter> bytes_at b = {}"

lemma readl_writel_same [simp]: "readl (writel v a m) a = v"
proof -
  have d: "a + 3 \<noteq> a" "a + 3 \<noteq> a + 1" "a + 3 \<noteq> a + 2" "a + 2 \<noteq> a" "a + 2 \<noteq> a + 1" "a + 1 \<noteq> a" by simp_all
  have "readl (writel v a m) a = ucast (ucast v :: byte) OR push_bit 8 (ucast (ucast (drop_bit 8 v) :: byte)) OR
      push_bit 16 (ucast (ucast (drop_bit 16 v) :: byte)) OR push_bit 24 (ucast (ucast (drop_bit 24 v) :: byte))"
    using d by (simp add: readl_def writel_def)
  also have "\<dots> = v"
  proof (rule bit_word_eqI)
    fix i
    assume "i < LENGTH(32)"
    then have "i < 8 \<or> 8 \<le> i \<and> i < 16 \<or> 16 \<le> i \<and> i < 24 \<or> 24 \<le> i \<and> i < 32" by auto
    then show "bit (ucast (ucast v :: byte) OR push_bit 8 (ucast (ucast (drop_bit 8 v) :: byte)) OR
      push_bit 16 (ucast (ucast (drop_bit 16 v) :: byte)) OR push_bit 24 (ucast (ucast (drop_bit 24 v) :: byte)) :: u32) i = bit v i"
      by (elim disjE) (auto simp: bit_simps)
  qed
  finally show ?thesis .
qed

lemma writel_elsewhere: "x \<notin> bytes_at b \<Longrightarrow> writel v b m x = m x"
  by (simp add: bytes_at_def writel_def)

lemma readl_writel_apart:
  assumes "apart a b"
  shows "readl (writel v b m) a = readl m a"
proof -
  have "x \<notin> bytes_at b" if "x \<in> bytes_at a" for x using assms that by (auto simp: apart_def)
  then have "writel v b m x = m x" if "x \<in> {a, a + 1, a + 2, a + 3}" for x
    using that writel_elsewhere by (simp add: bytes_at_def [of a])
  then show ?thesis by (simp add: readl_def)
qed

section \<open>Properties\<close>

lemmas lcd_regs = HSYNC_REG_def VSYNC_REG_def SIZE_REG_def DMA_REG_def LCD_CONTROLLER_BASE_def

lemma regs_apart:
  "apart HSYNC_REG VSYNC_REG" "apart HSYNC_REG SIZE_REG" "apart VSYNC_REG SIZE_REG"
  "apart DMA_REG HSYNC_REG" "apart DMA_REG VSYNC_REG" "apart DMA_REG SIZE_REG"
  by (simp_all add: apart_def bytes_at_def lcd_regs)

lemma fb_set_par_memory:
  assumes "myfb_set_par i m = (r, i', m')"
  shows "\<exists>m3. m' = writel (ucast (smem_start i + ucast ((yoffset (var i) * xres_virtual (var i) + xoffset (var i)) * bits_per_pixel (var i) div 8)))
      (ucast (readl m DMA_REG)) m3 \<and> r = 0 \<and> readl m3 DMA_REG = readl m DMA_REG \<and>
    readl m3 HSYNC_REG = push_bit 16 (hsync_len (var i)) OR push_bit 8 (left_margin (var i)) OR right_margin (var i) \<and>
    readl m3 VSYNC_REG = push_bit 16 (vsync_len (var i)) OR push_bit 8 (upper_margin (var i)) OR lower_margin (var i) \<and>
    readl m3 SIZE_REG = push_bit 16 (xres (var i)) OR yres (var i)"
  using assms by (auto simp: myfb_set_par_def Let_def readl_writel_apart regs_apart)

text \<open>
  C40. The timing registers hold what the comments promise: if the sync lengths and the
  resolution fit 16 bits and the margins fit 8, and if none of the four bytes at the address that the DMA register contains
  (where the driver writes the start of the screen, instead of into that register) belongs to a timing register, then every value can
  be read back from its place in its register.
\<close>

theorem fb_set_par_registers:
  assumes "hsync_len (var i) < 2 ^ 16" "left_margin (var i) < 2 ^ 8" "right_margin (var i) < 2 ^ 8"
    and "vsync_len (var i) < 2 ^ 16" "upper_margin (var i) < 2 ^ 8" "lower_margin (var i) < 2 ^ 8"
    and "xres (var i) < 2 ^ 16" "yres (var i) < 2 ^ 16"
    and "\<forall>a \<in> {HSYNC_REG, VSYNC_REG, SIZE_REG}. apart a (ucast (readl m DMA_REG))"
  shows "case myfb_set_par i m of (r, i', m') \<Rightarrow> r = 0 \<and>
    field 16 16 (readl m' HSYNC_REG) = hsync_len (var i) \<and> field 8 8 (readl m' HSYNC_REG) = left_margin (var i) \<and>
    field 0 8 (readl m' HSYNC_REG) = right_margin (var i) \<and>
    field 16 16 (readl m' VSYNC_REG) = vsync_len (var i) \<and> field 8 8 (readl m' VSYNC_REG) = upper_margin (var i) \<and>
    field 0 8 (readl m' VSYNC_REG) = lower_margin (var i) \<and>
    field 16 16 (readl m' SIZE_REG) = xres (var i) \<and> field 0 16 (readl m' SIZE_REG) = yres (var i)"
proof -
  note h = pack3 [OF assms(1-3), of 0 8 16]
  note v = pack3 [OF assms(4-6), of 0 8 16]
  have z: "(0 :: u32) < 2 ^ 0" by simp
  have x: "field 16 16 (push_bit 16 (xres (var i)) OR yres (var i)) = xres (var i) \<and>
      field 0 16 (push_bit 16 (xres (var i)) OR yres (var i)) = yres (var i)"
    using pack3 [OF assms(7) z assms(8), of 0 16 16] by simp
  obtain r i' m' where e: "myfb_set_par i m = (r, i', m')" by (metis surj_pair)
  show ?thesis
    using fb_set_par_memory [OF e] assms(9) h v x by (auto simp: e readl_writel_apart)
qed

text \<open>
  The DMA register is not programmed: the start address of the screen is written to the
  address the register contains, and the register itself keeps its value unless that write touches it.
\<close>

theorem fb_dma_misdirected:
  assumes "apart DMA_REG (ucast (readl m DMA_REG))"
  shows "case myfb_set_par i m of (r, i', m') \<Rightarrow> readl m' DMA_REG = readl m DMA_REG \<and>
    readl m' (ucast (readl m DMA_REG)) = ucast (smem_start i +
      ucast ((yoffset (var i) * xres_virtual (var i) + xoffset (var i)) * bits_per_pixel (var i) div 8))"
proof -
  obtain r i' m' where e: "myfb_set_par i m = (r, i', m')" by (metis surj_pair)
  show ?thesis
    using fb_set_par_memory [OF e] assms by (auto simp: e readl_writel_apart)
qed

text \<open>
  Colours survive the palette: after a 16-bit mode was checked, setting an entry inside the
  palette of a true-colour screen stores the three components so that each can be read back
  from its field of the RGB565 format; an entry outside the palette is written out of
  bounds.
\<close>

theorem fb_palette_roundtrip:
  assumes "bits_per_pixel v = 16" and "var i = snd (myfb_check_var v)" and "visual i = FB_VISUAL_TRUECOLOR"
    and "r < 2 ^ 5" "g < 2 ^ 6" "b < 2 ^ 5"
  shows "(unat n < length (pseudo_palette i) \<longrightarrow> (\<exists>i'. myfb_setcolreg n r g b 0 i = Some (0, i') \<and>
      (let p = pseudo_palette i' ! unat n in
       field 11 5 p = r \<and> field 5 6 p = g \<and> field 0 5 p = b \<and> p < 2 ^ 16))) \<and>
    (length (pseudo_palette i) \<le> unat n \<longrightarrow> myfb_setcolreg n r g b 0 i = None)"
proof -
  have off: "fb_offset (red (var i)) = 11" "fb_offset (green (var i)) = 5" "fb_offset (blue (var i)) = 0"
    "fb_offset (transp (var i)) = 0"
    using assms(1,2) by (simp_all add: myfb_check_var_def rgb565_def Let_def)
  let ?p = "push_bit 11 r OR push_bit 5 g OR b"
  have fields: "field 11 5 ?p = r \<and> field 5 6 ?p = g \<and> field 0 5 ?p = b"
    using pack3 [OF assms(4-6), of 0 5 11] by simp
  have nb: "\<not> bit ?p k" if "16 \<le> k" for k
    using that bit_small [OF assms(4), of "k - 11"] bit_small [OF assms(5), of "k - 5"] bit_small [OF assms(6), of k]
    by (auto simp: bit_simps)
  have "take_bit 16 ?p = ?p" by (rule bit_word_eqI) (metis nb bit_take_bit_iff not_le)
  then have "?p AND mask 16 = ?p" by (simp only: take_bit_eq_mask)
  then have "?p < 2 ^ 16" using mask_eq_iff_w2p [of 16 ?p] by (simp add: word_size)
  then show ?thesis
    using assms(3) off fields by (auto simp: myfb_setcolreg_def Let_def)
qed

definition var0 :: fb_var where
  "var0 = \<lparr>xres = 320, yres = 240, xres_virtual = 320, xoffset = 0, yoffset = 2, bits_per_pixel = 16,
     hsync_len = 10, vsync_len = 2, left_margin = 20, right_margin = 30, upper_margin = 7, lower_margin = 9,
     red = \<lparr>fb_offset = 0, fb_length = 0\<rparr>, green = \<lparr>fb_offset = 0, fb_length = 0\<rparr>,
     blue = \<lparr>fb_offset = 0, fb_length = 0\<rparr>, transp = \<lparr>fb_offset = 0, fb_length = 0\<rparr>\<rparr>"

definition info0 :: fb_info where
  "info0 = \<lparr>var = snd (myfb_check_var var0), smem_start = 0x30000000, screen_base = Null, line_length = 0,
     visual = FB_VISUAL_TRUECOLOR, accel_none = False, pseudo_palette = replicate 16 0\<rparr>"

lemma zero_memory: "readl (\<lambda>_. 0) a = 0"
  by (simp add: readl_def)

theorem fb_set_par_registers_witness:
  "case myfb_set_par info0 (\<lambda>_. 0) of (r, i', m') \<Rightarrow> field 16 16 (readl m' HSYNC_REG) = 10 \<and> field 0 16 (readl m' SIZE_REG) = 240"
proof -
  have "\<forall>a \<in> {HSYNC_REG, VSYNC_REG, SIZE_REG}. apart a (ucast (readl (\<lambda>_. 0) DMA_REG))"
    by (simp add: zero_memory apart_def bytes_at_def lcd_regs)
  then show ?thesis
    using fb_set_par_registers [of info0 "\<lambda>_. 0"]
    by (simp add: info0_def var0_def myfb_check_var_def rgb565_def Let_def case_prod_beta)
qed

theorem fb_dma_misdirected_witness:
  "case myfb_set_par info0 (\<lambda>_. 0) of (r, i', m') \<Rightarrow> readl m' DMA_REG = 0 \<and> readl m' 0 = 0x30000500"
proof -
  have "apart DMA_REG (ucast (readl (\<lambda>_. 0) DMA_REG))"
    by (simp add: zero_memory apart_def bytes_at_def lcd_regs)
  then show ?thesis
    using fb_dma_misdirected [of "\<lambda>_. 0" info0]
    by (simp add: zero_memory info0_def var0_def myfb_check_var_def rgb565_def Let_def)
qed

theorem fb_palette_roundtrip_witness:
  "\<exists>i'. myfb_setcolreg 3 31 63 1 0 info0 = Some (0, i') \<and> field 5 6 (pseudo_palette i' ! 3) = 63"
  using fb_palette_roundtrip [of var0 info0 31 63 1 3]
  by (auto simp: info0_def var0_def myfb_check_var_def rgb565_def Let_def)

text \<open>The region requested does not have the size of the controller: its length wraps around.\<close>

lemma fb_region_len: "region_len \<noteq> LCD_CONTROLLER_SIZE"
  by (simp add: region_len_def myfb_resources_def LCD_CONTROLLER_BASE_def LCD_CONTROLLER_SIZE_def)

text \<open>The probe never stores its structure, so a remove after it finds no structure.\<close>

lemma fb_remove_faults:
  assumes "drvdata w = Null"
  shows "\<not> never_faults (trace (final_world (myfb_remove E) (final_world (myfb_probe f E) w)))"
  using assms by (simp add: myfb_remove_def myfb_probe_def final_world_def krun case_prod_beta)

end
