(* ===== verification/Signal_Module.thy ===== *)
theory Signal_Module
  imports Char_Module
begin

text \<open>
  The signal exercise \<^verbatim>\<open>Signal/signal1.c\<close>: a process registers itself with an ioctl, and every
  read of the device sends it a signal. \<open>registered\<close> is the specification of who
  receives signals after a sequence of operations; the handlers implement it.
\<close>

record gworld = cworld +
  task :: kptr
  signum :: int

definition SIGTEST :: int where
  "SIGTEST = 44"

text \<open>\<open>current\<close> is the calling process (\<^verbatim>\<open>get_current()\<close>).\<close>

definition sig_open :: "(gworld, int) state" where
  "sig_open = do { kvoid (Printk ''Device File Opened...!!!''); ret 0 }"

text \<open>
  There is no lock: what a handler has tested can have changed when it acts on it. Each stretch between two accesses to
  \<^verbatim>\<open>task\<close> is a definition of its own, and the handlers are their sequences.
\<close>

definition release_test :: "kptr \<Rightarrow> (gworld, bool) state" where
  "release_test current = do {
     kvoid (Printk ''Device File Closed...!!!'');
     t \<leftarrow> gets task;
     ret (current = t) }"

definition release_clear :: "(gworld, unit) state" where
  "release_clear = modify (\<lambda>w. w\<lparr>task := Null\<rparr>)"

definition sig_release :: "kptr \<Rightarrow> (gworld, int) state" where
  "sig_release current = do {
     hit \<leftarrow> release_test current;
     (if hit then release_clear else ret ());
     ret 0 }"

text \<open>\<^verbatim>\<open>send_sig_info\<close> uses the task it is given without a test.\<close>

definition read_test :: "(gworld, bool) state" where
  "read_test = do {
     kvoid (Printk ''Read Function'');
     t \<leftarrow> gets task;
     ret (t \<noteq> Null) }"

definition read_load :: "(gworld, kptr) state" where
  "read_load = do { kvoid (Printk ''Sending signal to app''); gets task }"

definition read_send :: "ccall kenv \<Rightarrow> kptr \<Rightarrow> (gworld, unit) state" where
  "read_send E t =
     (if t = Null then koops ''send_sig_info(NULL)''
      else do {
        r \<leftarrow> kint E (Send_sig_info t);
        (if r < 0 then kvoid (Printk ''Unable to send signal'') else ret ()) })"

definition sig_read :: "ccall kenv \<Rightarrow> (gworld, int) state" where
  "sig_read E = do {
     hit \<leftarrow> read_test;
     (if hit then do { t \<leftarrow> read_load; read_send E t } else ret ());
     ret 0 }"

definition sig_write :: "nat \<Rightarrow> (gworld, int) state" where
  "sig_write len = do { kvoid (Printk ''Write function''); ret 0 }"

definition sig_ioctl :: "kptr \<Rightarrow> bool \<Rightarrow> (gworld, int) state" where
  "sig_ioctl current is_reg =
     (if is_reg then do {
        kvoid (Printk ''REG_CURRENT_TASK'');
        modify (\<lambda>w. w\<lparr>task := current\<rparr>);
        modify (\<lambda>w. w\<lparr>signum := SIGTEST\<rparr>);
        ret 0 }
      else ret 0)"

definition signal1_init :: "ccall kenv \<Rightarrow> (gworld, int) state" where
  "signal1_init E = chr_init E ''test_Dev'' ''test_class'' ''test_device'' r_class_keep (ret 0)"

definition signal1_exit :: "ccall kenv \<Rightarrow> (gworld, unit) state" where
  "signal1_exit E = chr_exit"

section \<open>Load and unload\<close>

lemma signal1_init_acquires:
  assumes "no_err_ptr E" and "run_state (signal1_init E) w = (0, w')"
  shows "c_ledger (trace w') = (c_ledger (trace w))\<lparr>owned := owned (c_ledger (trace w)) + chr_held w'\<rparr>"
proof -
  have neg: "result r_class_keep v \<noteq> 0" for v :: gworld
    by (simp add: result_def r_class_keep_def unregister_region_def krun)
  show ?thesis
    using chr_init_reaches_rest [OF assms(2) [unfolded signal1_init_def] neg] assms(1) by auto
qed

lemma chr_exit_releases:
  assumes "owned (c_ledger (trace w)) = M + chr_held w"
  shows "c_ledger (trace (final_world chr_exit w)) = (c_ledger (trace w))\<lparr>owned := M\<rparr>"
proof -
  obtain B where "c_ledger (trace w) = \<lparr>owned = M + chr_held w, misused = B\<rparr>"
    using ledger_cases [OF assms] by blast
  then show ?thesis
    by (simp add: chr_exit_def final_world_def krun ledger_of_append tables chr_held_def)
qed

section \<open>Who receives the signals\<close>

datatype sig_op = Op_open kptr | Op_release kptr | Op_reg kptr | Op_read kptr | Op_write kptr nat

definition sig_do :: "ccall kenv \<Rightarrow> sig_op \<Rightarrow> (gworld, int) state" where
  "sig_do E op = (case op of
     Op_open p \<Rightarrow> sig_open
   | Op_release p \<Rightarrow> sig_release p
   | Op_reg p \<Rightarrow> sig_ioctl p True
   | Op_read p \<Rightarrow> sig_read E
   | Op_write p n \<Rightarrow> sig_write n)"

definition sig_run :: "ccall kenv \<Rightarrow> sig_op list \<Rightarrow> gworld \<Rightarrow> gworld" where
  "sig_run E ops w = fold (\<lambda>op. final_world (sig_do E op)) ops w"

text \<open>The calls that can happen, an ioctl with another number included.\<close>

definition signal1_calls :: "(gworld, int) state set" where
  "signal1_calls = {sig_do E op | E op. True} \<union> range (\<lambda>p. sig_ioctl p False)"

lemmas stretches = release_test_def release_clear_def read_test_def read_load_def read_send_def

lemmas sig_code = sig_do_def sig_open_def sig_release_def sig_ioctl_def sig_read_def sig_write_def stretches

interpretation signal1m: served_module signal1_init signal1_exit c_acq c_rel chr_held no_err_ptr signal1_calls
proof (unfold_locales, goal_cases)
  case (2 w M E)
  then show ?case unfolding signal1_exit_def by (rule chr_exit_releases)
next
  case (3 m)
  then show ?case
    by (auto simp: signal1_calls_def keeps_def sig_code chr_held_def final_world_def krun ledger_of_append tables
        split: sig_op.split)
qed (rule signal1_init_acquires)

text \<open>Specification: the last process that registered and has not closed the device since.\<close>

definition next_reg :: "sig_op \<Rightarrow> kptr \<Rightarrow> kptr" where
  "next_reg op t = (case op of Op_reg p \<Rightarrow> p | Op_release p \<Rightarrow> if p = t then Null else t | _ \<Rightarrow> t)"

definition registered :: "sig_op list \<Rightarrow> kptr" where
  "registered ops = fold next_reg ops Null"

definition targets :: "ccall ktrace \<Rightarrow> kptr list" where
  "targets tr = concat (map (\<lambda>ev. case ev of RetI (Send_sig_info p) _ \<Rightarrow> [p] | _ \<Rightarrow> []) tr)"

text \<open>The receivers of the signals: one for each read while somebody is registered.\<close>

definition sent_now :: "sig_op \<Rightarrow> kptr \<Rightarrow> kptr list" where
  "sent_now op t = (case op of Op_read _ \<Rightarrow> if t = Null then [] else [t] | _ \<Rightarrow> [])"

fun sent_from :: "kptr \<Rightarrow> sig_op list \<Rightarrow> kptr list" where
  "sent_from t [] = []"
| "sent_from t (op # ops) = sent_now op t @ sent_from (next_reg op t) ops"

lemma targets_append [simp]: "targets (xs @ ys) = targets xs @ targets ys"
  by (simp add: targets_def)

lemma sig_do_step:
  "task (final_world (sig_do E op) w) = next_reg op (task w) \<and>
   targets (trace (final_world (sig_do E op) w)) = targets (trace w) @ sent_now op (task w)"
  by (cases op) (simp_all add: next_reg_def sent_now_def sig_code final_world_def krun targets_def)

lemma sig_run_sends:
  "task (sig_run E ops w) = fold next_reg ops (task w) \<and>
   targets (trace (sig_run E ops w)) = targets (trace w) @ sent_from (task w) ops"
proof (induction ops arbitrary: w)
  case (Cons op ops)
  then show ?case
    using sig_do_step [of E op w] by (simp add: sig_run_def)
qed (simp add: sig_run_def)

text \<open>
  C26. The handlers implement the specification: after any sequence of operations by any
  processes on a freshly loaded device, the stored task is the registered one, and the
  signals sent are, in order, one for each read, to the process registered at that moment,
  and none while nobody is registered.
\<close>

theorem signal1_targets_registered:
  assumes "task w = Null"
  shows "task (sig_run E ops w) = registered ops \<and>
    targets (trace (sig_run E ops w)) = targets (trace w) @ sent_from Null ops"
  using sig_run_sends [of E ops w] assms by (simp add: registered_def)

theorem signal1_targets_registered_witness:
  "targets (trace (sig_run \<lparr>ret_int = \<lambda>_ _. 0, ret_ptr = \<lambda>_ _. Null\<rparr>
     [Op_read (Ptr 1), Op_reg (Ptr 2), Op_read (Ptr 1), Op_release (Ptr 3), Op_read (Ptr 3),
      Op_release (Ptr 2), Op_read (Ptr 1)]
     \<lparr>trace = [], dev = 0, dev_class = Null, test_thread1 = Null, test_thread2 = Null,
      parent = Null, kobj_ref = Null, task = Null, signum = 0\<rparr>)) = [Ptr 2, Ptr 2]"
proof -
  let ?w = "\<lparr>trace = [], dev = 0, dev_class = Null, test_thread1 = Null, test_thread2 = Null,
      parent = Null, kobj_ref = Null, task = Null, signum = 0\<rparr> :: gworld"
  let ?ops = "[Op_read (Ptr 1), Op_reg (Ptr 2), Op_read (Ptr 1), Op_release (Ptr 3), Op_read (Ptr 3),
      Op_release (Ptr 2), Op_read (Ptr 1)]"
  have "sent_from Null ?ops = [Ptr 2, Ptr 2]" by code_simp
  moreover have "task ?w = Null" "targets (trace ?w) = []" by (simp_all add: targets_def)
  ultimately show ?thesis
    using signal1_targets_registered [of ?w "\<lparr>ret_int = \<lambda>_ _. 0, ret_ptr = \<lambda>_ _. Null\<rparr>" ?ops] by simp
qed

section \<open>Calls in progress\<close>

text \<open>
  Where a process is inside a handler: outside, before \<^verbatim>\<open>task = NULL\<close>, before the argument of \<^verbatim>\<open>send_sig_info\<close> is loaded, or
  before the call with the loaded task. \<open>begin_op\<close> enters a handler and runs its first stretch, \<open>continue_op\<close> runs the next one.
\<close>

datatype handler_pc = Out | Release_hit | Read_hit | Read_arg kptr

definition begin_op :: "sig_op \<Rightarrow> (gworld, handler_pc) state" where
  "begin_op op = (case op of
     Op_open p \<Rightarrow> do { r \<leftarrow> sig_open; ret Out }
   | Op_release p \<Rightarrow> do { hit \<leftarrow> release_test p; ret (if hit then Release_hit else Out) }
   | Op_reg p \<Rightarrow> do { r \<leftarrow> sig_ioctl p True; ret Out }
   | Op_read p \<Rightarrow> do { hit \<leftarrow> read_test; ret (if hit then Read_hit else Out) }
   | Op_write p n \<Rightarrow> do { r \<leftarrow> sig_write n; ret Out })"

definition continue_op :: "ccall kenv \<Rightarrow> handler_pc \<Rightarrow> (gworld, handler_pc) state" where
  "continue_op E h = (case h of
     Out \<Rightarrow> ret Out
   | Release_hit \<Rightarrow> do { release_clear; ret Out }
   | Read_hit \<Rightarrow> do { t \<leftarrow> read_load; ret (Read_arg t) }
   | Read_arg t \<Rightarrow> do { read_send E t; ret Out })"

text \<open>A handler that is not interrupted is its stretches one after the other.\<close>

lemma sig_do_uninterrupted:
  "run_state (do { h0 \<leftarrow> begin_op op; h1 \<leftarrow> continue_op E h0; continue_op E h1 }) w =
     (Out, final_world (sig_do E op) w)"
  by (cases op) (simp_all add: begin_op_def continue_op_def sig_code final_world_def krun)

text \<open>What one stretch does to the registration and to the signals sent.\<close>

lemma begin_op_effect:
  "task (final_world (begin_op op) w) = (case op of Op_reg p \<Rightarrow> p | _ \<Rightarrow> task w)"
  "targets (trace (final_world (begin_op op) w)) = targets (trace w)"
  by (cases op; simp add: begin_op_def sig_code final_world_def krun targets_def)+

lemma begin_op_enters:
  "result (begin_op op) w =
     (case op of Op_release p \<Rightarrow> if p = task w then Release_hit else Out
      | Op_read p \<Rightarrow> if task w = Null then Out else Read_hit | _ \<Rightarrow> Out)"
  by (cases op; simp add: begin_op_def sig_code result_def krun)

lemma continue_op_effect:
  "task (final_world (continue_op E h) w) = (if h = Release_hit then Null else task w)"
  "targets (trace (final_world (continue_op E h) w)) =
     targets (trace w) @ (case h of Read_arg t \<Rightarrow> if t = Null then [] else [t] | _ \<Rightarrow> [])"
  "result (continue_op E h) w = (if h = Read_hit then Read_arg (task w) else Out)"
  by (cases h; simp add: continue_op_def sig_code final_world_def result_def krun targets_def)+

end
