(* ===== verification/Signal_App.thy ===== *)
theory Signal_App
  imports Signal_Module
begin

text \<open>
  The user program \<^verbatim>\<open>Signal/signal1_userspace/sig1usr.c\<close> running on the device of \<^verbatim>\<open>Signal/signal1.c\<close>. Any number of
  processes are inside the handlers at the same time, each at its own stretch (\<open>handler_pc\<close>); the two signal handlers of the
  program run between any two of its statements, but not while it is inside a system call. \<^verbatim>\<open>SIGTEST\<close> is a real-time signal: the
  kernel queues every one that \<^verbatim>\<open>send_sig_info\<close> accepts.
\<close>

section \<open>The program\<close>

text \<open>
  \<open>Start\<close>, \<open>Int_set\<close>, \<open>Both_set\<close>: before the first and the second \<^verbatim>\<open>sigaction\<close> and before the open; \<open>Opened\<close>, \<open>Registered\<close>: before
  the ioctl and before the read; \<open>Reading\<close>: inside the read; \<open>Outer\<close>: at \<^verbatim>\<open>while(!done)\<close>; \<open>Spin\<close>: at a test of the blocking check;
  \<open>Looping\<close>: in its empty body; \<open>Clear\<close>: at \<^verbatim>\<open>check = 0\<close>; \<open>Closing\<close>, \<open>Releasing\<close>: before and inside the close; \<open>Killed\<close>: the kernel
  closes what a killed process has open.
\<close>

datatype app_pc = Start | Int_set | Both_set | Opened | Registered | Reading | Outer | Spin | Looping | Clear | Closing | Releasing | Killed | Ended

record app =
  dev_world :: gworld
  in_call :: "kptr \<Rightarrow> handler_pc"
  apc :: app_pc
  app_done :: bool
  check :: int
  int_handler :: bool
  sig_handler :: bool
  delivered :: nat
  out :: "string list"

definition print :: "string \<Rightarrow> app \<Rightarrow> app" where
  "print msg s = s\<lparr>out := out s @ [msg]\<rparr>"

definition ctrl_c_handler :: "app \<Rightarrow> app" where
  "ctrl_c_handler s = (print ''recieved ctrl-c'' s)\<lparr>app_done := True\<rparr>"

definition sig_event_handler :: "int \<Rightarrow> app \<Rightarrow> app" where
  "sig_event_handler si_int s = print ''Received signal from kernel : Value'' (s\<lparr>check := si_int\<rparr>)"

text \<open>A process makes one call at a time.\<close>

definition op_process :: "sig_op \<Rightarrow> kptr" where
  "op_process op = (case op of Op_open q \<Rightarrow> q | Op_release q \<Rightarrow> q | Op_reg q \<Rightarrow> q | Op_read q \<Rightarrow> q | Op_write q _ \<Rightarrow> q)"

definition start_call :: "sig_op \<Rightarrow> app \<Rightarrow> app" where
  "start_call op s =
     (if in_call s (op_process op) = Out
      then s\<lparr>dev_world := final_world (begin_op op) (dev_world s),
             in_call := (in_call s)(op_process op := result (begin_op op) (dev_world s))\<rparr>
      else s)"

definition continue_call :: "ccall kenv \<Rightarrow> kptr \<Rightarrow> app \<Rightarrow> app" where
  "continue_call E q s =
     s\<lparr>dev_world := final_world (continue_op E (in_call s q)) (dev_world s),
       in_call := (in_call s)(q := result (continue_op E (in_call s q)) (dev_world s))\<rparr>"

text \<open>
  \<open>fd\<close> is what \<^verbatim>\<open>open\<close> returns, \<open>p\<close> the process that runs the program. \<^verbatim>\<open>done\<close> and \<^verbatim>\<open>check\<close> are plain integers and the body of the
  blocking check is empty, so the compiled loop may load them once: \<open>reread\<close> says whether the program was compiled to load them in
  every round. The other statements are separated by library calls.
\<close>

definition app_main :: "bool \<Rightarrow> ccall kenv \<Rightarrow> int \<Rightarrow> kptr \<Rightarrow> app \<Rightarrow> app" where
  "app_main reread E fd p s =
     (case apc s of
        Start \<Rightarrow> s\<lparr>int_handler := True, apc := Int_set\<rparr>
      | Int_set \<Rightarrow> print ''Opening Driver'' (print ''Installed signal handler for SIGTEST'' (s\<lparr>sig_handler := True, apc := Both_set\<rparr>))
      | Both_set \<Rightarrow>
          if fd < 0 then (print ''Cannot open device file...'' s)\<lparr>apc := Ended\<rparr>
          else (start_call (Op_open p) s)\<lparr>apc := Opened\<rparr>
      | Opened \<Rightarrow>
          (let r = result (sig_ioctl p True) (dev_world s);
               s1 = start_call (Op_reg p) (print ''Registering application ...'' s) in
           if r \<noteq> 0 then (start_call (Op_release p) (print ''Failed'' s1))\<lparr>apc := Releasing\<rparr>
           else (print ''Done!!!'' s1)\<lparr>apc := Registered\<rparr>)
      | Registered \<Rightarrow> (start_call (Op_read p) s)\<lparr>apc := Reading\<rparr>
      | Reading \<Rightarrow> if in_call s p = Out then s\<lparr>apc := Outer\<rparr> else continue_call E p s
      | Outer \<Rightarrow> if app_done s then s\<lparr>apc := Closing\<rparr> else (print ''Waiting for signal...'' s)\<lparr>apc := Spin\<rparr>
      | Spin \<Rightarrow> if \<not> app_done s \<and> check s = 0 then s\<lparr>apc := Looping\<rparr> else s\<lparr>apc := Clear\<rparr>
      | Looping \<Rightarrow> if reread then s\<lparr>apc := Spin\<rparr> else s
      | Clear \<Rightarrow> s\<lparr>check := 0, apc := Outer\<rparr>
      | Closing \<Rightarrow> (start_call (Op_release p) (print ''Closing Driver'' s))\<lparr>apc := Releasing\<rparr>
      | Releasing \<Rightarrow> if in_call s p = Out then s\<lparr>apc := Ended\<rparr> else continue_call E p s
      | Killed \<Rightarrow> if in_call s p = Out then s\<lparr>apc := Ended\<rparr> else continue_call E p s
      | Ended \<Rightarrow> s)"

section \<open>Signals and other processes\<close>

text \<open>The signals the kernel has accepted for a process; the driver sets \<^verbatim>\<open>si_int\<close> to 1.\<close>

definition arrived :: "kptr \<Rightarrow> ccall ktrace \<Rightarrow> nat" where
  "arrived p tr = length (filter (\<lambda>ev. case ev of RetI (Send_sig_info q) r \<Rightarrow> q = p \<and> 0 \<le> r | _ \<Rightarrow> False) tr)"

text \<open>A signal without a handler ends the process, and the kernel closes what the process has open.\<close>

definition kill :: "kptr \<Rightarrow> app \<Rightarrow> app" where
  "kill p s =
     (if apc s \<in> {Start, Int_set, Both_set, Releasing} then s\<lparr>apc := Ended\<rparr>
      else (start_call (Op_release p) s)\<lparr>apc := Killed\<rparr>)"

definition in_user_mode :: "kptr \<Rightarrow> app \<Rightarrow> bool" where
  "in_user_mode p s \<longleftrightarrow> in_call s p = Out \<and> apc s \<noteq> Killed \<and> apc s \<noteq> Ended"

definition deliver :: "kptr \<Rightarrow> app \<Rightarrow> app" where
  "deliver p s =
     (if in_user_mode p s \<and> delivered s < arrived p (trace (dev_world s))
      then if sig_handler s then sig_event_handler 1 (s\<lparr>delivered := Suc (delivered s)\<rparr>) else kill p s
      else s)"

text \<open>The handler of \<^verbatim>\<open>SIGINT\<close> is installed with \<^verbatim>\<open>SA_RESETHAND\<close>: it runs once.\<close>

definition interrupt :: "kptr \<Rightarrow> app \<Rightarrow> app" where
  "interrupt p s =
     (if in_user_mode p s
      then if int_handler s then ctrl_c_handler (s\<lparr>int_handler := False\<rparr>) else kill p s
      else s)"

text \<open>\<open>Other\<close> and \<open>Goes_on\<close>: another process enters a handler, or runs its next stretch.\<close>

datatype app_event = Run | Deliver | Ctrl_C | Other sig_op | Goes_on kptr

fun app_step :: "bool \<Rightarrow> ccall kenv \<Rightarrow> int \<Rightarrow> kptr \<Rightarrow> app_event \<Rightarrow> app \<Rightarrow> app" where
  "app_step reread E fd p Run s = app_main reread E fd p s"
| "app_step reread E fd p Deliver s = deliver p s"
| "app_step reread E fd p Ctrl_C s = interrupt p s"
| "app_step reread E fd p (Other op) s = start_call op s"
| "app_step reread E fd p (Goes_on q) s = continue_call E q s"

definition app_run :: "bool \<Rightarrow> ccall kenv \<Rightarrow> int \<Rightarrow> kptr \<Rightarrow> app_event list \<Rightarrow> app \<Rightarrow> app" where
  "app_run reread E fd p evs s = fold (app_step reread E fd p) evs s"

text \<open>Only finitely many processes are inside a call.\<close>

definition few :: "(kptr \<Rightarrow> handler_pc) \<Rightarrow> bool" where
  "few c \<longleftrightarrow> finite {q. c q \<noteq> Out}"

text \<open>The program starts in the middle of what the others do (\<open>c\<close>); as a new process it is unknown to the device.\<close>

definition app_start :: "kptr \<Rightarrow> gworld \<Rightarrow> (kptr \<Rightarrow> handler_pc) \<Rightarrow> app" where
  "app_start p w c = \<lparr>dev_world = w, in_call = c, apc = Start, app_done = False, check = 0, int_handler = False, sig_handler = False,
     delivered = arrived p (trace w), out = []\<rparr>"

definition fresh :: "kptr \<Rightarrow> gworld \<Rightarrow> (kptr \<Rightarrow> handler_pc) \<Rightarrow> bool" where
  "fresh p w c \<longleftrightarrow> p \<noteq> Null \<and> task w \<noteq> p \<and> c p = Out \<and> (\<forall>q. c q \<noteq> Read_arg p) \<and> few c"

text \<open>The other processes are others.\<close>

definition others :: "kptr \<Rightarrow> app_event list \<Rightarrow> bool" where
  "others p evs \<longleftrightarrow> (\<forall>op. Other op \<in> set evs \<longrightarrow> op_process op \<noteq> p) \<and> Goes_on p \<notin> set evs"

lemma app_run_append: "app_run rr E fd p (as @ bs) s = app_run rr E fd p bs (app_run rr E fd p as s)"
  by (simp add: app_run_def)

lemma app_run_Cons: "app_run rr E fd p (ev # evs) s = app_run rr E fd p evs (app_step rr E fd p ev s)"
  by (simp add: app_run_def)

lemma app_run_Nil [simp]: "app_run rr E fd p [] s = s"
  by (simp add: app_run_def)

lemma others_Cons: "others p (ev # evs) \<longleftrightarrow> others p [ev] \<and> others p evs"
  by (auto simp: others_def)

lemmas app_defs = app_main_def deliver_def interrupt_def kill_def in_user_mode_def print_def ctrl_c_handler_def sig_event_handler_def

section \<open>The device seen by one process\<close>

definition sent_to :: "kptr \<Rightarrow> ccall ktrace \<Rightarrow> nat" where
  "sent_to p tr = count_list (targets tr) p"

text \<open>Reads that have loaded the task \<open>p\<close> and have not sent to it yet.\<close>

definition owing :: "kptr \<Rightarrow> app \<Rightarrow> kptr set" where
  "owing p s = {q. in_call s q = Read_arg p}"

lemma arrived_append [simp]: "arrived p (xs @ ys) = arrived p xs + arrived p ys"
  by (simp add: arrived_def)

lemma begin_op_arrived [simp]: "arrived p (trace (final_world (begin_op op) w)) = arrived p (trace w)"
  by (cases op) (simp_all add: begin_op_def sig_code final_world_def krun arrived_def)

lemma continue_op_arrived: "h \<noteq> Read_arg p \<Longrightarrow> arrived p (trace (final_world (continue_op E h) w)) = arrived p (trace w)"
  by (cases h) (auto simp: continue_op_def sig_code final_world_def krun arrived_def)

lemma ioctl_result [simp]: "result (sig_ioctl p True) w = 0"
  by (simp add: sig_ioctl_def result_def krun)

lemma op_process_simps [simp]:
  "op_process (Op_open q) = q" "op_process (Op_release q) = q" "op_process (Op_reg q) = q" "op_process (Op_read q) = q" "op_process (Op_write q n) = q"
  by (simp_all add: op_process_def)

lemma start_call_fields [simp]:
  "apc (start_call op s) = apc s" "app_done (start_call op s) = app_done s" "check (start_call op s) = check s"
  "int_handler (start_call op s) = int_handler s" "sig_handler (start_call op s) = sig_handler s"
  "delivered (start_call op s) = delivered s"
  "arrived p (trace (dev_world (start_call op s))) = arrived p (trace (dev_world s))"
  "targets (trace (dev_world (start_call op s))) = targets (trace (dev_world s))"
  by (simp_all add: start_call_def begin_op_effect)

lemma continue_call_fields [simp]:
  "apc (continue_call E q s) = apc s" "app_done (continue_call E q s) = app_done s" "check (continue_call E q s) = check s"
  "int_handler (continue_call E q s) = int_handler s" "sig_handler (continue_call E q s) = sig_handler s"
  "delivered (continue_call E q s) = delivered s"
  by (simp_all add: continue_call_def)

lemmas call_effects = start_call_def continue_call_def begin_op_effect begin_op_enters continue_op_effect

section \<open>The invariant\<close>

text \<open>
  The device knows the process only from the ioctl to the last stretch of its close; before the ioctl no signal for it is
  on its way.
\<close>

definition knows :: "kptr \<Rightarrow> app \<Rightarrow> bool" where
  "knows p s \<longleftrightarrow> apc s \<in> {Registered, Reading, Outer, Spin, Looping, Clear, Closing} \<or>
     apc s \<in> {Releasing, Killed} \<and> in_call s p = Release_hit"

definition own_call :: "kptr \<Rightarrow> app \<Rightarrow> bool" where
  "own_call p s \<longleftrightarrow> in_call s p = Out \<or> apc s = Reading \<and> in_call s p \<noteq> Release_hit \<or>
     apc s \<in> {Releasing, Killed} \<and> in_call s p = Release_hit"

definition early :: "app \<Rightarrow> bool" where
  "early s \<longleftrightarrow> apc s \<in> {Start, Int_set, Both_set, Opened}"

definition app_inv :: "kptr \<Rightarrow> app \<Rightarrow> bool" where
  "app_inv p s \<longleftrightarrow> (task (dev_world s) = p \<longrightarrow> knows p s) \<and> own_call p s \<and> few (in_call s) \<and>
     (early s \<longrightarrow> owing p s = {} \<and> delivered s = arrived p (trace (dev_world s))) \<and>
     (sig_handler s \<or> apc s \<in> {Start, Int_set, Ended}) \<and> (apc s = Start \<longrightarrow> \<not> app_done s \<and> \<not> int_handler s)"

lemmas inv_defs = app_inv_def knows_def own_call_def early_def

lemma few_upd [simp]: "few c \<Longrightarrow> few (c(r := h))"
  unfolding few_def by (rule finite_subset [of _ "insert r {q. c q \<noteq> Out}"]) auto

lemma app_start_inv: "fresh p w c \<Longrightarrow> app_inv p (app_start p w c)"
  by (simp add: inv_defs fresh_def app_start_def owing_def)

text \<open>What a stretch of any process leaves alone.\<close>

lemma begin_op_not_owing: "result (begin_op op) w \<noteq> Read_arg t"
  by (cases op) (simp_all add: begin_op_enters)

lemma start_call_keeps [simp]:
  "few (in_call s) \<Longrightarrow> few (in_call (start_call op s))"
  "owing p (start_call op s) = owing p s"
  "q \<noteq> op_process op \<Longrightarrow> in_call (start_call op s) q = in_call s q"
  by (auto simp: start_call_def owing_def begin_op_not_owing)

lemma start_call_task: "task (dev_world (start_call op s)) = p \<Longrightarrow> op_process op \<noteq> p \<Longrightarrow> task (dev_world s) = p"
  by (cases op) (auto simp: start_call_def begin_op_effect split: if_splits)

lemma continue_call_keeps [simp]:
  "few (in_call s) \<Longrightarrow> few (in_call (continue_call E q s))"
  "r \<noteq> q \<Longrightarrow> in_call (continue_call E q s) r = in_call s r"
  by (simp_all add: continue_call_def)

lemma continue_call_task: "task (dev_world (continue_call E q s)) = (if in_call s q = Release_hit then Null else task (dev_world s))"
  by (simp add: continue_call_def continue_op_effect)

lemma continue_call_owing:
  "task (dev_world s) \<noteq> p \<Longrightarrow> owing p (continue_call E q s) = owing p s - {q}"
  by (auto simp: continue_call_def continue_op_effect owing_def split: if_splits)

lemma start_call_inv:
  assumes "op_process op \<noteq> p" and "app_inv p s"
  shows "app_inv p (start_call op s)"
  using assms(2) start_call_task [OF _ assms(1)] assms(1) by (simp add: inv_defs)

lemma continue_call_inv:
  assumes "q \<noteq> p" and "p \<noteq> Null" and "app_inv p s"
  shows "app_inv p (continue_call E q s)"
proof -
  have "early s \<Longrightarrow> \<not> knows p s"
    by (auto simp: early_def knows_def)
  then have "early s \<Longrightarrow> task (dev_world s) \<noteq> p"
    using assms(3) by (auto simp: app_inv_def)
  moreover have "early s \<Longrightarrow> in_call s q \<noteq> Read_arg p"
    using assms(3) by (auto simp: app_inv_def owing_def)
  ultimately have e: "early s \<longrightarrow> owing p (continue_call E q s) = {} \<and>
      delivered s = arrived p (trace (dev_world (continue_call E q s)))"
    using assms(3) by (simp add: app_inv_def continue_call_owing) (simp add: continue_call_def continue_op_arrived)
  have k: "knows p (continue_call E q s) = knows p s" "own_call p (continue_call E q s) = own_call p s"
      "early (continue_call E q s) = early s"
    using assms(1) by (simp_all add: knows_def own_call_def early_def)
  have "task (dev_world (continue_call E q s)) = p \<longrightarrow> knows p s"
    using assms(2,3) by (simp add: continue_call_task app_inv_def)
  with e assms(3) show ?thesis
    by (simp add: app_inv_def k)
qed

lemma own_step_inv:
  assumes "p \<noteq> Null" and "app_inv p s"
  shows "app_inv p (app_main rr E fd p s)"
  using assms
  by (cases "apc s"; cases "in_call s p")
    (simp_all add: app_main_def print_def inv_defs call_effects owing_def Let_def)

lemma kill_inv:
  assumes "p \<noteq> Null" and "app_inv p s" and "in_user_mode p s"
  shows "app_inv p (kill p s)"
  using assms by (cases "apc s") (simp_all add: kill_def in_user_mode_def inv_defs call_effects)

lemma handler_inv:
  assumes "app_inv p s" and "sig_handler s" and "\<not> early s"
  shows "app_inv p (sig_event_handler 1 (s\<lparr>delivered := n\<rparr>))"
  using assms by (simp add: sig_event_handler_def print_def inv_defs)

lemma app_step_inv:
  assumes "p \<noteq> Null" and "others p [ev]" and "app_inv p s"
  shows "app_inv p (app_step rr E fd p ev s)"
proof (cases ev)
  case Deliver
  have "early s \<Longrightarrow> \<not> delivered s < arrived p (trace (dev_world s))"
    using assms(3) by (simp add: app_inv_def)
  then show ?thesis
    using Deliver assms kill_inv handler_inv [of p s "Suc (delivered s)"] by (auto simp: deliver_def)
next
  case Ctrl_C
  have "apc s \<noteq> Start \<Longrightarrow> app_inv p (ctrl_c_handler (s\<lparr>int_handler := False\<rparr>))"
    using assms(3) by (simp add: ctrl_c_handler_def print_def inv_defs owing_def)
  moreover have "int_handler s \<Longrightarrow> apc s \<noteq> Start"
    using assms(3) by (auto simp: app_inv_def)
  ultimately show ?thesis
    using Ctrl_C assms kill_inv by (auto simp: interrupt_def)
qed (use assms start_call_inv continue_call_inv own_step_inv in \<open>auto simp: others_def\<close>)

lemma app_run_inv:
  assumes "p \<noteq> Null" and "others p evs" and "app_inv p s"
  shows "app_inv p (app_run rr E fd p evs s)"
  using assms(2,3)
proof (induction evs arbitrary: s)
  case (Cons ev evs)
  then show ?case
    using app_step_inv [OF assms(1), of ev s rr E fd] others_Cons [of p ev evs] by (simp add: app_run_Cons)
qed simp

text \<open>A process that makes no call stays where it is.\<close>

lemma bystander_step: "q \<noteq> p \<Longrightarrow> others q [ev] \<Longrightarrow> in_call (app_step rr E fd p ev s) q = in_call s q"
  by (cases ev; cases "apc s") (auto simp: others_def app_defs Let_def)

lemma bystander: "q \<noteq> p \<Longrightarrow> others q evs \<Longrightarrow> in_call (app_run rr E fd p evs s) q = in_call s q"
proof (induction evs arbitrary: s)
  case (Cons ev evs)
  then show ?case using bystander_step [of q p ev rr E fd s] others_Cons [of q ev evs] by (simp add: app_run_Cons)
qed simp

section \<open>After the end\<close>

text \<open>The signals sent to \<open>p\<close> and those that reads with \<open>p\<close> in hand still owe it.\<close>

definition sent_or_owed :: "kptr \<Rightarrow> app \<Rightarrow> nat" where
  "sent_or_owed p s = sent_to p (trace (dev_world s)) + card (owing p s)"

lemma owing_finite: "few (in_call s) \<Longrightarrow> finite (owing p s)"
  unfolding few_def owing_def by (rule finite_subset [rotated]) auto

lemma continue_call_owed:
  assumes "few (in_call s)" and "task (dev_world s) \<noteq> p" and "p \<noteq> Null"
  shows "sent_or_owed p (continue_call E q s) = sent_or_owed p s"
proof (cases "q \<in> owing p s")
  case True
  then have h: "in_call s q = Read_arg p" by (simp add: owing_def)
  have "sent_to p (trace (dev_world (continue_call E q s))) = Suc (sent_to p (trace (dev_world s)))"
    using assms(3) by (simp add: continue_call_def h continue_op_effect sent_to_def)
  moreover have "Suc (card (owing p s - {q})) = card (owing p s)"
    using card_Suc_Diff1 [OF owing_finite [OF assms(1)] True] .
  ultimately show ?thesis
    using assms(2) by (simp add: sent_or_owed_def continue_call_owing)
next
  case False
  then have "in_call s q \<noteq> Read_arg p" by (simp add: owing_def)
  then have "sent_to p (trace (dev_world (continue_call E q s))) = sent_to p (trace (dev_world s))"
    by (auto simp: continue_call_def continue_op_effect sent_to_def split: handler_pc.split)
  then show ?thesis
    using assms(2) False by (simp add: sent_or_owed_def continue_call_owing)
qed

lemma start_call_owed [simp]: "sent_or_owed p (start_call op s) = sent_or_owed p s"
  by (simp add: sent_or_owed_def sent_to_def)

lemma ended_step:
  assumes "p \<noteq> Null" and "others p [ev]" and "app_inv p s" and "apc s = Ended"
  shows "apc (app_step rr E fd p ev s) = Ended" and "sent_or_owed p (app_step rr E fd p ev s) = sent_or_owed p s"
    and "owing p (app_step rr E fd p ev s) \<subseteq> owing p s"
proof -
  have t: "task (dev_world s) \<noteq> p" "few (in_call s)" using assms(3,4) by (auto simp: inv_defs)
  show "apc (app_step rr E fd p ev s) = Ended" using assms(4) by (cases ev) (auto simp: app_defs)
  show "sent_or_owed p (app_step rr E fd p ev s) = sent_or_owed p s"
    using assms(1,4) t by (cases ev) (simp_all add: app_defs continue_call_owed)
  show "owing p (app_step rr E fd p ev s) \<subseteq> owing p s"
    using assms(4) t by (cases ev) (auto simp: app_defs continue_call_owing)
qed

lemma ended_stays:
  assumes "p \<noteq> Null" and "others p evs" and "app_inv p s" and "apc s = Ended"
  shows "apc (app_run rr E fd p evs s) = Ended \<and> task (dev_world (app_run rr E fd p evs s)) \<noteq> p \<and>
    sent_or_owed p (app_run rr E fd p evs s) = sent_or_owed p s \<and> owing p (app_run rr E fd p evs s) \<subseteq> owing p s"
  using assms(2-4)
proof (induction evs arbitrary: s)
  case (Cons ev evs)
  have o: "others p [ev]" "others p evs" using Cons.prems(1) others_Cons by blast+
  note st = ended_step [OF assms(1) o(1) Cons.prems(2,3), of rr E fd]
  show ?case
    using Cons.IH [OF o(2) app_step_inv [OF assms(1) o(1) Cons.prems(2)] st(1)] st(2,3) by (simp add: app_run_Cons) blast
qed (auto simp: inv_defs)

section \<open>The way to the end\<close>

text \<open>How many statements are left at most once the flag is set.\<close>

definition rank :: "kptr \<Rightarrow> app \<Rightarrow> nat" where
  "rank p s = (case apc s of Start \<Rightarrow> 12 | Int_set \<Rightarrow> 11 | Both_set \<Rightarrow> 10 | Opened \<Rightarrow> 9 | Registered \<Rightarrow> 8
     | Reading \<Rightarrow> (case in_call s p of Read_hit \<Rightarrow> 7 | Out \<Rightarrow> 5 | _ \<Rightarrow> 6)
     | Looping \<Rightarrow> 7 | Spin \<Rightarrow> 6 | Clear \<Rightarrow> 5 | Outer \<Rightarrow> 4 | Closing \<Rightarrow> 3
     | Releasing \<Rightarrow> (if in_call s p = Out then 1 else 2) | Killed \<Rightarrow> (if in_call s p = Out then 1 else 2) | Ended \<Rightarrow> 0)"

definition caught :: "bool \<Rightarrow> app \<Rightarrow> bool" where
  "caught reread s \<longleftrightarrow> \<not> reread \<and> apc s = Looping"

lemma own_rank:
  assumes "app_done s" and "\<not> caught rr s" and "app_inv p s"
  shows "app_done (app_main rr E fd p s)" and "\<not> caught rr (app_main rr E fd p s)"
    and "rank p (app_main rr E fd p s) \<le> rank p s - 1"
  using assms
  by (cases "apc s"; cases "in_call s p"; simp add: app_main_def print_def rank_def caught_def call_effects inv_defs Let_def)+

lemma kill_rank:
  assumes "in_user_mode p s"
  shows "rank p (kill p s) \<le> rank p s" and "app_done (kill p s) = app_done s" and "\<not> caught rr s \<Longrightarrow> \<not> caught rr (kill p s)"
  using assms by (cases "apc s"; simp add: kill_def in_user_mode_def rank_def caught_def call_effects)+

lemma rank_cong: "apc s' = apc s \<Longrightarrow> in_call s' p = in_call s p \<Longrightarrow> rank p s' = rank p s"
  unfolding rank_def by (simp only:)

lemma done_step:
  assumes "app_done s" and "\<not> caught rr s" and "app_inv p s" and "others p [ev]"
  shows "app_done (app_step rr E fd p ev s) \<and> \<not> caught rr (app_step rr E fd p ev s) \<and>
    rank p (app_step rr E fd p ev s) \<le> rank p s - (if ev = Run then 1 else 0)"
proof (cases ev)
  case Run
  then show ?thesis using own_rank [OF assms(1-3)] by simp
next
  case Deliver
  have "rank p (sig_event_handler 1 (s\<lparr>delivered := n\<rparr>)) = rank p s" for n
    by (rule rank_cong) (simp_all add: sig_event_handler_def print_def)
  then show ?thesis
    using Deliver assms(1,2) kill_rank [of p s] by (auto simp: deliver_def sig_event_handler_def print_def caught_def)
next
  case Ctrl_C
  have "rank p (ctrl_c_handler (s\<lparr>int_handler := False\<rparr>)) = rank p s"
    by (rule rank_cong) (simp_all add: ctrl_c_handler_def print_def)
  then show ?thesis
    using Ctrl_C assms(1,2) kill_rank [of p s] by (auto simp: interrupt_def ctrl_c_handler_def print_def caught_def)
next
  case (Other op)
  then have "rank p (start_call op s) = rank p s"
    using assms(4) by (intro rank_cong) (auto simp: others_def)
  then show ?thesis using Other assms(1,2) by (simp add: caught_def)
next
  case (Goes_on q)
  then have "rank p (continue_call E q s) = rank p s"
    using assms(4) by (intro rank_cong) (auto simp: others_def)
  then show ?thesis using Goes_on assms(1,2) by (simp add: caught_def)
qed

lemma done_run:
  assumes "p \<noteq> Null" and "others p evs" and "app_inv p s" and "app_done s" and "\<not> caught rr s"
  shows "rank p (app_run rr E fd p evs s) \<le> rank p s - count_list evs Run"
  using assms(2-5)
proof (induction evs arbitrary: s)
  case (Cons ev evs)
  have o: "others p [ev]" "others p evs" using Cons.prems(1) others_Cons by blast+
  note st = done_step [OF Cons.prems(3,4,2) o(1), of E fd]
  have "rank p (app_run rr E fd p evs (app_step rr E fd p ev s)) \<le> rank p (app_step rr E fd p ev s) - count_list evs Run"
    using st by (intro Cons.IH [OF o(2) app_step_inv [OF assms(1) o(1) Cons.prems(2)]]) auto
  then show ?case using st by (auto simp: app_run_Cons split: if_splits)
qed simp

lemma rank_Ended: "rank p s = 0 \<longleftrightarrow> apc s = Ended"
  by (cases "apc s") (simp_all add: rank_def split: handler_pc.split)

lemma rank_le: "rank p s \<le> 12"
  by (cases "apc s") (simp_all add: rank_def split: handler_pc.split)

text \<open>Without an interrupt the program does not end.\<close>

definition carries_on :: "app \<Rightarrow> bool" where
  "carries_on s \<longleftrightarrow> \<not> app_done s \<and> apc s \<notin> {Closing, Releasing, Killed, Ended}"

lemma undisturbed_step:
  assumes "0 \<le> fd" and "ev \<noteq> Ctrl_C" and "carries_on s" and "app_inv p s"
  shows "carries_on (app_step rr E fd p ev s)"
proof (cases ev)
  case Run
  then show ?thesis using assms(1,3) by (cases "apc s") (auto simp: carries_on_def app_main_def print_def Let_def)
next
  case Deliver
  have "early s \<Longrightarrow> \<not> delivered s < arrived p (trace (dev_world s))" "sig_handler s \<or> early s"
    using assms(3,4) by (auto simp: inv_defs carries_on_def)
  then show ?thesis using Deliver assms(3) by (auto simp: carries_on_def deliver_def sig_event_handler_def print_def)
qed (use assms in \<open>simp_all add: carries_on_def\<close>)

lemma undisturbed_run:
  assumes "p \<noteq> Null" and "0 \<le> fd" and "others p evs" and "Ctrl_C \<notin> set evs" and "app_inv p s" and "carries_on s"
  shows "carries_on (app_run rr E fd p evs s)"
  using assms(3-6)
proof (induction evs arbitrary: s)
  case (Cons ev evs)
  have o: "others p [ev]" "others p evs" using Cons.prems(1) others_Cons by blast+
  show ?case
    using Cons.prems Cons.IH [OF o(2) _ app_step_inv [OF assms(1) o(1) Cons.prems(3)] undisturbed_step [OF assms(2) _ Cons.prems(4,3)]]
    by (auto simp: app_run_Cons)
qed simp

text \<open>A program compiled to load the two variables once never leaves the blocking check it has entered.\<close>

lemma caught_step:
  assumes "caught rr s" and "app_inv p s" and "ev = Ctrl_C \<Longrightarrow> int_handler s"
  shows "caught rr (app_step rr E fd p ev s) \<and> int_handler (app_step rr E fd p ev s) = (int_handler s \<and> ev \<noteq> Ctrl_C)"
proof -
  have "sig_handler s" "in_user_mode p s" using assms(1,2) by (auto simp: inv_defs caught_def in_user_mode_def)
  then show ?thesis
    using assms(1,3) by (cases ev) (auto simp: caught_def app_main_def deliver_def interrupt_def sig_event_handler_def ctrl_c_handler_def print_def)
qed

lemma caught_run:
  assumes "p \<noteq> Null" and "others p evs" and "app_inv p s" and "caught rr s" and "count_list evs Ctrl_C \<le> of_bool (int_handler s)"
  shows "caught rr (app_run rr E fd p evs s)"
  using assms(2-5)
proof (induction evs arbitrary: s)
  case (Cons ev evs)
  have o: "others p [ev]" "others p evs" using Cons.prems(1) others_Cons by blast+
  have "ev = Ctrl_C \<Longrightarrow> int_handler s" using Cons.prems(4) by (cases "int_handler s") auto
  note st = caught_step [OF Cons.prems(3,2), of ev E fd, OF this]
  have "caught rr (app_run rr E fd p evs (app_step rr E fd p ev s))"
    using st Cons.prems(4) by (intro Cons.IH [OF o(2) app_step_inv [OF assms(1) o(1) Cons.prems(2)]]) (auto split: if_splits split_of_bool_asm)
  then show ?case by (simp add: app_run_Cons)
qed simp

end
