(* ===== verification/Spec2Isabelle.thy ===== *)
theory Spec2Isabelle
  imports
    Block_Disk
    Sync_Lockfree
    Sync_Modules
    Ring_Buffer
    Char_Devices
    Completion_Module
    Readonly_Char
    USB_Bulk_Life
    USB_Skel_Flight
    USB_Skel_Life
    USB_Ids
    USB_Mouse
    Kthread_Modules
    User_Programs
    Deferred_Work
    Buffer_Devices
    Log_Modules
    Watchdog_Options
    Socket_Chat
    Uart_Line
    Framebuffer
    Signal_App
begin

text \<open>
  \<^bold>\<open>A verification library for the Linux kernel exercises of this repository.\<close>

  The repository is a collection of small loadable modules, one directory per subject, with a few user
  programs beside them. The modules do not call each other; what they share is a way of being written: a
  load function that acquires things from the kernel step by step with labels that undo them, an unload
  function, and handlers the kernel calls in between. The library follows that shape.

  \<^bold>\<open>Kernel and hardware.\<close> The kernel is not part of the repository. In \<^verbatim>\<open>Kernel_Prelude\<close> a driver
  function runs in the state monad over a world that records the trace of kernel calls; an
  environment, arbitrary unless a theorem says otherwise, answers each call from the history
  of calls so far. What a trace leaves registered is read off by a ledger (\<open>ledger_of\<close>) with
  one table of acquiring calls and one of releasing calls. The locale \<open>kernel_module\<close> is the
  contract of a load and unload pair (or a probe and remove pair), interpreted on the block driver, the
  six synchronisation modules, the wait-queue, procfs and signal modules, four USB drivers, the
  character, platform, GPIO, IIO, Ethernet, PCI, debugfs and memory examples and the clock in procfs. Its extension
  \<open>served_module\<close> adds the handlers the kernel may call between load and unload (\<open>file_ops\<close>, \<open>in_use\<close>): a whole session
  gives back what it acquired. It is interpreted on the synchronisation modules, the procfs, signal and read-only devices, the character and
  platform drivers and the Ethernet driver. The locale \<open>simulation\<close> is the contract of a
  refinement by events (\<open>replay\<close>): a driver and a specification that agree on each allowed event agree on every sequence. Locks and completions are records of functions with their
  documented laws as hypotheses (\<open>lock_ok\<close>, \<open>seq_ok\<close>, \<open>comp_ok\<close>, \<open>kref_ok\<close>, \<open>sem_ok\<close>), as are the matching rules of the platform bus and the USB bus (\<open>by_name\<close>, \<open>match_ok\<close>); \<^verbatim>\<open>check_disk_change\<close>, the answers of the USB bus, the sizes of the pieces a socket delivers and the kernel's conversions of
  module parameters are arguments.

  \<^bold>\<open>Parts.\<close>

  \<^item> \<^verbatim>\<open>BlockDriver/blk1.c\<close>: \<^verbatim>\<open>Block_Driver\<close> has the device structure and the data path
    (\<open>blk1_transfer\<close>, \<open>blk1_segments\<close>, \<open>blk1_request\<close>) with the locale \<open>sector_store\<close>; a write
    request followed by a read request returns the data, and transfers stay inside the device
    unless the 64-bit range check wraps. \<^verbatim>\<open>Block_Module\<close> has open, release, the
    invalidation timer (\<open>blk_session\<close>, an inductive relation with its invariant
    \<open>sess_inv\<close>), load, unload and the geometry ioctl. \<^verbatim>\<open>Block_Disk\<close> specifies a removable disk of sectors
    (\<open>disk_step\<close>), shows that the driver refines it event by event, and that a loaded driver is such a
    disk: it stays well formed and never faults as long as the kernel keeps to \<open>disk_enabled\<close>.
  \<^item> \<^verbatim>\<open>Spinlock/spin1.c\<close>, \<^verbatim>\<open>Spinlock/spin2.c\<close>, \<^verbatim>\<open>Mutex/mtx1.c\<close>, \<^verbatim>\<open>Semaphore/sem1.c\<close>,
    \<^verbatim>\<open>SeqLock/seqlock1.c\<close>, \<^verbatim>\<open>Atomic/atomic1.c\<close>: \<^verbatim>\<open>Sync_Machine\<close> interleaves two threads statement by
    statement (\<open>exec\<close>, \<open>reach\<close>) and proves, in the locale \<open>disciplined\<close>, mutual exclusion, exact
    counting and absence of deadlock for any two programs that pass a static check;
    \<^verbatim>\<open>Sync_Threads\<close> has the thread functions and interprets the locale and its extension
    \<open>printing\<close> on them; \<^verbatim>\<open>Sync_Lockfree\<close> has the sequence-lock reader, with the late
    initialisation of its lock as an event of its own (\<open>seqlock1_reach\<close>), and the atomic counter.
    \<^verbatim>\<open>Sync_Modules\<close> has load, unload and file operations.
  \<^item> \<^verbatim>\<open>Char_Module\<close> has the registration sequence eleven modules share (\<open>chr_init\<close>, \<open>chr_exit\<close>) with the
    labels as arguments, and the ledger tables for it.
  \<^item> \<^verbatim>\<open>WaitQueue/wait1.c\<close>: \<^verbatim>\<open>Ring_Buffer\<close>; the handlers as machines that can sleep, the ring as an
    instance of the bounded-queue contract \<open>byte_queue\<close>, first-in first-out delivery for one
    writer and one reader, and the two ways in which it fails.
  \<^item> \<^verbatim>\<open>Procfs/procfs2.c\<close>, \<^verbatim>\<open>Sysfs/sysfs1.c\<close>, \<^verbatim>\<open>IRQ/irq1.c\<close>: \<^verbatim>\<open>Char_Devices\<close>, with the \<^verbatim>\<open>%d\<close> conversions
    of the C library in \<^verbatim>\<open>C_Decimal\<close>; the attribute files refine a 32-bit register, and what a session gives back.
  \<^item> \<^verbatim>\<open>Signal/signal1.c\<close>: \<^verbatim>\<open>Signal_Module\<close>, a refinement of the specification of who is
    registered, and the handlers cut at their accesses to the shared variable (\<open>begin_op\<close>, \<open>continue_op\<close>). \<^verbatim>\<open>Signal_App\<close> runs the user program
    \<^verbatim>\<open>sig1usr.c\<close> on those pieces, with its signal handlers and any number of other processes in between. The properties of the two together, and
    the races the missing lock allows, are at the end of this theory.
  \<^item> \<^verbatim>\<open>Completion/comp1.c\<close>: \<^verbatim>\<open>Completion_Module\<close>, the waiting thread, the reads of any number of processes and the unload,
    interleaved statement by statement: no read is counted twice, and no more signals are pending than processes read (and one for the unload).
  \<^item> \<^verbatim>\<open>ReadonlyCharacter/char1.c\<close>: \<^verbatim>\<open>Readonly_Char\<close>, the message handed out piece by piece, and the module in use.
  \<^item> \<^verbatim>\<open>USB/usbdrv4.c\<close>: \<^verbatim>\<open>USB_Bulk\<close> (reads as a byte stream, the write loop) and \<^verbatim>\<open>USB_Bulk_Probe\<close>
    (open, close, probe, disconnect); \<^verbatim>\<open>USB_Bulk_Life\<close> interleaves files and the disconnect: nothing is used after it is freed.
  \<^item> \<^verbatim>\<open>USB/usbdrv3.c\<close>: \<^verbatim>\<open>USB_Skel\<close> (writes with their limit of transfers in flight, completions, the
    blocking read with its retry loop, flush), \<^verbatim>\<open>USB_Skel_Flight\<close> (the bound of eight transfers over every sequence
    of writes, completions and flushes, for a semaphore that keeps to \<open>sem_ok\<close>) and \<^verbatim>\<open>USB_Skel_Life\<close> (the reference count through probe,
    open, release, disconnect, suspend and reset).
  \<^item> \<^verbatim>\<open>USB_Ids\<close> has the device tables of the four USB drivers and which of them claim the same device.
  \<^item> \<^verbatim>\<open>USB/usbdrv1.c\<close>, \<^verbatim>\<open>USB/usbdrv2.c\<close>: \<^verbatim>\<open>USB_Mouse\<close>, the probe of the mouse driver with its three failure labels,
    its name and capabilities, the interrupt handler that resubmits its transfer, and the minimal driver.
  \<^item> \<^verbatim>\<open>Kthread/thread1.c\<close>, \<^verbatim>\<open>Kthread/thread2.c\<close>, \<^verbatim>\<open>Signal/signal2.c\<close>: \<^verbatim>\<open>Kthread_Modules\<close>, two threads and the
    unload function interleaved. The locale \<open>stop_protocol\<close> takes two thread functions that pass a
    static check and proves that the unload stops each thread once and returns after both; it is
    interpreted on the thread functions of the three modules (for \<^verbatim>\<open>thread2.c\<close> and \<^verbatim>\<open>signal2.c\<close> while no signal arrives).
  \<^item> \<^verbatim>\<open>Timers\<close>, \<^verbatim>\<open>Tasklet\<close>, \<^verbatim>\<open>WaitQueue/wait2.c\<close>, \<^verbatim>\<open>InvokeUserCmd/invoke1.c\<close>: \<^verbatim>\<open>Deferred_Work\<close>, modules as
    programs with callbacks. The locale \<open>waits_for_callback\<close> is the contract of an unload after which no
    callback is left, interpreted on the two modules that keep it; the others are shown not to.
  \<^item> \<^verbatim>\<open>CharacterDriver\<close>, \<^verbatim>\<open>CharacterDriverNew\<close>, \<^verbatim>\<open>PlatformDriver\<close>, \<^verbatim>\<open>GpioChip\<close>, \<^verbatim>\<open>IIODriver\<close>, \<^verbatim>\<open>NetworkDriver\<close>:
    \<^verbatim>\<open>Platform_Drivers\<close>, registration, use, removal, what error paths leave behind, the counters of
    the Ethernet transmitter, and the modules that add a device together with the driver the bus finds for it. \<^verbatim>\<open>User_Programs\<close> has the programs that try the drivers out.
  \<^item> \<^verbatim>\<open>MiscDriver/misctest.c\<close>, \<^verbatim>\<open>Procfs/procfs1.c\<close>, \<^verbatim>\<open>Debugfs\<close>, \<^verbatim>\<open>Sysfs/sysfs-poll.c\<close>, \<^verbatim>\<open>MemoryAlloc\<close>, \<^verbatim>\<open>PCI/pci1.c\<close>:
    \<^verbatim>\<open>Buffer_Devices\<close>, what is written can be read back, with the memory each step holds.
  \<^item> \<^verbatim>\<open>ModuleParam\<close>, \<^verbatim>\<open>ModuleParamCallback\<close>, \<^verbatim>\<open>PrintTaskStruct\<close>, \<^verbatim>\<open>MemoryAlloc/vmlist.c\<close>, \<^verbatim>\<open>ProcExample\<close>, \<^verbatim>\<open>KOOPS\<close> and the first
    modules: \<^verbatim>\<open>Log_Modules\<close>, what they log and when they fault.
  \<^item> \<^verbatim>\<open>Watchdog/watchdog.c\<close>: \<^verbatim>\<open>Watchdog_Tool\<close>, the option loop with \<^verbatim>\<open>strtoul\<close>, the ping loop and the ways out, with an
    interrupt after any system call; unless it is killed before its handler is installed, the program gives the device the magic character before it closes it. \<^verbatim>\<open>Watchdog_Options\<close>, the option tables and the
    scan \<^verbatim>\<open>getopt_long\<close> makes with them, against a specification of command lines (\<open>cmdline\<close>), and the
    second scan of the vector the first has rearranged.
  \<^item> \<^verbatim>\<open>SocketTCP\<close>, \<^verbatim>\<open>SocketUDP\<close>: \<^verbatim>\<open>Socket_Chat\<close>, client and server interleaved over two byte streams, for
    reads of any size what is printed of the streams, for whole messages a refinement of a conversation line by line and its end, and the lines for which the buffers are too short.
  \<^item> \<^verbatim>\<open>UartDriver/test_serial.c\<close>: \<^verbatim>\<open>Uart_Driver\<close>, the transmitter, the timer and the table of operations. \<^verbatim>\<open>Uart_Line\<close> runs them
    under the serial core (\<open>line_step\<close>, an inductive relation): the order of the characters on the line, and when the timer is
    lost or added twice.
  \<^item> \<^verbatim>\<open>Framebuffer/fbexample.c\<close>: \<^verbatim>\<open>Framebuffer\<close>, register packing in 32-bit words over byte-addressed device memory, and the palette.

  \<^bold>\<open>Integers and loops.\<close> Machine integers are words where their width matters (sector numbers,
  counters, registers) and mathematical integers with the conversions \<open>s32\<close> and \<open>s16\<close> where C's
  signed types do. Loops are structural recursion, or recursion with a measure (\<open>tx_loop\<close>). The
  write loop of the USB driver may not end: \<open>write_loop\<close> consumes one answer of the bus per
  round and is \<open>None\<close> when the answers run out first; as many answers as there are bytes are
  enough when every transfer makes progress. In the same way \<open>read_retry\<close> consumes one answer per pass of the
  skeleton driver's read, and two passes are enough on an idle device. Sleeping handlers are machines whose single
  steps the theorems interleave.

  \<^bold>\<open>Not modelled.\<close> The arguments of log messages outside \<open>Log_Modules\<close> and \<open>Watchdog_Tool\<close>; \<^verbatim>\<open>sysfs-poll-user.c\<close>, which does not
  compile; files the kernel build generates; what a compiler may make of
  variables that are shared with another thread without \<^verbatim>\<open>volatile\<close> (for the variables \<^verbatim>\<open>sig1usr.c\<close> shares with its signal handlers, both
  possibilities are: \<open>reread\<close>); two writers at the same time in \<^verbatim>\<open>procfs1.c\<close>; \<^verbatim>\<open>POSIXLY_CORRECT\<close> for the watchdog program; \<^verbatim>\<open>SIGPIPE\<close> in the socket programs.
\<close>

section \<open>Devices in use\<close>

text \<open>
  C36. Devices in use, by their ledgers: a load that reports success, any sequence of calls to the device (its file operations,
  both tables of the proc module, any ioctl, by any process, reads and writes of the attribute, interrupts), and the unload give
  back exactly what the load acquired, for the proc file, signal, read-only, sysfs and interrupt devices; the last two in addition ask the
  kernel to remove a file from \<^verbatim>\<open>kernel_kobj\<close> which is not there (their own goes with its directory). The condition on the kernel is \<open>attr_env\<close> and \<open>chooses_major\<close>: calls that
  create a class, a device, a directory or an object return a pointer or \<open>NULL\<close> and never an error pointer, a
  file is not created below \<open>NULL\<close>, new objects are new, and \<^verbatim>\<open>register_chrdev\<close> with major 0 returns a number above 0 or an error.
\<close>

theorem device_sessions_ledger:
  assumes "attr_env E" and "chooses_major E"
  shows "(result (procfs2_init E) w = 0 \<and> set ms \<subseteq> procfs2_calls \<longrightarrow>
      c_ledger (trace (final_world (procfs2_exit E') (in_use ms (final_world (procfs2_init E) w)))) = c_ledger (trace w)) \<and>
    (result (signal1_init E) v = 0 \<and> set ns \<subseteq> signal1_calls \<longrightarrow>
      c_ledger (trace (final_world (signal1_exit E') (in_use ns (final_world (signal1_init E) v)))) = c_ledger (trace v)) \<and>
    (result (ro_init E) u = 0 \<and> set os \<subseteq> range (file_do ro_fops) \<longrightarrow>
      c_ledger (trace (final_world ro_exit (in_use os (final_world (ro_init E) u)))) = c_ledger (trace u)) \<and>
    (result (sysfs1_init E) x = 0 \<and> set ps \<subseteq> sysfs1_calls \<and> SysFile kernel_kobj ''etx_value'' \<notin># owned (c_ledger (trace x)) \<longrightarrow>
      wrong_file ''etx_value'' (c_ledger (trace x))
        (c_ledger (trace (final_world sysfs1_exit (in_use ps (final_world (sysfs1_init E) x)))))) \<and>
    (result (irq_init E) y = 0 \<and> set qs \<subseteq> irq1_calls \<and> SysFile kernel_kobj ''irqvalue'' \<notin># owned (c_ledger (trace y)) \<longrightarrow>
      wrong_file ''irqvalue'' (c_ledger (trace y))
        (c_ledger (trace (final_world irq_exit (in_use qs (final_world (irq_init E) y))))))"
  using procfs2m.session_balanced [OF attr_envD(4) [OF assms(1)] run_result] signal1m.session_balanced [OF attr_envD(4) [OF assms(1)] run_result]
    rom.session_balanced [OF assms(2) run_result] sysfs1_session [OF assms(1)] irq1_session [OF assms(1)]
  by (intro conjI impI; elim conjE) blast+

definition gw0 :: gworld where
  "gw0 = \<lparr>trace = [], dev = 0, dev_class = Null, test_thread1 = Null, test_thread2 = Null, parent = Null, kobj_ref = Null,
     task = Null, signum = 0\<rparr>"

definition major_env :: "ccall kenv" where
  "major_env = \<lparr>ret_int = (\<lambda>tr c. case c of ccall.Register_chrdev m nm \<Rightarrow> if m = 0 then 240 else 0
       | ccall.Sysfs_create_file k a \<Rightarrow> if k = Null then - EINVAL else 0 | _ \<Rightarrow> 0),
     ret_ptr = (\<lambda>tr c. Ptr (Suc (length tr)))\<rparr>"

lemma major_env_ok: "attr_env major_env" "chooses_major major_env"
  by (simp_all add: attr_env_def chooses_major_def no_err_ptr_def major_env_def kernel_kobj_def)

theorem device_sessions_ledger_witness:
  "owned (c_ledger (trace (final_world (signal1_exit major_env)
     (in_use [sig_do major_env (Op_reg (Ptr 9)), sig_do major_env (Op_read (Ptr 9))] (final_world (signal1_init major_env) gw0))))) = {#} \<and>
   wrong_file ''irqvalue'' (c_ledger [])
     (c_ledger (trace (final_world irq_exit (in_use [irq_handler, irq_sysfs_store ''7'' 1] (final_world (irq_init major_env) aw0)))))"
proof -
  let ?ns = "[sig_do major_env (Op_reg (Ptr 9)), sig_do major_env (Op_read (Ptr 9))]" and ?qs = "[irq_handler, irq_sysfs_store ''7'' 1]"
  have r: "result (signal1_init major_env) gw0 = 0" "result (irq_init major_env) aw0 = 0"
    by (simp_all add: signal1_init_def irq_init_def chr_code result_def krun gw0_def aw0_def major_env_def)
  have s: "set ?ns \<subseteq> signal1_calls" "set ?qs \<subseteq> irq1_calls"
    by (auto simp: signal1_calls_def irq1_calls_def attr_calls_def)
  have t: "trace gw0 = []" "trace aw0 = []" by (simp_all add: gw0_def aw0_def)
  show ?thesis
    using device_sessions_ledger [OF major_env_ok, where v = gw0 and ns = ?ns and y = aw0 and qs = ?qs and E' = major_env] r s
    by (simp add: t)
qed

section \<open>The signal device and its user\<close>

definition accepting_env :: "ccall kenv" where
  "accepting_env = \<lparr>ret_int = \<lambda>_ _. 0, ret_ptr = \<lambda>_ _. Null\<rparr>"

lemma fresh_start: "fresh (Ptr 7) gw0 (\<lambda>_. Out)"
  by (simp add: fresh_def gw0_def few_def)

text \<open>
  C14. The signal driver forgets a process that ends: whatever the schedule of the program, of its signals and interrupts, and of any
  number of other processes inside the handlers (their accesses to \<^verbatim>\<open>task\<close> interleaved one by one), once the program has ended (by itself, because
  the device cannot be opened, or killed) it is not registered and never will be again, no read takes it as its receiver
  any more, and the only signals still sent to it are those of reads that had already loaded it before, one each.
\<close>

theorem sig_app_never_dangling:
  assumes "fresh p w c" and "others p (evs @ evs')" and "apc (app_run rr E fd p evs (app_start p w c)) = Ended"
  shows "let s = app_run rr E fd p evs (app_start p w c); s' = app_run rr E fd p evs' s in
    task (dev_world s') \<noteq> p \<and> owing p s' \<subseteq> owing p s \<and>
    sent_to p (trace (dev_world s')) + card (owing p s') = sent_to p (trace (dev_world s)) + card (owing p s)"
proof -
  have o: "others p evs" "others p evs'" and n: "p \<noteq> Null" using assms(1,2) by (auto simp: others_def fresh_def)
  have "app_inv p (app_run rr E fd p evs (app_start p w c))"
    using n o(1) app_start_inv [OF assms(1)] by (rule app_run_inv)
  from ended_stays [OF n o(2) this assms(3)] show ?thesis by (simp add: Let_def sent_or_owed_def)
qed

theorem sig_app_never_dangling_witness:
  "let s = app_run False accepting_env 3 (Ptr 7)
         (replicate 8 Run @ [Other (Op_read (Ptr 8)), Goes_on (Ptr 8), Goes_on (Ptr 8), Deliver, Ctrl_C, Run, Run, Run, Ctrl_C])
         (app_start (Ptr 7) gw0 (\<lambda>_. Out));
       s' = app_run False accepting_env 3 (Ptr 7)
         [Other (Op_read (Ptr 8)), Other (Op_reg (Ptr 8)), Other (Op_read (Ptr 9)), Goes_on (Ptr 9), Goes_on (Ptr 9)] s
   in sent_to (Ptr 7) (trace (dev_world s)) = 2 \<and> sent_to (Ptr 7) (trace (dev_world s')) = 2"
proof -
  let ?evs = "replicate 8 Run @ [Other (Op_read (Ptr 8)), Goes_on (Ptr 8), Goes_on (Ptr 8), Deliver, Ctrl_C, Run, Run, Run, Ctrl_C]"
  let ?evs' = "[Other (Op_read (Ptr 8)), Other (Op_reg (Ptr 8)), Other (Op_read (Ptr 9)), Goes_on (Ptr 9), Goes_on (Ptr 9)]"
  let ?s = "app_run False accepting_env 3 (Ptr 7) ?evs (app_start (Ptr 7) gw0 (\<lambda>_. Out))"
  have e: "apc ?s = Ended" and n: "sent_to (Ptr 7) (trace (dev_world ?s)) = 2"
    and i: "in_call ?s (Ptr 8) = Out"
    and j: "in_call ?s (Ptr 7) = Out"
    by code_simp+
  have "in_call ?s q = in_call (app_start (Ptr 7) gw0 (\<lambda>_. Out)) q" if "q \<noteq> Ptr 7" "q \<noteq> Ptr 8" for q
    using that by (intro bystander) (auto simp: others_def)
  then have l: "in_call ?s q \<noteq> Read_arg (Ptr 7)" for q
    using i j by (cases "q = Ptr 7 \<or> q = Ptr 8") (auto simp: app_start_def)
  have l: "owing (Ptr 7) ?s = {}" unfolding owing_def using l by blast
  have o: "others (Ptr 7) (?evs @ ?evs')" by (auto simp: others_def)
  from sig_app_never_dangling [OF fresh_start o e] n l show ?thesis by (simp only: Let_def) (elim conjE, simp)
qed

text \<open>
  What the missing lock makes possible: a signal to a process that has ended (its task may be gone), a signal through \<^verbatim>\<open>NULL\<close>, and a
  registration that the close of another process wipes out.
\<close>

lemma sig_races:
  "let s = app_run True accepting_env 3 (Ptr 7)
         (replicate 8 Run @ [Other (Op_read (Ptr 8)), Goes_on (Ptr 8), Ctrl_C, Run, Run, Run, Run]) (app_start (Ptr 7) gw0 (\<lambda>_. Out))
   in apc s = Ended \<and> sent_to (Ptr 7) (trace (dev_world s)) = 1 \<and>
      sent_to (Ptr 7) (trace (dev_world (app_step True accepting_env 3 (Ptr 7) (Goes_on (Ptr 8)) s))) = 2"
  "let s = app_run True accepting_env 3 (Ptr 7)
         (replicate 8 Run @ [Other (Op_read (Ptr 8)), Ctrl_C, Run, Run, Run, Run, Goes_on (Ptr 8), Goes_on (Ptr 8)]) (app_start (Ptr 7) gw0 (\<lambda>_. Out))
   in last (trace (dev_world s)) = Oops ''send_sig_info(NULL)''"
  "let s = app_run True accepting_env 3 (Ptr 7)
         (replicate 8 Run @ [Ctrl_C, Run, Run, Other (Op_reg (Ptr 9)), Run, Run]) (app_start (Ptr 7) gw0 (\<lambda>_. Out))
   in apc s = Ended \<and> task (dev_world s) = Null"
  by code_simp+

text \<open>
  C33. When the program ends: as long as no interrupt arrives it keeps waiting (if the device could be opened). Once the
  interrupt handler has set the flag, twelve more of its own statements end it, whatever happens in between, unless it was compiled to load
  the flag once and had entered the blocking check before: then it spins for ever, until a second interrupt kills it.
\<close>

theorem sig_app_ends:
  assumes "fresh p w c" and "others p (evs @ evs')"
  shows "let s = app_run reread E fd p evs (app_start p w c) in
    (0 \<le> fd \<and> Ctrl_C \<notin> set evs \<longrightarrow> apc s \<noteq> Ended) \<and>
    (app_done s \<and> (reread \<or> apc s \<noteq> Looping) \<and> 12 \<le> count_list evs' Run \<longrightarrow> apc (app_run reread E fd p evs' s) = Ended) \<and>
    (\<not> reread \<and> apc s = Looping \<and> count_list evs' Ctrl_C \<le> of_bool (int_handler s) \<longrightarrow> apc (app_run reread E fd p evs' s) = Looping)"
proof -
  have o: "others p evs" "others p evs'" and n: "p \<noteq> Null" using assms(1,2) by (auto simp: others_def fresh_def)
  define s where "s = app_run reread E fd p evs (app_start p w c)"
  have i: "app_inv p s"
    unfolding s_def using n o(1) app_start_inv [OF assms(1)] by (rule app_run_inv)
  have "carries_on s" if "0 \<le> fd" "Ctrl_C \<notin> set evs"
    unfolding s_def by (rule undisturbed_run [OF n that(1) o(1) that(2) app_start_inv [OF assms(1)]]) (simp add: app_start_def carries_on_def)
  moreover have "rank p (app_run reread E fd p evs' s) = 0" if "app_done s" "\<not> caught reread s" "12 \<le> count_list evs' Run"
    using done_run [OF n o(2) i that(1,2), of E fd] rank_le [of p s] that(3) by linarith
  moreover have "caught reread (app_run reread E fd p evs' s)" if "caught reread s" "count_list evs' Ctrl_C \<le> of_bool (int_handler s)"
    by (rule caught_run [OF n o(2) i that])
  ultimately show ?thesis
    by (fold s_def) (auto simp: Let_def carries_on_def rank_Ended caught_def)
qed

theorem sig_app_ends_witness:
  "apc (app_run True accepting_env 3 (Ptr 7) (replicate 10 Run @ [Deliver]) (app_start (Ptr 7) gw0 (\<lambda>_. Out))) \<noteq> Ended \<and>
   apc (app_run True accepting_env 3 (Ptr 7) (replicate 12 Run) (app_run True accepting_env 3 (Ptr 7) (replicate 12 Run @ [Ctrl_C])
     (app_start (Ptr 7) gw0 (\<lambda>_. Out)))) = Ended \<and>
   apc (app_run False accepting_env 3 (Ptr 7) (Ctrl_C # replicate 50 Run) (app_run False accepting_env 3 (Ptr 7) (replicate 12 Run)
     (app_start (Ptr 7) gw0 (\<lambda>_. Out)))) = Looping"
proof -
  let ?s0 = "app_start (Ptr 7) gw0 (\<lambda>_. Out)"
  have d: "app_done (app_run True accepting_env 3 (Ptr 7) (replicate 12 Run @ [Ctrl_C]) ?s0)" by code_simp
  have n: "12 \<le> count_list (replicate 12 Run) Run" by code_simp
  have l: "apc (app_run False accepting_env 3 (Ptr 7) (replicate 12 Run) ?s0) = Looping"
    and h: "int_handler (app_run False accepting_env 3 (Ptr 7) (replicate 12 Run) ?s0)" by code_simp+
  show ?thesis
    using sig_app_ends [OF fresh_start, of "replicate 10 Run @ [Deliver]" "[]" True accepting_env 3]
      sig_app_ends [OF fresh_start, of "replicate 12 Run @ [Ctrl_C]" "replicate 12 Run" True accepting_env 3] d n
      sig_app_ends [OF fresh_start, of "replicate 12 Run" "Ctrl_C # replicate 50 Run" False accepting_env 3] l h
    by (simp add: others_def Let_def)
qed

end
